(* ===== verification/Prelude.thy ===== *)
theory Prelude
  imports Main "HOL-Library.Word" "HOL-Library.Char_ord"
begin

text \<open>
  What every component shares: the ways a C++ function can fail to return (an exception nobody
  catches, the exit of the process, undefined behaviour) as values of a sum type; the character
  classes of the C locale; \<open>std::to_string\<close> and \<open>std::stoi\<close>; \<open>std::getline\<close> with a delimiter; and
  \<open>std::map\<close>, as a list of pairs kept in the order of its keys, with the laws its clients use
  stated as the locale \<open>ordered_map\<close>.

  C++ strings are byte strings, so \<^typ>\<open>string\<close> (a list of 8-bit characters) models them exactly.
\<close>

named_theorems fd_simps \<open>reading a descriptor table after an operation on it\<close>
named_theorems os_simps \<open>fields of the operating system state after a system call\<close>
named_theorems parse_simps \<open>facts about the shell's parser\<close>

section \<open>Outcomes\<close>

datatype exn = InvalidArgument | OutOfRange | RuntimeError string

datatype failure =
    ExitProcess int
  | Uncaught exn
  | SignedOverflow

type_synonym 'a result = "failure + 'a"

definition bindR :: "'a result \<Rightarrow> ('a \<Rightarrow> 'b result) \<Rightarrow> 'b result" where
  "bindR r f = (case r of Inl e \<Rightarrow> Inl e | Inr x \<Rightarrow> f x)"

lemma bindR_simps [simp]:
  "bindR (Inl e) f = Inl e"
  "bindR (Inr x) f = f x"
  by (simp_all add: bindR_def)

lemma bindR_eq_Inr [simp]: "bindR r f = Inr y \<longleftrightarrow> (\<exists>x. r = Inr x \<and> f x = Inr y)"
  by (cases r) simp_all

lemma bindR_cong [fundef_cong]:
  "r = r' \<Longrightarrow> (\<And>x. r' = Inr x \<Longrightarrow> f x = f' x) \<Longrightarrow> bindR r f = bindR r' f'"
  by (cases r') simp_all

section \<open>Characters\<close>

abbreviation TAB :: char where "TAB \<equiv> CHR 0x09"
abbreviation NL :: char where "NL \<equiv> CHR 0x0A"
abbreviation CR :: char where "CR \<equiv> CHR 0x0D"

definition isspace :: "char \<Rightarrow> bool" where
  "isspace c \<longleftrightarrow> c \<in> {CHR '' '', TAB, NL, CHR 0x0B, CHR 0x0C, CR}"

definition isdigit :: "char \<Rightarrow> bool" where
  "isdigit c \<longleftrightarrow> 48 \<le> (of_char c :: nat) \<and> (of_char c :: nat) \<le> 57"

definition digit_val :: "char \<Rightarrow> nat" where
  "digit_val c = of_char c - 48"

definition digit_char :: "nat \<Rightarrow> char" where
  "digit_char d = char_of (48 + d)"

lemma of_digit_char [simp]: "d < 10 \<Longrightarrow> of_char (digit_char d) = 48 + d"
  by (simp add: digit_char_def)

lemma isdigit_digit_char [simp]: "d < 10 \<Longrightarrow> isdigit (digit_char d)"
  by (simp add: isdigit_def)

lemma digit_val_char [simp]: "d < 10 \<Longrightarrow> digit_val (digit_char d) = d"
  by (simp add: digit_val_def)

lemma isdigit_not_isspace: "isdigit c \<Longrightarrow> \<not> isspace c"
  by (auto simp: isdigit_def isspace_def)

lemma isdigit_neq:
  "isdigit c \<Longrightarrow> c \<noteq> CHR ''.''" "isdigit c \<Longrightarrow> c \<noteq> CHR ''+''" "isdigit c \<Longrightarrow> c \<noteq> CHR ''-''"
  by (auto simp: isdigit_def)

section \<open>Lists\<close>

lemma takeWhile_neq_append:
  "x \<notin> set xs \<Longrightarrow> takeWhile (\<lambda>y. y \<noteq> x) (xs @ x # ys) = xs"
  by (induction xs) auto

lemma dropWhile_neq_append:
  "x \<notin> set xs \<Longrightarrow> dropWhile (\<lambda>y. y \<noteq> x) (xs @ x # ys) = x # ys"
  by (induction xs) auto

lemma takeWhile_all: "\<forall>x \<in> set xs. P x \<Longrightarrow> takeWhile P xs = xs"
  by (induction xs) auto

lemma dropWhile_all: "\<forall>x \<in> set xs. P x \<Longrightarrow> dropWhile P xs = []"
  by (induction xs) auto

lemma takeWhile_neq_all: "d \<notin> set s \<Longrightarrow> takeWhile (\<lambda>c. c \<noteq> d) s = s"
  by (rule takeWhile_all) auto

lemma dropWhile_neq_all: "d \<notin> set s \<Longrightarrow> dropWhile (\<lambda>c. c \<noteq> d) s = []"
  by (rule dropWhile_all) auto

lemma length_tl_dropWhile: "xs \<noteq> [] \<Longrightarrow> length (tl (dropWhile P xs)) < length xs"
proof -
  assume "xs \<noteq> []"
  then have "length (dropWhile P xs) - 1 < length xs"
    using length_dropWhile_le [of P xs] length_greater_0_conv [of xs] by linarith
  then show ?thesis by (simp only: length_tl)
qed

section \<open>\<open>std::to_string\<close> and \<open>std::stoi\<close>\<close>

fun nat_to_string :: "nat \<Rightarrow> string" where
  "nat_to_string n =
     (if n < 10 then [digit_char n] else nat_to_string (n div 10) @ [digit_char (n mod 10)])"

declare nat_to_string.simps [simp del]

definition to_string :: "int \<Rightarrow> string" where
  "to_string i = (if i < 0 then CHR ''-'' # nat_to_string (nat (- i)) else nat_to_string (nat i))"

definition digits_value :: "string \<Rightarrow> nat" where
  "digits_value s = foldl (\<lambda>n c. 10 * n + digit_val c) 0 s"

abbreviation (input) INT_MAX :: int where "INT_MAX \<equiv> 2147483647"
abbreviation (input) INT_MIN :: int where "INT_MIN \<equiv> - 2147483648"

text \<open>
  \<open>std::stoi\<close> reads what \<open>strtol\<close> in base 10 reads: white space, an optional sign and as many digits
  as there are; the rest of the string is ignored. With no digit it throws \<open>invalid_argument\<close>,
  outside the range of \<open>int\<close> it throws \<open>out_of_range\<close>.
\<close>

definition stoi :: "string \<Rightarrow> int result" where
  "stoi s =
     (let s1 = dropWhile isspace s;
          neg = (s1 \<noteq> [] \<and> hd s1 = CHR ''-'');
          s2 = (if s1 \<noteq> [] \<and> (hd s1 = CHR ''-'' \<or> hd s1 = CHR ''+'') then tl s1 else s1);
          ds = takeWhile isdigit s2;
          v = (if neg then - int (digits_value ds) else int (digits_value ds))
      in if ds = [] then Inl (Uncaught InvalidArgument)
         else if v < INT_MIN \<or> INT_MAX < v then Inl (Uncaught OutOfRange)
         else Inr v)"

lemma nat_to_string_digits: "\<forall>c \<in> set (nat_to_string n). isdigit c"
proof (induction n rule: nat_to_string.induct)
  case (1 n)
  then show ?case by (subst nat_to_string.simps) auto
qed

lemma nat_to_string_nonempty [simp]: "nat_to_string n \<noteq> []"
  by (subst nat_to_string.simps) simp

lemma digits_value_nat_to_string [simp]: "digits_value (nat_to_string n) = n"
proof (induction n rule: nat_to_string.induct)
  case (1 n)
  then show ?case
    by (subst nat_to_string.simps) (auto simp: digits_value_def)
qed

lemma nat_to_string_inject [simp]: "nat_to_string m = nat_to_string n \<longleftrightarrow> m = n"
  using digits_value_nat_to_string by metis

lemma stoi_digits:
  assumes "ds \<noteq> []" and "\<forall>c \<in> set ds. isdigit c"
  shows "stoi ds = (if int (digits_value ds) \<le> INT_MAX then Inr (int (digits_value ds))
                    else Inl (Uncaught OutOfRange))"
proof -
  obtain d ds' where ds: "ds = d # ds'" and d: "isdigit d"
    using assms by (cases ds) auto
  have "dropWhile isspace ds = ds" "hd ds \<noteq> CHR ''-''" "hd ds \<noteq> CHR ''+''"
    using d ds by (auto simp: isdigit_not_isspace isdigit_neq)
  then show ?thesis
    using assms by (simp add: stoi_def takeWhile_all)
qed

lemma stoi_nat_to_string:
  "int n \<le> INT_MAX \<Longrightarrow> stoi (nat_to_string n) = Inr (int n)"
  using stoi_digits [of "nat_to_string n"] nat_to_string_digits by simp

section \<open>\<open>std::getline\<close> with a delimiter\<close>

text \<open>
  Reading lines until the stream fails: the text up to each delimiter, and the rest when it is not
  empty. A delimiter that ends the text does not start an empty part.
\<close>

function split :: "string \<Rightarrow> char \<Rightarrow> string list" where
  "split s d =
     (if s = [] then []
      else takeWhile (\<lambda>c. c \<noteq> d) s #
           (case dropWhile (\<lambda>c. c \<noteq> d) s of [] \<Rightarrow> [] | _ # rest \<Rightarrow> split rest d))"
  by pat_completeness auto
termination
proof (relation "measure (\<lambda>(s, d). length s)", goal_cases)
  case 1
  then show ?case by simp
next
  case (2 s d c rest)
  then show ?case using length_dropWhile_le [of "\<lambda>c. c \<noteq> d" s] by simp
qed

declare split.simps [simp del]

lemma split_Nil [simp]: "split [] d = []"
  by (simp add: split.simps)

lemma split_last: "d \<notin> set s \<Longrightarrow> s \<noteq> [] \<Longrightarrow> split s d = [s]"
  by (subst split.simps) (simp add: takeWhile_neq_all dropWhile_neq_all)

lemma split_append: "d \<notin> set s \<Longrightarrow> split (s @ d # rest) d = s # split rest d"
  by (subst split.simps) (simp add: takeWhile_neq_append dropWhile_neq_append)

section \<open>Words of a stream, and substrings\<close>

text \<open>\<open>stream >> word\<close>: the word is empty when there is none.\<close>

definition next_word :: "string \<Rightarrow> string \<times> string" where
  "next_word s =
     (let s1 = dropWhile isspace s
      in (takeWhile (\<lambda>c. \<not> isspace c) s1, dropWhile (\<lambda>c. \<not> isspace c) s1))"

lemma next_word_eq:
  "w \<noteq> [] \<Longrightarrow> \<forall>c \<in> set w. \<not> isspace c \<Longrightarrow> next_word (w @ CHR '' '' # s) = (w, CHR '' '' # s)"
  "w \<noteq> [] \<Longrightarrow> \<forall>c \<in> set w. \<not> isspace c \<Longrightarrow> next_word w = (w, [])"
proof -
  have blank: "isspace CHR '' ''" by (simp add: isspace_def)
  show "next_word (w @ CHR '' '' # s) = (w, CHR '' '' # s)"
    if "w \<noteq> []" "\<forall>c \<in> set w. \<not> isspace c"
    using that blank
    by (cases w) (auto simp: next_word_def Let_def takeWhile_append dropWhile_append takeWhile_all dropWhile_all)
  show "next_word w = (w, [])" if "w \<noteq> []" "\<forall>c \<in> set w. \<not> isspace c"
    using that by (cases w) (auto simp: next_word_def Let_def takeWhile_all dropWhile_all)
qed

text \<open>\<open>s.find(pat) != npos\<close>.\<close>

fun contains :: "string \<Rightarrow> string \<Rightarrow> bool" where
  "contains pat [] = (pat = [])"
| "contains pat (c # s) = (take (length pat) (c # s) = pat \<or> contains pat s)"

lemma contains_iff: "contains pat s \<longleftrightarrow> (\<exists>a b. s = a @ pat @ b)"
proof (induction pat s rule: contains.induct)
  case (2 pat c s)
  have "take (length pat) (c # s) = pat \<longleftrightarrow> (\<exists>b. c # s = pat @ b)"
    by (metis append_eq_conv_conj append_take_drop_id)
  moreover have "(\<exists>a b. c # s = a @ pat @ b) \<longleftrightarrow> (\<exists>b. c # s = pat @ b) \<or> (\<exists>a b. s = a @ pat @ b)"
    by (metis append_Cons append_Nil list.inject list.exhaust)
  ultimately show ?case using 2 by simp
qed simp

section \<open>\<open>std::map\<close>\<close>

text \<open>
  A map is the list of its pairs in the order of the keys, which is the order in which
  \<open>std::map\<close> iterates (for \<open>std::unordered_map\<close> the order is unspecified, and this is one of the
  possible ones). \<open>m[k] = v\<close> is \<open>map_insert k v m\<close>, \<open>m.erase(k)\<close> is \<open>map_erase k m\<close> and
  \<open>m.find(k)\<close> is \<open>map_of m k\<close>.
\<close>

fun map_insert :: "'k::linorder \<Rightarrow> 'v \<Rightarrow> ('k \<times> 'v) list \<Rightarrow> ('k \<times> 'v) list" where
  "map_insert k v [] = [(k, v)]"
| "map_insert k v ((k', v') # m) =
     (if k < k' then (k, v) # (k', v') # m
      else if k = k' then (k, v) # m
      else (k', v') # map_insert k v m)"

definition map_erase :: "'k \<Rightarrow> ('k \<times> 'v) list \<Rightarrow> ('k \<times> 'v) list" where
  "map_erase k m = filter (\<lambda>e. fst e \<noteq> k) m"

definition map_wf :: "('k::linorder \<times> 'v) list \<Rightarrow> bool" where
  "map_wf m \<longleftrightarrow> sorted_wrt (<) (map fst m)"

text \<open>The interface: what a client of a map relies on.\<close>

locale finite_map =
  fixes lookup :: "'m \<Rightarrow> 'k \<Rightarrow> 'v option"
    and insert :: "'k \<Rightarrow> 'v \<Rightarrow> 'm \<Rightarrow> 'm"
    and erase :: "'k \<Rightarrow> 'm \<Rightarrow> 'm"
    and entries :: "'m \<Rightarrow> ('k \<times> 'v) list"
    and wf :: "'m \<Rightarrow> bool"
  assumes lookup_insert: "lookup (insert k v m) = (lookup m)(k \<mapsto> v)"
    and lookup_erase: "lookup (erase k m) = (lookup m)(k := None)"
    and lookup_entries: "wf m \<Longrightarrow> (k, v) \<in> set (entries m) \<longleftrightarrow> lookup m k = Some v"
    and distinct_keys: "wf m \<Longrightarrow> distinct (map fst (entries m))"
    and wf_insert: "wf m \<Longrightarrow> wf (insert k v m)"
    and wf_erase: "wf m \<Longrightarrow> wf (erase k m)"
begin

lemma mem_insert:
  "wf m \<Longrightarrow> e \<in> set (entries (insert k v m)) \<longleftrightarrow> e = (k, v) \<or> e \<in> set (entries m) \<and> fst e \<noteq> k"
  by (cases e) (auto simp: lookup_entries wf_insert lookup_insert)

lemma mem_erase:
  "wf m \<Longrightarrow> e \<in> set (entries (erase k m)) \<longleftrightarrow> e \<in> set (entries m) \<and> fst e \<noteq> k"
  by (cases e) (auto simp: lookup_entries wf_erase lookup_erase)

lemma insert_erased: "lookup (insert k v (erase k m)) = lookup (insert k v m)"
  by (simp add: lookup_insert lookup_erase)

lemma erase_insert_fresh: "lookup m k = None \<Longrightarrow> lookup (erase k (insert k v m)) = lookup m"
  by (auto simp: lookup_insert lookup_erase)

lemma unique_value:
  "wf m \<Longrightarrow> (k, v) \<in> set (entries m) \<Longrightarrow> (k, w) \<in> set (entries m) \<Longrightarrow> v = w"
  by (simp add: lookup_entries)

end

lemma map_of_insert: "map_of (map_insert k v m) = (map_of m)(k \<mapsto> v)"
  by (induction k v m rule: map_insert.induct) (auto simp: fun_eq_iff)

lemma map_of_erase: "map_of (map_erase k m) = (map_of m)(k := None)"
  by (induction m) (auto simp: map_erase_def fun_eq_iff)

lemma keys_insert: "set (map fst (map_insert k v m)) = insert k (set (map fst m))"
  by (induction k v m rule: map_insert.induct) auto

lemma map_wf_insert: "map_wf m \<Longrightarrow> map_wf (map_insert k v m)"
proof (induction k v m rule: map_insert.induct)
  case (1 k v)
  then show ?case by (simp add: map_wf_def)
next
  case (2 k v k' v' m)
  show ?case
  proof (cases "k' < k")
    case True
    have "set (map fst (map_insert k v m)) = insert k (set (map fst m))"
      by (rule keys_insert)
    with 2 True show ?thesis by (auto simp: map_wf_def)
  qed (use 2 in \<open>auto simp: map_wf_def\<close>)
qed

lemma map_wf_erase: "map_wf m \<Longrightarrow> map_wf (map_erase k m)"
  by (induction m) (auto simp: map_wf_def map_erase_def)

lemma map_wf_distinct: "map_wf m \<Longrightarrow> distinct (map fst m)"
  by (simp add: map_wf_def strict_sorted_iff)

lemma map_wf_Nil [simp]: "map_wf []"
  by (simp add: map_wf_def)

interpretation omap: finite_map map_of map_insert map_erase "\<lambda>m. m" map_wf
  by unfold_locales
    (simp_all add: map_of_insert map_of_erase map_wf_insert map_wf_erase map_wf_distinct)

lemma set_map_insert_fresh:
  assumes "map_wf m" and "map_of m k = None"
  shows "set (map_insert k v m) = insert (k, v) (set m)"
proof (rule set_eqI)
  fix e
  have "fst e \<noteq> k" if "e \<in> set m"
    using assms(2) that by (force simp: map_of_eq_None_iff)
  then show "e \<in> set (map_insert k v m) \<longleftrightarrow> e \<in> insert (k, v) (set m)"
    using omap.mem_insert [OF assms(1)] by blast
qed

lemma set_map_erase:
  assumes "map_wf m" and "map_of m k = Some v"
  shows "set (map_erase k m) = set m - {(k, v)}" and "(k, v) \<in> set m"
proof -
  show kv: "(k, v) \<in> set m" using assms(2) by (rule map_of_SomeD)
  have "fst e \<noteq> k \<longleftrightarrow> e \<noteq> (k, v)" if "e \<in> set m" for e
    using omap.unique_value [OF assms(1)] kv that by (cases e) auto
  then show "set (map_erase k m) = set m - {(k, v)}"
    using omap.mem_erase [OF assms(1)] by blast
qed

lemma map_insert_same: "map_wf m \<Longrightarrow> map_of m k = Some v \<Longrightarrow> map_insert k v m = m"
proof (induction k v m rule: map_insert.induct)
  case (2 k v k' v' m)
  have above: "k' < a" if "a \<in> fst ` set m" for a
    using "2.prems"(1) that by (auto simp: map_wf_def)
  have "\<not> k < k'"
  proof
    assume "k < k'"
    then have "map_of m k = Some v" using "2.prems"(2) by (auto split: if_splits)
    then have "k \<in> fst ` set m" by (force dest: map_of_SomeD)
    with above \<open>k < k'\<close> show False by (meson less_asym)
  qed
  moreover have "map_wf m" using "2.prems"(1) by (simp add: map_wf_def)
  ultimately show ?case
    using "2.IH" "2.prems"(2) by (auto split: if_splits)
qed simp

end
