(* ===== verification/Shell_Parse.thy ===== *)
theory Shell_Parse
  imports Prelude
begin

text \<open>
  The parser of the shell: \<open>splitBySpace\<close>, the tokens of numbered pipes and \<open>parseLine\<close> of
  \<open>projects/02-rwg-server/shell_core.h\<close>, the simpler number tokens of
  \<open>projects/01-npshell/shell_core.h\<close>, and \<open>parseCommands\<close> with its user pipe tokens, which
  \<open>np_single_proc.cpp\<close> and \<open>np_multi_proc.cpp\<close> share word for word.
  The lemmas characterise the commands a parse can produce and show that printing such commands
  and parsing the text gives them back.
\<close>

section \<open>Data\<close>

datatype NextType = NONE | ORDINARY_PIPE | NUMBER_PIPE_OUT | NUMBER_PIPE_BOTH

record Command =
  argv :: "string list"
  nextType :: NextType
  nextCount :: int
  redirectStdout :: bool
  redirectFile :: string

definition emptyCommand :: Command where
  "emptyCommand = \<lparr>argv = [], nextType = NONE, nextCount = 0, redirectStdout = False,
                   redirectFile = []\<rparr>"

record UserPipeRequest =
  inputFrom :: int
  outputTo :: int

definition emptyRequest :: UserPipeRequest where
  "emptyRequest = \<lparr>inputFrom = -1, outputTo = -1\<rparr>"

definition isNumberPipeType :: "NextType \<Rightarrow> bool" where
  "isNumberPipeType t \<longleftrightarrow> t = NUMBER_PIPE_OUT \<or> t = NUMBER_PIPE_BOTH"

section \<open>Tokens\<close>

function splitBySpace :: "string \<Rightarrow> string list" where
  "splitBySpace line =
     (let s = dropWhile isspace line
      in if s = [] then []
         else takeWhile (\<lambda>c. \<not> isspace c) s # splitBySpace (dropWhile (\<lambda>c. \<not> isspace c) s))"
  by pat_completeness auto
termination
proof (relation "measure length", goal_cases)
  case 1
  then show ?case by simp
next
  case (2 line s)
  then have "\<not> isspace (hd s)" and "s \<noteq> []"
    using hd_dropWhile [of isspace line] by simp_all
  then obtain c s' where s: "s = c # s'" and c: "\<not> isspace c"
    by (cases s) simp_all
  have "length (dropWhile (\<lambda>c. \<not> isspace c) s) < length s"
    using c length_dropWhile_le [of "\<lambda>c. \<not> isspace c" s'] by (simp add: s)
  also have "length s \<le> length line"
    using 2 length_dropWhile_le [of isspace line] by simp
  finally show ?case by simp
qed

declare splitBySpace.simps [simp del]

text \<open>The loop of \<open>isNumberPipeToken\<close>: \<open>lastWasPlus\<close> and the characters still to come.\<close>

fun numberToken_loop :: "bool \<Rightarrow> string \<Rightarrow> bool" where
  "numberToken_loop lastWasPlus [] = (\<not> lastWasPlus)"
| "numberToken_loop lastWasPlus (c # cs) =
     (if isdigit c then numberToken_loop False cs
      else if c = CHR ''+'' then (if lastWasPlus then False else numberToken_loop True cs)
      else False)"

definition isNumberPipeToken :: "string \<Rightarrow> char \<Rightarrow> bool" where
  "isNumberPipeToken token marker \<longleftrightarrow>
     \<not> (length token < 2 \<or> hd token \<noteq> marker) \<and> numberToken_loop True (tl token)"

text \<open>The sum is an \<open>int\<close>, so a total beyond its range is undefined behaviour.\<close>

definition add_int :: "int \<Rightarrow> int \<Rightarrow> int result" where
  "add_int a b = (if a + b < INT_MIN \<or> INT_MAX < a + b then Inl SignedOverflow else Inr (a + b))"

text \<open>The loop of \<open>parseNumberPipeCount\<close> on the text from \<open>termStart\<close> on.\<close>

function pipeCount_loop :: "int \<Rightarrow> string \<Rightarrow> int result" where
  "pipeCount_loop totalCount rest =
     (if rest = [] then Inr totalCount
      else bindR (stoi (takeWhile (\<lambda>c. c \<noteq> CHR ''+'') rest)) (\<lambda>v.
           bindR (add_int totalCount v) (\<lambda>total.
             if dropWhile (\<lambda>c. c \<noteq> CHR ''+'') rest = [] then Inr total
             else pipeCount_loop total (tl (dropWhile (\<lambda>c. c \<noteq> CHR ''+'') rest)))))"
  by pat_completeness auto
termination
  by (relation "measure (\<lambda>(total, rest). length rest)")
    (use length_tl_dropWhile in \<open>simp_all del: length_tl\<close>)

declare pipeCount_loop.simps [simp del]

definition parseNumberPipeCount :: "string \<Rightarrow> int result" where
  "parseNumberPipeCount token = pipeCount_loop 0 (tl token)"

text \<open>The tokens of the first project have digits only.\<close>

definition isNumberPipeToken1 :: "string \<Rightarrow> char \<Rightarrow> bool" where
  "isNumberPipeToken1 token marker \<longleftrightarrow>
     \<not> (length token < 2 \<or> hd token \<noteq> marker) \<and> (\<forall>c \<in> set (tl token). isdigit c)"

definition parseNumberPipeCount1 :: "string \<Rightarrow> int result" where
  "parseNumberPipeCount1 token = stoi (tl token)"

definition isDigitsOnly :: "string \<Rightarrow> nat \<Rightarrow> bool" where
  "isDigitsOnly value start \<longleftrightarrow>
     \<not> length value \<le> start \<and> (\<forall>c \<in> set (drop start value). isdigit c)"

definition isUserPipeToken :: "string \<Rightarrow> char \<Rightarrow> bool" where
  "isUserPipeToken token marker \<longleftrightarrow>
     1 < length token \<and> hd token = marker \<and> isDigitsOnly token 1"

section \<open>Lines\<close>

text \<open>
  The loop of \<open>parseLine\<close>, with the token test and the token value as arguments, because the first
  and the second project use different ones.
\<close>

fun parseLine_loop ::
  "(string \<Rightarrow> char \<Rightarrow> bool) \<Rightarrow> (string \<Rightarrow> int result) \<Rightarrow> Command \<Rightarrow> Command list \<Rightarrow>
   string list \<Rightarrow> Command list result" where
  "parseLine_loop isTok count current commands [] =
     Inr (if argv current \<noteq> [] then commands @ [current] else commands)"
| "parseLine_loop isTok count current commands (token # tokens) =
     (if token = ''|'' then
        parseLine_loop isTok count emptyCommand
          (commands @ [current\<lparr>nextType := ORDINARY_PIPE\<rparr>]) tokens
      else if isTok token CHR ''|'' then
        bindR (count token) (\<lambda>n. parseLine_loop isTok count emptyCommand
          (commands @ [current\<lparr>nextType := NUMBER_PIPE_OUT, nextCount := n\<rparr>]) tokens)
      else if isTok token CHR ''!'' then
        bindR (count token) (\<lambda>n. parseLine_loop isTok count emptyCommand
          (commands @ [current\<lparr>nextType := NUMBER_PIPE_BOTH, nextCount := n\<rparr>]) tokens)
      else if token = ''>'' then
        (case tokens of
           [] \<Rightarrow> parseLine_loop isTok count current commands []
         | target # tokens' \<Rightarrow> parseLine_loop isTok count
             (current\<lparr>redirectStdout := True, redirectFile := target\<rparr>) commands tokens')
      else parseLine_loop isTok count (current\<lparr>argv := argv current @ [token]\<rparr>) commands tokens)"

definition parseLine :: "string \<Rightarrow> Command list result" where
  "parseLine line =
     (let tokens = splitBySpace line
      in if tokens = [] then Inr []
         else parseLine_loop isNumberPipeToken parseNumberPipeCount emptyCommand [] tokens)"

definition parseLine1 :: "string \<Rightarrow> Command list result" where
  "parseLine1 line =
     (let tokens = splitBySpace line
      in if tokens = [] then Inr []
         else parseLine_loop isNumberPipeToken1 parseNumberPipeCount1 emptyCommand [] tokens)"

text \<open>
  \<open>parseCommands\<close> also reads \<open><N\<close> and \<open>>N\<close>, which are no part of a command but of the line. The
  later of two such tokens wins.
\<close>

fun parseCommands_loop ::
  "Command \<Rightarrow> Command list \<Rightarrow> UserPipeRequest \<Rightarrow> string list \<Rightarrow>
   (Command list \<times> UserPipeRequest) result" where
  "parseCommands_loop current commands req [] =
     Inr (if argv current \<noteq> [] then commands @ [current] else commands, req)"
| "parseCommands_loop current commands req (token # tokens) =
     (if token = ''|'' then
        parseCommands_loop emptyCommand (commands @ [current\<lparr>nextType := ORDINARY_PIPE\<rparr>]) req tokens
      else if isNumberPipeToken token CHR ''|'' then
        bindR (parseNumberPipeCount token) (\<lambda>n. parseCommands_loop emptyCommand
          (commands @ [current\<lparr>nextType := NUMBER_PIPE_OUT, nextCount := n\<rparr>]) req tokens)
      else if isNumberPipeToken token CHR ''!'' then
        bindR (parseNumberPipeCount token) (\<lambda>n. parseCommands_loop emptyCommand
          (commands @ [current\<lparr>nextType := NUMBER_PIPE_BOTH, nextCount := n\<rparr>]) req tokens)
      else if token = ''>'' then
        (case tokens of
           [] \<Rightarrow> parseCommands_loop current commands req []
         | target # tokens' \<Rightarrow> parseCommands_loop
             (current\<lparr>redirectStdout := True, redirectFile := target\<rparr>) commands req tokens')
      else if isUserPipeToken token CHR ''<'' then
        bindR (stoi (tl token)) (\<lambda>n.
          parseCommands_loop current commands (req\<lparr>inputFrom := n\<rparr>) tokens)
      else if isUserPipeToken token CHR ''>'' then
        bindR (stoi (tl token)) (\<lambda>n.
          parseCommands_loop current commands (req\<lparr>outputTo := n\<rparr>) tokens)
      else parseCommands_loop (current\<lparr>argv := argv current @ [token]\<rparr>) commands req tokens)"

definition parseCommands :: "string \<Rightarrow> (Command list \<times> UserPipeRequest) result" where
  "parseCommands line = parseCommands_loop emptyCommand [] emptyRequest (splitBySpace line)"

section \<open>Splitting into tokens\<close>

definition good_token :: "string \<Rightarrow> bool" where
  "good_token t \<longleftrightarrow> t \<noteq> [] \<and> (\<forall>c \<in> set t. \<not> isspace c)"

fun join :: "string list \<Rightarrow> string" where
  "join [] = []"
| "join [t] = t"
| "join (t # u # ts) = t @ CHR '' '' # join (u # ts)"

lemma isspace_blank [simp]: "isspace CHR '' ''"
  by (simp add: isspace_def)

lemma splitBySpace_Nil [simp]: "splitBySpace [] = []"
  by (simp add: splitBySpace.simps)

lemma splitBySpace_space: "isspace c \<Longrightarrow> splitBySpace (c # s) = splitBySpace s"
  by (subst (1 2) splitBySpace.simps) simp

lemma splitBySpace_token:
  assumes "good_token t"
  shows "splitBySpace (t @ CHR '' '' # s) = t # splitBySpace s" and "splitBySpace t = [t]"
proof -
  obtain c t' where t: "t = c # t'" and c: "\<not> isspace c"
    using assms by (cases t) (auto simp: good_token_def)
  have all: "\<forall>c \<in> set t. \<not> isspace c" using assms by (simp add: good_token_def)
  have "splitBySpace (t @ CHR '' '' # s) = t # splitBySpace (CHR '' '' # s)"
    using all by (subst splitBySpace.simps) (simp add: t c Let_def takeWhile_append dropWhile_append takeWhile_all dropWhile_all)
  then show "splitBySpace (t @ CHR '' '' # s) = t # splitBySpace s"
    by (simp add: splitBySpace_space)
  show "splitBySpace t = [t]"
    using all by (subst splitBySpace.simps) (simp add: t c Let_def takeWhile_all dropWhile_all)
qed

lemma splitBySpace_join: "\<forall>t \<in> set ts. good_token t \<Longrightarrow> splitBySpace (join ts) = ts"
  by (induction ts rule: join.induct) (simp_all add: splitBySpace_token)

lemma splitBySpace_step:
  assumes "dropWhile isspace line \<noteq> []"
  shows "splitBySpace line =
    takeWhile (\<lambda>c. \<not> isspace c) (dropWhile isspace line) #
    splitBySpace (dropWhile (\<lambda>c. \<not> isspace c) (dropWhile isspace line))"
  by (subst splitBySpace.simps) (simp only: Let_def assms if_False)

lemma splitBySpace_good: "t \<in> set (splitBySpace line) \<Longrightarrow> good_token t"
proof (induction line rule: splitBySpace.induct)
  case (1 line)
  let ?s = "dropWhile isspace line"
  show ?case
  proof (cases "?s = []")
    case True
    with "1.prems" show ?thesis by (subst (asm) splitBySpace.simps) simp
  next
    case False
    then have "\<not> isspace (hd ?s)" by (rule hd_dropWhile)
    with False have "good_token (takeWhile (\<lambda>c. \<not> isspace c) ?s)"
      by (cases ?s) (auto simp: good_token_def dest: set_takeWhileD)
    moreover have "t = takeWhile (\<lambda>c. \<not> isspace c) ?s \<or>
        t \<in> set (splitBySpace (dropWhile (\<lambda>c. \<not> isspace c) ?s))"
      using "1.prems" by (simp add: splitBySpace_step [OF False] del: dropWhile_eq_Nil_conv)
    ultimately show ?thesis using "1.IH" [OF refl False] by auto
  qed
qed

section \<open>The value of a numbered pipe\<close>

abbreviation PLUS :: char where "PLUS \<equiv> CHR ''+''"

lemma isdigit_plus [simp]: "\<not> isdigit PLUS"
  by (simp add: isdigit_def)

lemma numberToken_term_digits:
  "numberToken_loop b s \<Longrightarrow> \<forall>c \<in> set (takeWhile (\<lambda>c. c \<noteq> PLUS) s). isdigit c"
  by (induction b s rule: numberToken_loop.induct) (auto split: if_splits)

lemma numberToken_term_nonempty:
  "numberToken_loop True s \<Longrightarrow> takeWhile (\<lambda>c. c \<noteq> PLUS) s \<noteq> []"
  by (cases s; cases "hd s = PLUS") simp_all

lemma numberToken_rest:
  "numberToken_loop b s \<Longrightarrow> dropWhile (\<lambda>c. c \<noteq> PLUS) s = PLUS # r \<Longrightarrow> numberToken_loop True r"
  by (induction b s rule: numberToken_loop.induct) (auto split: if_splits)

lemma dropWhile_neq_cases:
  obtains "dropWhile (\<lambda>c. c \<noteq> d) s = []" | r where "dropWhile (\<lambda>c. c \<noteq> d) s = d # r"
  by (metis (lifting) hd_dropWhile list.exhaust_sel)

definition pipe_terms :: "string \<Rightarrow> int list" where
  "pipe_terms s = map (\<lambda>t. int (digits_value t)) (split s PLUS)"

lemma pipe_terms_nonneg: "0 \<le> sum_list (pipe_terms s)"
  by (rule sum_list_nonneg) (auto simp: pipe_terms_def)

lemma pipe_terms_last:
  "s \<noteq> [] \<Longrightarrow> dropWhile (\<lambda>c. c \<noteq> PLUS) s = [] \<Longrightarrow>
     pipe_terms s = [int (digits_value (takeWhile (\<lambda>c. c \<noteq> PLUS) s))]"
  unfolding pipe_terms_def by (subst split.simps) (simp del: dropWhile_eq_Nil_conv)

lemma pipe_terms_more:
  "s \<noteq> [] \<Longrightarrow> dropWhile (\<lambda>c. c \<noteq> PLUS) s = PLUS # r \<Longrightarrow>
     pipe_terms s = int (digits_value (takeWhile (\<lambda>c. c \<noteq> PLUS) s)) # pipe_terms r"
  unfolding pipe_terms_def by (subst split.simps) simp

lemma pipeCount_loop_sum:
  assumes "numberToken_loop True rest" and "0 \<le> acc" and "acc \<le> INT_MAX"
  shows "pipeCount_loop acc rest = Inr n \<longleftrightarrow>
           n = acc + sum_list (pipe_terms rest) \<and> n \<le> INT_MAX"
  using assms
proof (induction acc rest rule: pipeCount_loop.induct)
  case (1 acc rest)
  let ?t = "takeWhile (\<lambda>c. c \<noteq> PLUS) rest" and ?r = "dropWhile (\<lambda>c. c \<noteq> PLUS) rest"
  have ne: "rest \<noteq> []" using "1.prems"(1) by auto
  define v where "v = int (digits_value ?t)"
  have v: "0 \<le> v" by (simp add: v_def)
  have stoi: "stoi ?t = (if v \<le> INT_MAX then Inr v else Inl (Uncaught OutOfRange))"
    unfolding v_def using numberToken_term_digits numberToken_term_nonempty "1.prems"(1)
    by (intro stoi_digits) blast+
  have add: "add_int acc v = (if acc + v \<le> INT_MAX then Inr (acc + v) else Inl SignedOverflow)"
    using "1.prems"(2) v by (simp add: add_int_def)
  show ?case
  proof (cases "v \<le> INT_MAX \<and> acc + v \<le> INT_MAX")
    case False
    then have "pipeCount_loop acc rest \<noteq> Inr n"
      by (subst pipeCount_loop.simps) (auto simp: ne stoi add)
    moreover have "v \<le> sum_list (pipe_terms rest)"
      by (rule dropWhile_neq_cases [of PLUS rest])
        (simp_all add: ne pipe_terms_last pipe_terms_more v_def pipe_terms_nonneg
          del: dropWhile_eq_Nil_conv)
    ultimately show ?thesis using False "1.prems"(2) by auto
  next
    case True
    then have ok: "stoi ?t = Inr v" "add_int acc v = Inr (acc + v)"
      by (simp_all add: stoi add)
    show ?thesis
    proof (rule dropWhile_neq_cases [of PLUS rest])
      assume last: "?r = []"
      then have "pipeCount_loop acc rest = Inr (acc + v)"
        by (subst pipeCount_loop.simps) (simp add: ne ok)
      then show ?thesis using True last by (auto simp: pipe_terms_last ne v_def)
    next
      fix r assume more: "?r = PLUS # r"
      then have step: "pipeCount_loop acc rest = pipeCount_loop (acc + v) r"
        by (subst pipeCount_loop.simps) (simp add: ne ok)
      have "pipeCount_loop (acc + v) (tl ?r) = Inr n \<longleftrightarrow>
          n = acc + v + sum_list (pipe_terms (tl ?r)) \<and> n \<le> INT_MAX"
        using "1.prems" v True more numberToken_rest [OF "1.prems"(1) more]
        by (intro "1.IH" [OF ne ok]) simp_all
      then show ?thesis by (simp add: step more pipe_terms_more ne v_def add.assoc)
    qed
  qed
qed

lemma parseNumberPipeCount_sum:
  "isNumberPipeToken token marker \<Longrightarrow>
     parseNumberPipeCount token = Inr n \<longleftrightarrow>
       n = sum_list (pipe_terms (tl token)) \<and> n \<le> INT_MAX"
  using pipeCount_loop_sum [of "tl token" 0 n]
  by (simp add: isNumberPipeToken_def parseNumberPipeCount_def)

lemma parseNumberPipeCount_bounds:
  "isNumberPipeToken token marker \<Longrightarrow> parseNumberPipeCount token = Inr n \<Longrightarrow>
     0 \<le> n \<and> n \<le> INT_MAX"
  using parseNumberPipeCount_sum pipe_terms_nonneg by auto

section \<open>What a parse can produce\<close>

text \<open>
  The commands of a parsed line, for the token test and token value of either project: a word of a
  command is none of the tokens the parser acts on, only a redirection has a file name, a count
  stands with a numbered pipe only and is an \<open>int\<close> that is not negative. Every command but the last
  ends in a pipe, and a last command that does not has at least one word.
\<close>

definition plain_token :: "(string \<Rightarrow> char \<Rightarrow> bool) \<Rightarrow> string \<Rightarrow> bool" where
  "plain_token isTok t \<longleftrightarrow> good_token t \<and> t \<noteq> ''|'' \<and> t \<noteq> ''>'' \<and>
     \<not> isTok t CHR ''|'' \<and> \<not> isTok t CHR ''!''"

definition wf_command :: "(string \<Rightarrow> char \<Rightarrow> bool) \<Rightarrow> Command \<Rightarrow> bool" where
  "wf_command isTok c \<longleftrightarrow>
     (\<forall>t \<in> set (argv c). plain_token isTok t) \<and>
     (if redirectStdout c then good_token (redirectFile c) else redirectFile c = []) \<and>
     (if isNumberPipeType (nextType c) then 0 \<le> nextCount c \<and> nextCount c \<le> INT_MAX
      else nextCount c = 0)"

definition wf_line :: "(string \<Rightarrow> char \<Rightarrow> bool) \<Rightarrow> Command list \<Rightarrow> bool" where
  "wf_line isTok cs \<longleftrightarrow> (\<forall>c \<in> set cs. wf_command isTok c) \<and>
     (\<forall>c \<in> set (butlast cs). nextType c \<noteq> NONE) \<and>
     (cs \<noteq> [] \<longrightarrow> nextType (last cs) = NONE \<longrightarrow> argv (last cs) \<noteq> [])"

definition counts_bounded :: "(string \<Rightarrow> char \<Rightarrow> bool) \<Rightarrow> (string \<Rightarrow> int result) \<Rightarrow> bool" where
  "counts_bounded isTok count \<longleftrightarrow>
     (\<forall>t m n. isTok t m \<longrightarrow> count t = Inr n \<longrightarrow> 0 \<le> n \<and> n \<le> INT_MAX)"

lemma emptyCommand_simps [simp]:
  "argv emptyCommand = []" "nextType emptyCommand = NONE" "nextCount emptyCommand = 0"
  "redirectStdout emptyCommand = False" "redirectFile emptyCommand = []"
  by (simp_all add: emptyCommand_def)

lemma wf_emptyCommand [simp]: "wf_command isTok emptyCommand"
  by (simp add: wf_command_def isNumberPipeType_def)

lemma parseLine_loop_wf:
  assumes "counts_bounded isTok count"
    and "\<forall>t \<in> set ts. good_token t"
    and "\<forall>c \<in> set cs. wf_command isTok c \<and> nextType c \<noteq> NONE"
    and "wf_command isTok cur" and "nextType cur = NONE"
    and "parseLine_loop isTok count cur cs ts = Inr cs'"
  shows "wf_line isTok cs'"
  using assms
proof (induction isTok count cur cs ts rule: parseLine_loop.induct)
  case (1 isTok count cur cs)
  then show ?case by (auto simp: wf_line_def dest: in_set_butlastD split: if_splits)
next
  case (2 isTok count cur cs t ts)
  have num: "0 \<le> n \<and> n \<le> INT_MAX" if "isTok t m" "count t = Inr n" for m n
    using "2.prems"(1) that by (auto simp: counts_bounded_def)
  consider "t = ''|''" | "t \<noteq> ''|''" "isTok t CHR ''|''"
    | "t \<noteq> ''|''" "\<not> isTok t CHR ''|''" "isTok t CHR ''!''"
    | "t \<noteq> ''|''" "\<not> isTok t CHR ''|''" "\<not> isTok t CHR ''!''" "t = ''>''" "ts = []"
    | f ts' where "t \<noteq> ''|''" "\<not> isTok t CHR ''|''" "\<not> isTok t CHR ''!''" "t = ''>''" "ts = f # ts'"
    | "plain_token isTok t"
    using "2.prems"(2) by (cases ts) (auto simp: plain_token_def)
  then show ?case
  proof cases
    case 1
    with "2.prems" show ?thesis
      by (intro "2.IH"(1)) (auto simp: wf_command_def isNumberPipeType_def)
  next
    case 2
    then obtain n where n: "count t = Inr n" using "2.prems"(6) by auto
    with 2 "2.prems" num [OF 2(2) n] show ?thesis
      by (intro "2.IH"(2) [OF 2 n]) (auto simp: wf_command_def isNumberPipeType_def)
  next
    case 3
    then obtain n where n: "count t = Inr n" using "2.prems"(6) by auto
    with 3 "2.prems" num [OF 3(3) n] show ?thesis
      by (intro "2.IH"(3) [OF 3 n]) (auto simp: wf_command_def isNumberPipeType_def)
  next
    case 4
    with "2.prems" show ?thesis by (intro "2.IH"(4)) auto
  next
    case 5
    with "2.prems" show ?thesis
      by (intro "2.IH"(5) [OF 5]) (auto simp: wf_command_def isNumberPipeType_def)
  next
    case 6
    with "2.prems" show ?thesis
      by (intro "2.IH"(6)) (auto simp: wf_command_def plain_token_def isNumberPipeType_def)
  qed
qed

section \<open>Printing and parsing again\<close>

definition redirect_tokens :: "Command \<Rightarrow> string list" where
  "redirect_tokens c = (if redirectStdout c then [''>'', redirectFile c] else [])"

definition marker_tokens :: "Command \<Rightarrow> string list" where
  "marker_tokens c =
     (case nextType c of
        NONE \<Rightarrow> []
      | ORDINARY_PIPE \<Rightarrow> [''|'']
      | NUMBER_PIPE_OUT \<Rightarrow> [CHR ''|'' # to_string (nextCount c)]
      | NUMBER_PIPE_BOTH \<Rightarrow> [CHR ''!'' # to_string (nextCount c)])"

definition command_tokens :: "Command \<Rightarrow> string list" where
  "command_tokens c = argv c @ redirect_tokens c @ marker_tokens c"

text \<open>The command before its marker is read.\<close>

definition command_body :: "Command \<Rightarrow> Command" where
  "command_body c = c\<lparr>nextType := NONE, nextCount := 0\<rparr>"

definition unparse :: "Command list \<Rightarrow> string" where
  "unparse cs = join (concat (map command_tokens cs))"

text \<open>
  The interface between the parser and its number tokens: the value of a token is an \<open>int\<close> that is
  not negative, a token starts with its marker, and every such number has a token.
\<close>

locale number_tokens =
  fixes isTok :: "string \<Rightarrow> char \<Rightarrow> bool" and count :: "string \<Rightarrow> int result"
  assumes count_bounds: "isTok t m \<Longrightarrow> count t = Inr n \<Longrightarrow> 0 \<le> n \<and> n \<le> INT_MAX"
    and token_marker: "isTok t m \<Longrightarrow> t \<noteq> [] \<and> hd t = m \<and> tl t \<noteq> []"
    and number_token: "isTok (m # nat_to_string k) m"
    and count_token: "int k \<le> INT_MAX \<Longrightarrow> count (m # nat_to_string k) = Inr (int k)"
begin

lemma wf_parse:
  "\<forall>t \<in> set ts. good_token t \<Longrightarrow>
     parseLine_loop isTok count emptyCommand [] ts = Inr cs \<Longrightarrow> wf_line isTok cs"
  by (rule parseLine_loop_wf) (use count_bounds in \<open>auto simp: counts_bounded_def\<close>)

lemma not_token:
  "\<not> isTok ''>'' m" "\<not> isTok ''|'' m" "m' \<noteq> m \<Longrightarrow> \<not> isTok (m # s) m'"
  using token_marker by fastforce+

lemma parse_words:
  "\<forall>t \<in> set ws. plain_token isTok t \<Longrightarrow>
     parseLine_loop isTok count cur cs (ws @ ts) =
     parseLine_loop isTok count (cur\<lparr>argv := argv cur @ ws\<rparr>) cs ts"
  by (induction ws arbitrary: cur) (auto simp: plain_token_def)

lemma parse_redirect:
  "parseLine_loop isTok count cur cs (''>'' # f # ts) =
     parseLine_loop isTok count (cur\<lparr>redirectStdout := True, redirectFile := f\<rparr>) cs ts"
  by (simp add: not_token)

lemma parse_number:
  assumes "0 \<le> n" and "n \<le> INT_MAX"
  shows "parseLine_loop isTok count cur cs ((CHR ''|'' # to_string n) # ts) =
           parseLine_loop isTok count emptyCommand
             (cs @ [cur\<lparr>nextType := NUMBER_PIPE_OUT, nextCount := n\<rparr>]) ts"
    and "parseLine_loop isTok count cur cs ((CHR ''!'' # to_string n) # ts) =
           parseLine_loop isTok count emptyCommand
             (cs @ [cur\<lparr>nextType := NUMBER_PIPE_BOTH, nextCount := n\<rparr>]) ts"
proof -
  have "count (m # nat_to_string (nat n)) = Inr n" for m
    using count_token [of "nat n" m] assms by simp
  then show "parseLine_loop isTok count cur cs ((CHR ''|'' # to_string n) # ts) =
      parseLine_loop isTok count emptyCommand
        (cs @ [cur\<lparr>nextType := NUMBER_PIPE_OUT, nextCount := n\<rparr>]) ts"
    and "parseLine_loop isTok count cur cs ((CHR ''!'' # to_string n) # ts) =
      parseLine_loop isTok count emptyCommand
        (cs @ [cur\<lparr>nextType := NUMBER_PIPE_BOTH, nextCount := n\<rparr>]) ts"
    using assms by (simp_all add: to_string_def number_token not_token)
qed

lemma parse_body:
  assumes "wf_command isTok c"
  shows "parseLine_loop isTok count emptyCommand cs (argv c @ redirect_tokens c @ ts) =
           parseLine_loop isTok count (command_body c) cs ts"
proof -
  have "parseLine_loop isTok count emptyCommand cs (argv c @ redirect_tokens c @ ts) =
      parseLine_loop isTok count (emptyCommand\<lparr>argv := argv c\<rparr>) cs (redirect_tokens c @ ts)"
    using assms by (simp add: wf_command_def parse_words del: parseLine_loop.simps)
  also have "\<dots> = parseLine_loop isTok count (command_body c) cs ts"
    using assms
    by (cases c) (simp add: redirect_tokens_def parse_redirect command_body_def emptyCommand_def
        wf_command_def split: if_splits del: parseLine_loop.simps)
  finally show ?thesis .
qed

lemma parse_command:
  assumes "wf_command isTok c" and "nextType c \<noteq> NONE"
  shows "parseLine_loop isTok count emptyCommand cs (command_tokens c @ ts) =
           parseLine_loop isTok count emptyCommand (cs @ [c]) ts"
proof -
  have "parseLine_loop isTok count (command_body c) cs (marker_tokens c @ ts) =
      parseLine_loop isTok count emptyCommand (cs @ [c]) ts"
    using assms
    by (cases c; cases "nextType c")
      (simp_all add: marker_tokens_def parse_number isNumberPipeType_def command_body_def
        wf_command_def del: parseLine_loop.simps(2), simp)
  then show ?thesis using parse_body [OF assms(1)] by (simp add: command_tokens_def)
qed

lemma parse_last:
  assumes "wf_command isTok c" and "nextType c = NONE" and "argv c \<noteq> []"
  shows "parseLine_loop isTok count emptyCommand cs (command_tokens c) = Inr (cs @ [c])"
proof -
  have "command_body c = c"
    using assms by (simp add: command_body_def wf_command_def isNumberPipeType_def)
  then show ?thesis
    using assms parse_body [OF assms(1), of cs "[]"]
    by (simp add: command_tokens_def marker_tokens_def command_body_def)
qed

lemma parse_line:
  "wf_line isTok ds \<Longrightarrow>
     parseLine_loop isTok count emptyCommand cs (concat (map command_tokens ds)) = Inr (cs @ ds)"
proof (induction ds arbitrary: cs)
  case (Cons d ds)
  show ?case
  proof (cases "nextType d = NONE")
    case True
    with Cons.prems have "ds = []" by (auto simp: wf_line_def split: if_splits)
    with True Cons.prems show ?thesis by (simp add: wf_line_def parse_last)
  next
    case False
    from Cons.prems have "wf_line isTok ds" by (auto simp: wf_line_def split: if_splits)
    with False Cons show ?thesis by (simp add: wf_line_def parse_command)
  qed
qed simp

lemma good_number_token:
  assumes "m = CHR ''|'' \<or> m = CHR ''!''"
  shows "good_token (m # nat_to_string k)"
proof -
  have "\<forall>c \<in> set (nat_to_string k). \<not> isspace c"
    using nat_to_string_digits isdigit_not_isspace by blast
  moreover have "\<not> isspace m" using assms by (auto simp: isspace_def)
  ultimately show ?thesis by (simp add: good_token_def)
qed

lemma marker_tokens_good:
  assumes "wf_command isTok c" and "t \<in> set (marker_tokens c)"
  shows "good_token t"
  using assms good_number_token
  by (cases "nextType c")
    (simp_all add: marker_tokens_def wf_command_def isNumberPipeType_def to_string_def
      good_token_def [of "''|''"] isspace_def)

lemma command_tokens_good: "wf_command isTok c \<Longrightarrow> t \<in> set (command_tokens c) \<Longrightarrow> good_token t"
proof -
  assume c: "wf_command isTok c" and "t \<in> set (command_tokens c)"
  then consider "t \<in> set (argv c)" | "t \<in> set (redirect_tokens c)" | "t \<in> set (marker_tokens c)"
    by (auto simp: command_tokens_def)
  then show "good_token t"
  proof cases
    case 2
    have "good_token ''>''" by (simp add: good_token_def isspace_def)
    with 2 c show ?thesis by (auto simp: redirect_tokens_def wf_command_def split: if_splits)
  next
    case 1
    with c show ?thesis by (auto simp: wf_command_def plain_token_def)
  next
    case 3
    with c show ?thesis by (rule marker_tokens_good)
  qed
qed

lemma parse_unparse:
  "wf_line isTok ds \<Longrightarrow>
     parseLine_loop isTok count emptyCommand [] (splitBySpace (unparse ds)) = Inr ds"
  using parse_line [of ds "[]"] command_tokens_good
  by (subst unparse_def, subst splitBySpace_join) (auto simp: wf_line_def)

end

lemma isNumberPipeToken1D:
  assumes "isNumberPipeToken1 t m"
  obtains ds where "t = m # ds" and "ds \<noteq> []" and "\<forall>c \<in> set ds. isdigit c"
  using assms by (cases t) (auto simp: isNumberPipeToken1_def)

lemma numberToken_digits:
  "\<forall>c \<in> set ds. isdigit c \<Longrightarrow> numberToken_loop b ds \<longleftrightarrow> ds \<noteq> [] \<or> \<not> b"
  by (induction b ds rule: numberToken_loop.induct) auto

lemma pipeCount_digits:
  assumes "ds \<noteq> []" and digits: "\<forall>c \<in> set ds. isdigit c"
  shows "pipeCount_loop 0 ds = stoi ds"
proof -
  have plus: "PLUS \<notin> set ds" using digits by auto
  have "takeWhile (\<lambda>c. c \<noteq> PLUS) ds = ds" "dropWhile (\<lambda>c. c \<noteq> PLUS) ds = []"
    using takeWhile_neq_all [OF plus] dropWhile_neq_all [OF plus] by simp_all
  then show ?thesis
    using assms by (subst pipeCount_loop.simps) (simp add: stoi_digits add_int_def
        del: dropWhile_eq_Nil_conv takeWhile_eq_all_conv)
qed

lemma number_token_digits:
  "isNumberPipeToken1 t m \<Longrightarrow> isNumberPipeToken t m \<and> parseNumberPipeCount t = parseNumberPipeCount1 t"
  by (erule isNumberPipeToken1D)
    (auto simp: isNumberPipeToken_def parseNumberPipeCount_def parseNumberPipeCount1_def
      numberToken_digits pipeCount_digits Suc_le_eq)

lemma number_token1: "isNumberPipeToken1 (m # nat_to_string k) m"
  using nat_to_string_digits nat_to_string_nonempty [of k]
  by (auto simp: isNumberPipeToken1_def Suc_le_eq simp del: nat_to_string_nonempty)

interpretation digits: number_tokens isNumberPipeToken1 parseNumberPipeCount1
proof unfold_locales
  show "0 \<le> n \<and> n \<le> INT_MAX" if "isNumberPipeToken1 t m" "parseNumberPipeCount1 t = Inr n" for t m n
    using that by (auto simp: parseNumberPipeCount1_def stoi_digits elim!: isNumberPipeToken1D
        split: if_splits)
  show "t \<noteq> [] \<and> hd t = m \<and> tl t \<noteq> []" if "isNumberPipeToken1 t m" for t m
    using that by (auto elim!: isNumberPipeToken1D)
qed (simp_all add: number_token1 parseNumberPipeCount1_def stoi_nat_to_string)

interpretation plus: number_tokens isNumberPipeToken parseNumberPipeCount
proof unfold_locales
  show "0 \<le> n \<and> n \<le> INT_MAX" if "isNumberPipeToken t m" "parseNumberPipeCount t = Inr n" for t m n
    using parseNumberPipeCount_bounds that .
  show "t \<noteq> [] \<and> hd t = m \<and> tl t \<noteq> []" if "isNumberPipeToken t m" for t m
    using that by (cases t; cases "tl t") (auto simp: isNumberPipeToken_def)
  show "isNumberPipeToken (m # nat_to_string k) m" for m k
    using number_token_digits number_token1 by blast
  show "parseNumberPipeCount (m # nat_to_string k) = Inr (int k)" if "int k \<le> INT_MAX" for m k
    using that number_token_digits [OF number_token1] digits.count_token by simp
qed

section \<open>The parsers of the projects compared\<close>

lemma parseLine_loop_cong:
  assumes "\<forall>t \<in> set ts. \<forall>m \<in> {CHR ''|'', CHR ''!''}. isTok t m = isTok' t m"
    and "\<forall>t \<in> set ts. \<forall>m \<in> {CHR ''|'', CHR ''!''}. isTok t m \<longrightarrow> count t = count' t"
  shows "parseLine_loop isTok count cur cs ts = parseLine_loop isTok' count' cur cs ts"
  using assms
  by (induction isTok count cur cs ts rule: parseLine_loop.induct)
    (auto split: list.split intro!: bindR_cong)

lemma parseLine_parseLine1:
  assumes "\<forall>t \<in> set (splitBySpace line). PLUS \<notin> set t"
  shows "parseLine line = parseLine1 line"
proof -
  have "isNumberPipeToken t m = isNumberPipeToken1 t m" if "PLUS \<notin> set t" for t m
  proof -
    have "\<forall>c \<in> set s. isdigit c" if "numberToken_loop b s" "PLUS \<notin> set s" for b s
      using that by (induction b s rule: numberToken_loop.induct) (auto split: if_splits)
    from this [of True "tl t"] that have "isNumberPipeToken t m \<Longrightarrow> isNumberPipeToken1 t m"
      by (cases t) (auto simp: isNumberPipeToken_def isNumberPipeToken1_def)
    then show ?thesis using number_token_digits by blast
  qed
  with assms have "parseLine_loop isNumberPipeToken parseNumberPipeCount emptyCommand [] (splitBySpace line)
      = parseLine_loop isNumberPipeToken1 parseNumberPipeCount1 emptyCommand [] (splitBySpace line)"
    by (intro parseLine_loop_cong) (auto simp: number_token_digits)
  then show ?thesis by (simp add: parseLine_def parseLine1_def Let_def)
qed

lemma parseCommands_loop_parseLine_loop:
  assumes "\<forall>t \<in> set ts. \<not> isUserPipeToken t CHR ''<'' \<and> \<not> isUserPipeToken t CHR ''>''"
  shows "parseCommands_loop cur cs req ts =
     bindR (parseLine_loop isNumberPipeToken parseNumberPipeCount cur cs ts) (\<lambda>cs'. Inr (cs', req))"
  using assms
proof (induction cur cs req ts rule: parseCommands_loop.induct)
  case (2 cur cs req t ts)
  then show ?case
    by (cases "parseNumberPipeCount t") (auto split: list.split)
qed simp

text \<open>A parse fails only on a number: it is no \<open>int\<close>, or the sum of its terms is none.\<close>

definition number_failure :: "failure \<Rightarrow> bool" where
  "number_failure e \<longleftrightarrow> e = SignedOverflow \<or> e = Uncaught OutOfRange"

lemma pipeCount_loop_failure:
  "pipeCount_loop acc rest = Inl e \<Longrightarrow> numberToken_loop True rest \<Longrightarrow> number_failure e"
proof (induction acc rest rule: pipeCount_loop.induct)
  case (1 acc rest)
  let ?t = "takeWhile (\<lambda>c. c \<noteq> PLUS) rest"
  have ne: "rest \<noteq> []" using "1.prems"(2) by auto
  have stoi: "stoi ?t = (if int (digits_value ?t) \<le> INT_MAX then Inr (int (digits_value ?t))
                         else Inl (Uncaught OutOfRange))"
    using numberToken_term_digits numberToken_term_nonempty "1.prems"(2)
    by (intro stoi_digits) blast+
  show ?case
  proof (rule dropWhile_neq_cases [of PLUS rest])
    assume "dropWhile (\<lambda>c. c \<noteq> PLUS) rest = []"
    with "1.prems"(1) show ?thesis
      by (subst (asm) pipeCount_loop.simps)
        (auto simp: ne stoi add_int_def number_failure_def split: if_splits)
  next
    fix r assume r: "dropWhile (\<lambda>c. c \<noteq> PLUS) rest = PLUS # r"
    note IH = "1.IH" [OF ne]
    show ?thesis
    proof (cases "stoi ?t")
      case (Inl e')
      with "1.prems"(1) show ?thesis
        by (subst (asm) pipeCount_loop.simps) (auto simp: ne stoi number_failure_def split: if_splits)
    next
      case v: (Inr v)
      show ?thesis
      proof (cases "add_int acc v")
        case (Inl e')
        with "1.prems"(1) v show ?thesis
          by (subst (asm) pipeCount_loop.simps)
            (auto simp: ne add_int_def number_failure_def split: if_splits)
      next
        case (Inr n)
        with "1.prems"(1) v r have "pipeCount_loop n r = Inl e"
          by (subst (asm) pipeCount_loop.simps) (simp add: ne)
        with IH [OF v Inr] r numberToken_rest [OF "1.prems"(2) r] show ?thesis by simp
      qed
    qed
  qed
qed

lemma parseLine_loop_failure:
  assumes "\<forall>t m e. isTok t m \<longrightarrow> count t = Inl e \<longrightarrow> number_failure e"
    and "parseLine_loop isTok count cur cs ts = Inl e"
  shows "number_failure e"
  using assms
proof (induction isTok count cur cs ts rule: parseLine_loop.induct)
  case (2 isTok count cur cs t ts)
  note fail = "2.prems"(2) and num = "2.prems"(1)
  consider "t = ''|''" | "t \<noteq> ''|''" "isTok t CHR ''|''"
    | "t \<noteq> ''|''" "\<not> isTok t CHR ''|''" "isTok t CHR ''!''"
    | "t \<noteq> ''|''" "\<not> isTok t CHR ''|''" "\<not> isTok t CHR ''!''" "t = ''>''" "ts = []"
    | f ts' where "t \<noteq> ''|''" "\<not> isTok t CHR ''|''" "\<not> isTok t CHR ''!''" "t = ''>''" "ts = f # ts'"
    | "t \<noteq> ''|''" "\<not> isTok t CHR ''|''" "\<not> isTok t CHR ''!''" "t \<noteq> ''>''"
    by (cases ts) auto
  then show ?case
  proof cases
    case 1
    with fail show ?thesis by (intro "2.IH"(1) [OF 1 num]) simp
  next
    case 2
    show ?thesis
    proof (cases "count t")
      case (Inr n)
      with 2 fail show ?thesis by (intro "2.IH"(2) [OF 2 Inr num]) simp
    qed (use 2 fail num in auto)
  next
    case 3
    show ?thesis
    proof (cases "count t")
      case (Inr n)
      with 3 fail show ?thesis by (intro "2.IH"(3) [OF 3 Inr num]) simp
    qed (use 3 fail num in auto)
  next
    case 4
    with fail show ?thesis by simp
  next
    case 5
    with fail show ?thesis by (intro "2.IH"(5) [OF 5 num]) simp
  next
    case 6
    with fail show ?thesis by (intro "2.IH"(6) [OF 6 num]) simp
  qed
qed simp

lemma parseLine_failure: "parseLine line = Inl e \<Longrightarrow> number_failure e"
proof -
  have "number_failure e'" if "isNumberPipeToken t m" "parseNumberPipeCount t = Inl e'" for t m e'
    using that pipeCount_loop_failure [of 0 "tl t" e']
    by (simp add: isNumberPipeToken_def parseNumberPipeCount_def)
  then show "parseLine line = Inl e \<Longrightarrow> number_failure e"
    unfolding parseLine_def Let_def
    using parseLine_loop_failure [of isNumberPipeToken parseNumberPipeCount emptyCommand "[]"
        "splitBySpace line" e]
    by (simp split: if_splits)
qed

end
