(* ===== verification/Commands.thy ===== *)
theory Commands
  imports Shell_Parse "HOL-Library.Sublist"
begin

text \<open>
  The filters that the shell runs, \<open>projects/01-npshell/commands\<close> (the second project has copies of the
  files): \<open>number\<close>, \<open>removetag\<close> and \<open>removetag0\<close>. A program gets its arguments, the files that can be
  opened and its standard input, and leaves standard output and standard error.

  \<open>removetag\<close> is compared with a description of its output without a state, and \<open>number\<close> is inverted.
\<close>

section \<open>Input and usage\<close>

text \<open>
  With one argument \<open>cin\<close> reads the file, and nothing when it cannot be opened. With more arguments the
  program prints how to use it, and goes on with standard input.
\<close>

definition cin_of :: "string list \<Rightarrow> (string \<Rightarrow> string option) \<Rightarrow> string \<Rightarrow> string" where
  "cin_of args files stdin =
     (if length args = 2 then (case files (args ! 1) of None \<Rightarrow> [] | Some content \<Rightarrow> content) else stdin)"

definition usage :: "string list \<Rightarrow> string" where
  "usage args = (if length args > 2 then ''usage: '' @ args ! 0 @ '' [filename]'' @ [NL] else [])"

section \<open>\<open>number\<close>\<close>

text \<open>\<open>setw(4)\<close> with \<open>setfill(' ')\<close>.\<close>

definition setw4 :: "string \<Rightarrow> string" where
  "setw4 s = replicate (4 - length s) CHR '' '' @ s"

definition number_row :: "int \<Rightarrow> string \<Rightarrow> string" where
  "number_row lineno line = setw4 (to_string lineno) @ '' '' @ line"

text \<open>The counter is an \<open>int\<close>; the loop is over the lines that \<open>getline\<close> delivers.\<close>

primrec number_loop :: "int \<Rightarrow> string list \<Rightarrow> string result" where
  "number_loop lineno [] = Inr []"
| "number_loop lineno (line # lines) =
     bindR (add_int lineno 1) (\<lambda>n.
       bindR (number_loop n lines) (\<lambda>rest. Inr (number_row n line @ [NL] @ rest)))"

definition number_main :: "string list \<Rightarrow> (string \<Rightarrow> string option) \<Rightarrow> string \<Rightarrow> (string \<times> string) result" where
  "number_main args files stdin =
     bindR (number_loop 0 (split (cin_of args files stdin) NL)) (\<lambda>out. Inr (out, usage args))"

lemma number_loop_rows:
  "0 \<le> n \<Longrightarrow> n + int (length lines) \<le> INT_MAX \<Longrightarrow>
   number_loop n lines = Inr (concat (map (\<lambda>i. number_row (n + 1 + int i) (lines ! i) @ [NL]) [0..<length lines]))"
proof (induction lines arbitrary: n)
  case (Cons line lines)
  have "add_int n 1 = Inr (n + 1)"
    using Cons.prems by (simp add: add_int_def)
  moreover have "number_loop (n + 1) lines =
      Inr (concat (map (\<lambda>i. number_row (n + 2 + int i) (lines ! i) @ [NL]) [0..<length lines]))"
    using Cons.IH [of "n + 1"] Cons.prems by (simp add: add.assoc)
  moreover have "[0..<length (line # lines)] = 0 # map Suc [0..<length lines]"
    by (simp add: upt_conv_Cons map_Suc_upt del: upt_Suc)
  ultimately show ?case
    by (simp add: comp_def add_ac del: upt_Suc)
qed simp

lemma split_lines:
  "\<forall>l \<in> set ls. NL \<notin> set l \<Longrightarrow> split (concat (map (\<lambda>l. l @ [NL]) ls)) NL = ls"
  by (induction ls) (simp_all add: split_append)

lemma split_no_delimiter: "l \<in> set (split s d) \<Longrightarrow> d \<notin> set l"
proof (induction s d rule: split.induct)
  case (1 s d)
  have part: "d \<notin> set (takeWhile (\<lambda>c. c \<noteq> d) s)"
    by (auto dest: set_takeWhileD)
  show ?case
  proof (cases "dropWhile (\<lambda>c. c \<noteq> d) s")
    case Nil
    with part "1.prems" show ?thesis
      by (subst (asm) split.simps) (simp only: list.case if_split_asm split: if_split_asm, auto)
  next
    case (Cons x rest)
    then have "s \<noteq> []" by auto
    with Cons have "split s d = takeWhile (\<lambda>c. c \<noteq> d) s # split rest d"
      by (subst split.simps) simp
    with part "1.prems" "1.IH" [OF \<open>s \<noteq> []\<close> Cons] show ?thesis by auto
  qed
qed

lemma to_string_digits: "0 \<le> n \<Longrightarrow> \<forall>c \<in> set (to_string n). isdigit c" "0 \<le> n \<Longrightarrow> to_string n \<noteq> []"
  using nat_to_string_digits by (simp_all add: to_string_def)

lemma number_row_no_newline: "0 \<le> n \<Longrightarrow> NL \<notin> set l \<Longrightarrow> NL \<notin> set (number_row n l)"
  using to_string_digits [of n] by (auto simp: number_row_def setw4_def isdigit_def)

text \<open>Reading the number of a row back, as \<open>stoi\<close> does, and the line after it.\<close>

lemma stoi_number_row:
  assumes "0 \<le> n" and "n \<le> INT_MAX"
  shows "stoi (number_row n l) = Inr n"
proof -
  let ?d = "to_string n"
  have d: "?d \<noteq> []" "\<forall>c \<in> set ?d. isdigit c"
    using to_string_digits assms(1) by auto
  have "dropWhile isspace (replicate k CHR '' '' @ ?d @ '' '' @ l) = ?d @ '' '' @ l" for k
    using d by (induction k) (cases ?d, auto simp: isspace_def isdigit_def)
  then have "dropWhile isspace (number_row n l) = ?d @ '' '' @ l"
    by (simp add: number_row_def setw4_def)
  moreover have "hd ?d \<noteq> CHR ''-''" "hd ?d \<noteq> CHR ''+''"
    using d by (cases ?d; auto simp: isdigit_def)+
  moreover have "takeWhile isdigit (?d @ '' '' @ l) = ?d"
    using d by (simp add: takeWhile_append isdigit_def)
  moreover have "stoi ?d = Inr n"
    using assms stoi_nat_to_string [of "nat n"] by (simp add: to_string_def)
  ultimately show ?thesis
    using d assms by (simp add: stoi_def Let_def to_string_def)
qed

lemma drop_number_row: "drop (max 4 (length (to_string n)) + 1) (number_row n l) = l"
proof -
  have "length (setw4 (to_string n) @ '' '') = max 4 (length (to_string n)) + 1"
    by (simp add: setw4_def)
  moreover have "drop (length (a @ '' '')) ((a @ '' '') @ l) = l" for a :: string
    by (rule append_eq_conv_conj [THEN iffD1, THEN conjunct2, symmetric, OF refl])
  ultimately show ?thesis
    by (metis number_row_def append_assoc)
qed

section \<open>\<open>removetag\<close>\<close>

fun removetag_loop :: "bool \<Rightarrow> string \<Rightarrow> string" where
  "removetag_loop in_tag [] = []"
| "removetag_loop in_tag (c # cs) =
     (if c = CHR ''<'' then removetag_loop True cs
      else if c = CHR ''>'' then removetag_loop False cs
      else if \<not> in_tag then c # removetag_loop in_tag cs
      else removetag_loop in_tag cs)"

definition removetag_main :: "string list \<Rightarrow> (string \<Rightarrow> string option) \<Rightarrow> string \<Rightarrow> string \<times> string" where
  "removetag_main args files stdin = (removetag_loop False (cin_of args files stdin), usage args)"

text \<open>
  The text outside tags, without a state: up to the next \<open><\<close>, then what follows the next \<open>>\<close>. A \<open>>\<close>
  outside a tag is dropped.
\<close>

definition after_tag :: "string \<Rightarrow> string" where
  "after_tag s = tl (dropWhile (\<lambda>c. c \<noteq> CHR ''>'') s)"

lemma after_tag_length: "length (after_tag s) \<le> length s"
  using length_dropWhile_le [of "\<lambda>c. c \<noteq> CHR ''>''" s] by (simp add: after_tag_def)

function text_outside :: "string \<Rightarrow> string" where
  "text_outside s =
     filter (\<lambda>c. c \<noteq> CHR ''>'') (takeWhile (\<lambda>c. c \<noteq> CHR ''<'') s) @
     (case dropWhile (\<lambda>c. c \<noteq> CHR ''<'') s of [] \<Rightarrow> [] | _ # rest \<Rightarrow> text_outside (after_tag rest))"
  by pat_completeness auto
termination
proof (relation "measure length", goal_cases)
  case (2 s x rest)
  then show ?case
    using after_tag_length [of rest] length_dropWhile_le [of "\<lambda>c. c \<noteq> CHR ''<''" s] by simp
qed simp

declare text_outside.simps [simp del]

lemma removetag_in_tag: "removetag_loop True s = removetag_loop False (after_tag s)"
  by (induction s) (auto simp: after_tag_def)

lemma removetag_outside:
  "removetag_loop False s =
     filter (\<lambda>c. c \<noteq> CHR ''>'') (takeWhile (\<lambda>c. c \<noteq> CHR ''<'') s) @
     (case dropWhile (\<lambda>c. c \<noteq> CHR ''<'') s of [] \<Rightarrow> [] | _ # rest \<Rightarrow> removetag_loop False (after_tag rest))"
  by (induction s) (simp_all add: removetag_in_tag)

lemma removetag_text_outside: "removetag_loop False s = text_outside s"
proof (induction s rule: text_outside.induct)
  case (1 s)
  show ?case
  proof (cases "dropWhile (\<lambda>c. c \<noteq> CHR ''<'') s")
    case Nil
    then show ?thesis
      by (simp only: removetag_outside [of s] text_outside.simps [of s] list.case)
  next
    case (Cons x rest)
    then show ?thesis
      by (simp only: removetag_outside [of s] text_outside.simps [of s] list.case "1.IH")
  qed
qed

lemma removetag_no_brackets: "set (removetag_loop b s) \<inter> {CHR ''<'', CHR ''>''} = {}"
  by (induction b s rule: removetag_loop.induct) auto

lemma removetag_plain: "set s \<inter> {CHR ''<'', CHR ''>''} = {} \<Longrightarrow> removetag_loop False s = s"
  by (induction s) auto

lemma removetag_subseq: "subseq (removetag_loop b s) s"
  by (induction b s rule: removetag_loop.induct) auto

section \<open>\<open>removetag0\<close>\<close>

text \<open>\<open>isalpha\<close> in the C locale.\<close>

definition isalpha :: "char \<Rightarrow> bool" where
  "isalpha c = (let n = (of_char c :: nat) in 65 \<le> n \<and> n \<le> 90 \<or> 97 \<le> n \<and> n \<le> 122)"

definition illegal_message :: "string \<Rightarrow> string" where
  "illegal_message tag_name = ''Error: illegal tag '' @ [CHR 0x22] @ tag_name @ [CHR 0x22] @ [NL]"

text \<open>The loop, with standard output and standard error as its result.\<close>

fun removetag0_loop :: "bool \<Rightarrow> bool \<Rightarrow> string \<Rightarrow> string \<Rightarrow> string \<times> string" where
  "removetag0_loop in_tag is_illegal tag_name [] = ([], [])"
| "removetag0_loop in_tag is_illegal tag_name (c # cs) =
     (if c = CHR ''<'' then removetag0_loop True is_illegal tag_name cs
      else if c = CHR ''>'' then removetag0_loop False is_illegal tag_name cs
      else if in_tag then
        removetag0_loop in_tag (is_illegal \<or> \<not> isalpha c \<and> c \<noteq> CHR ''/'') (tag_name @ [c]) cs
      else
        (let (out, err) = removetag0_loop in_tag False tag_name cs
         in (c # out, (if is_illegal then illegal_message tag_name else []) @ err)))"

definition removetag0_main :: "string list \<Rightarrow> (string \<Rightarrow> string option) \<Rightarrow> string \<Rightarrow> string \<times> string" where
  "removetag0_main args files stdin =
     (let (out, err) = removetag0_loop False False [] (cin_of args files stdin) in (out, usage args @ err))"

lemma removetag0_output: "fst (removetag0_loop b i t s) = removetag_loop b s"
  by (induction b i t s rule: removetag0_loop.induct) (simp_all add: case_prod_beta)

lemma removetag0_in_tag:
  assumes "set t \<inter> {CHR ''<'', CHR ''>''} = {}"
  shows "removetag0_loop True i name (t @ CHR ''>'' # s) =
     removetag0_loop False (i \<or> (\<exists>c \<in> set t. \<not> isalpha c \<and> c \<noteq> CHR ''/'')) (name @ t) s"
  using assms by (induction t arbitrary: i name) (auto simp: disj_assoc)

definition illegal_name :: "string \<Rightarrow> bool" where
  "illegal_name t \<longleftrightarrow> (\<exists>c \<in> set t. \<not> isalpha c \<and> c \<noteq> CHR ''/'')"

definition tag :: "string \<Rightarrow> string" where
  "tag t = [CHR ''<''] @ t @ [CHR ''>'']"

lemma removetag0_tag:
  "set t \<inter> {CHR ''<'', CHR ''>''} = {} \<Longrightarrow>
   removetag0_loop False i name (tag t @ s) = removetag0_loop False (i \<or> illegal_name t) (name @ t) s"
  using removetag0_in_tag [of t i name s] by (simp add: tag_def illegal_name_def)

section \<open>Properties\<close>

text \<open>\<open>number\<close> can be undone: for up to 2147483647 lines its output has as many lines as its input, the
  number in front of the line is its position, and the input line follows the number and a blank.\<close>

theorem number_roundtrip:
  assumes "int (length (split stdin NL)) \<le> INT_MAX"
  shows "\<exists>out. number_main [name] files stdin = Inr (out, []) \<and>
           length (split out NL) = length (split stdin NL) \<and>
           (\<forall>i < length (split stdin NL).
              stoi (split out NL ! i) = Inr (int i + 1) \<and>
              drop (max 4 (length (to_string (int i + 1))) + 1) (split out NL ! i) = split stdin NL ! i)"
proof -
  let ?ls = "split stdin NL"
  let ?rows = "map (\<lambda>i. number_row (int i + 1) (?ls ! i)) [0..<length ?ls]"
  have "concat (map (\<lambda>i. number_row (0 + 1 + int i) (?ls ! i) @ [NL]) [0..<length ?ls]) = concat (map (\<lambda>l. l @ [NL]) ?rows)"
    by (simp add: comp_def add_ac)
  with number_loop_rows [of 0 ?ls] assms have
    "number_main [name] files stdin = Inr (concat (map (\<lambda>l. l @ [NL]) ?rows), [])"
    by (simp add: number_main_def cin_of_def usage_def)
  moreover have "split (concat (map (\<lambda>l. l @ [NL]) ?rows)) NL = ?rows"
    using split_no_delimiter [OF nth_mem] by (intro split_lines ballI) (auto simp: number_row_no_newline)
  ultimately show ?thesis
    using assms drop_number_row by (intro exI [of _ "concat (map (\<lambda>l. l @ [NL]) ?rows)"]) (simp add: stoi_number_row)
qed

lemma number_roundtrip_instance:
  "\<exists>out. number_main [''number''] (\<lambda>_. None) (''a'' @ [NL] @ ''b'') = Inr (out, []) \<and> stoi (split out NL ! 1) = Inr 2"
proof -
  have lines: "split (''a'' @ [NL] @ ''b'') NL = [''a'', ''b'']" by code_simp
  from number_roundtrip [of "''a'' @ [NL] @ ''b''" "''number''" "\<lambda>_. None"] show ?thesis
    unfolding lines by auto
qed

text \<open>C40. \<open>removetag\<close> writes exactly the text outside tags, in its order; no angle bracket is left, a text without
  them is unchanged, and a second run changes nothing. \<open>removetag0\<close> writes the same to standard output.\<close>

theorem removetag_text:
  "removetag_loop False s = text_outside s \<and>
   set (removetag_loop False s) \<inter> {CHR ''<'', CHR ''>''} = {} \<and> subseq (removetag_loop False s) s \<and>
   removetag_loop False (removetag_loop False s) = removetag_loop False s \<and>
   fst (removetag0_main args files stdin) = fst (removetag_main args files stdin)"
proof (intro conjI)
  show "removetag_loop False (removetag_loop False s) = removetag_loop False s"
    by (rule removetag_plain [OF removetag_no_brackets])
  show "fst (removetag0_main args files stdin) = fst (removetag_main args files stdin)"
    by (simp add: removetag0_main_def removetag_main_def case_prod_beta removetag0_output)
qed (rule removetag_text_outside removetag_no_brackets removetag_subseq)+

text \<open>\<open>removetag0\<close> never forgets a tag: its message for an illegal tag names the letters of all tags before it
  as well, and it comes only with the next character outside tags, so that an illegal tag at the end of the
  input is not reported.\<close>

theorem illegal_tag_message:
  assumes "set t \<inter> {CHR ''<'', CHR ''>''} = {}" and "set u \<inter> {CHR ''<'', CHR ''>''} = {}"
    and "\<not> illegal_name t" and "illegal_name u" and "c \<notin> {CHR ''<'', CHR ''>''}"
  shows "removetag0_main [name] files (tag t @ tag u @ [c]) = ([c], illegal_message (t @ u)) \<and>
         removetag0_main [name] files (tag t @ tag u) = ([], [])"
proof -
  have "removetag0_loop False False [] (tag t @ tag u @ r) = removetag0_loop False True (t @ u) r" for r
    using removetag0_tag [OF assms(1), of False "[]" "tag u @ r"] removetag0_tag [OF assms(2), of False t r] assms(3,4)
    by simp
  from this [of "[c]"] this [of "[]"] assms(5) show ?thesis
    by (simp add: removetag0_main_def cin_of_def usage_def)
qed

lemma illegal_tag_message_instance:
  "removetag0_main [''removetag0''] (\<lambda>_. None) (tag ''b'' @ tag ''a1'' @ ''x'') = (''x'', illegal_message ''ba1'')"
proof -
  have "\<not> illegal_name ''b''" "illegal_name ''a1''"
    by (simp_all add: illegal_name_def isalpha_def)
  with illegal_tag_message [of "''b''" "''a1''" "CHR ''x''" "''removetag0''" "\<lambda>_. None"] show ?thesis by simp
qed

end
