(* ===== verification/Posix.thy ===== *)
theory Posix
  imports Prelude "HOL-Library.List_Lexorder"
begin

text \<open>
  The part of POSIX that the shells and servers use: the descriptor table of one process
  (\<open>open\<close>, \<open>close\<close>, \<open>pipe\<close>, \<open>dup2\<close>, and \<open>sys_socket\<close> for \<open>socket\<close> and \<open>accept\<close>), \<open>write\<close>, and \<open>fork\<close> with \<open>waitpid\<close> as far as the callers
  look at their results.

  A descriptor table is a list indexed by descriptor, with \<open>None\<close> for a closed one, and a new
  descriptor is the lowest closed one, as POSIX demands. Which files can be opened, which programs
  can be executed and which attempts to \<open>fork\<close> fail is given by fields of the state that no
  operation changes (the file system) or that the attempts consume.
\<close>

section \<open>Descriptor tables\<close>

datatype ofile =
    Terminal nat
  | Socket nat
  | PipeR nat
  | PipeW nat
  | RegFile string
  | FifoR nat
  | FifoW nat
  | Listener nat
  | DevNull

type_synonym fd = int
type_synonym fdtab = "ofile option list"

abbreviation (input) STDIN :: fd where "STDIN \<equiv> 0"
abbreviation (input) STDOUT :: fd where "STDOUT \<equiv> 1"
abbreviation (input) STDERR :: fd where "STDERR \<equiv> 2"

definition fd_get :: "fdtab \<Rightarrow> fd \<Rightarrow> ofile option" where
  "fd_get t fd = (if 0 \<le> fd \<and> nat fd < length t then t ! nat fd else None)"

definition fd_put :: "fdtab \<Rightarrow> fd \<Rightarrow> ofile \<Rightarrow> fdtab" where
  "fd_put t fd f = (t @ replicate (Suc (nat fd) - length t) None)[nat fd := Some f]"

definition fd_close :: "fdtab \<Rightarrow> fd \<Rightarrow> fdtab" where
  "fd_close t fd = (if 0 \<le> fd \<and> nat fd < length t then t[nat fd := None] else t)"

fun lowest_closed :: "fdtab \<Rightarrow> nat" where
  "lowest_closed [] = 0"
| "lowest_closed (None # t) = 0"
| "lowest_closed (Some f # t) = Suc (lowest_closed t)"

definition fd_lowest :: "fdtab \<Rightarrow> fd" where
  "fd_lowest t = int (lowest_closed t)"

text \<open>
  The interface: what the shell needs to know of a descriptor table. The lemmas say what closing a
  list of descriptors leaves, that allocating and closing again changes nothing, and that two
  descriptors allocated one after the other differ.
\<close>

locale descriptor_table =
  fixes get :: "'t \<Rightarrow> int \<Rightarrow> 'f option"
    and put :: "'t \<Rightarrow> int \<Rightarrow> 'f \<Rightarrow> 't"
    and close :: "'t \<Rightarrow> int \<Rightarrow> 't"
    and lowest :: "'t \<Rightarrow> int"
  assumes get_put: "0 \<le> fd \<Longrightarrow> get (put t fd f) fd' = (if fd' = fd then Some f else get t fd')"
    and get_close: "get (close t fd) fd' = (if fd' = fd then None else get t fd')"
    and get_negative: "fd < 0 \<Longrightarrow> get t fd = None"
    and lowest_nonneg: "0 \<le> lowest t"
    and get_lowest: "get t (lowest t) = None"
    and below_lowest: "0 \<le> fd \<Longrightarrow> fd < lowest t \<Longrightarrow> get t fd \<noteq> None"
begin

lemma get_close_list:
  "get (fold (\<lambda>fd t. close t fd) fds t) fd' = (if fd' \<in> set fds then None else get t fd')"
  by (induction fds arbitrary: t) (auto simp: get_close)

lemma get_put_lowest:
  "get (put t (lowest t) f) fd = (if fd = lowest t then Some f else get t fd)"
  by (simp add: get_put lowest_nonneg)

lemma put_close_lowest: "get (close (put t (lowest t) f) (lowest t)) fd = get t fd"
  by (simp add: get_close get_put_lowest get_lowest)

lemma next_lowest: "lowest t < lowest (put t (lowest t) f)"
proof (rule ccontr)
  let ?t = "put t (lowest t) f"
  assume "\<not> lowest t < lowest ?t"
  moreover have "lowest ?t \<noteq> lowest t"
    using get_lowest [of ?t] by (auto simp: get_put_lowest)
  ultimately have "get t (lowest ?t) \<noteq> None"
    by (intro below_lowest) (simp_all add: lowest_nonneg)
  with get_lowest [of ?t] show False
    by (simp add: get_put_lowest split: if_splits)
qed

lemma open_is_nonneg: "get t fd = Some f \<Longrightarrow> 0 \<le> fd"
  using get_negative [of fd t] by (cases "0 \<le> fd") auto

lemma lowest_above_open: "\<forall>fd. 0 \<le> fd \<and> fd < n \<longrightarrow> get t fd \<noteq> None \<Longrightarrow> n \<le> lowest t"
  using get_lowest [of t] lowest_nonneg [of t] by (meson not_le_imp_less)

end

lemma nth_pad: "(xs @ replicate n None) ! i = (if i < length xs then xs ! i else None)" if "i < length xs + n"
  using that by (simp add: nth_append)

lemma fd_get_put: "0 \<le> fd \<Longrightarrow> fd_get (fd_put t fd f) fd' = (if fd' = fd then Some f else fd_get t fd')"
  by (auto simp: fd_get_def fd_put_def nth_list_update nth_append nat_eq_iff)

lemma fd_get_close: "fd_get (fd_close t fd) fd' = (if fd' = fd then None else fd_get t fd')"
  by (auto simp: fd_get_def fd_close_def nth_list_update nat_eq_iff)

lemma nth_lowest_closed: "lowest_closed t < length t \<Longrightarrow> t ! lowest_closed t = None"
  by (induction t rule: lowest_closed.induct) auto

lemma fd_get_lowest: "fd_get t (fd_lowest t) = None"
  by (simp add: fd_get_def fd_lowest_def nth_lowest_closed)

lemma fd_get_below_lowest: "0 \<le> fd \<Longrightarrow> fd < fd_lowest t \<Longrightarrow> fd_get t fd \<noteq> None"
proof (induction t arbitrary: fd rule: lowest_closed.induct)
  case (3 f t)
  show ?case
  proof (cases "fd = 0")
    case False
    then have "fd_get t (fd - 1) \<noteq> None"
      using 3 by (intro "3.IH") (auto simp: fd_lowest_def)
    with False "3.prems" show ?thesis
      by (auto simp: fd_get_def nth_Cons' nat_diff_distrib split: if_splits)
  qed (simp add: fd_get_def)
qed (simp_all add: fd_lowest_def)

interpretation fdt: descriptor_table fd_get fd_put fd_close fd_lowest
proof unfold_locales
  show "fd_get t fd = None" if "fd < 0" for fd t
    using that by (simp add: fd_get_def)
  show "0 \<le> fd_lowest t" for t
    by (simp add: fd_lowest_def)
qed (auto simp: fd_get_put fd_get_close fd_get_lowest fd_get_below_lowest)

lemmas fd_table_simps [fd_simps] =
  fd_get_close fdt.get_put_lowest fdt.get_close_list

definition fd_dup2 :: "fdtab \<Rightarrow> fd \<Rightarrow> fd \<Rightarrow> fdtab" where
  "fd_dup2 t oldfd newfd = (case fd_get t oldfd of None \<Rightarrow> t | Some f \<Rightarrow> fd_put t newfd f)"

lemma fd_get_dup2 [fd_simps]:
  "0 \<le> newfd \<Longrightarrow> fd_get (fd_dup2 t oldfd newfd) fd =
     (if fd = newfd \<and> fd_get t oldfd \<noteq> None then fd_get t oldfd else fd_get t fd)"
  by (auto simp: fd_dup2_def fd_get_put split: option.splits)

section \<open>The operating system as the process sees it\<close>

text \<open>
  A process created by \<open>fork\<close> is recorded with the arguments, environment and descriptors it has
  when it calls \<open>execvp\<close>. \<open>forks\<close> and \<open>polls\<close> hold the outcomes of the next attempts to \<open>fork\<close> and
  of the next calls of \<open>waitpid\<close> with \<open>WNOHANG\<close>; when they are empty, a \<open>fork\<close> succeeds and a child
  is still running. \<open>waited\<close> records the children the process has waited for.
\<close>

datatype fork_outcome = Granted | FailedReaped | FailedInterrupted | FailedNoChild

datatype poll_outcome = ChildExited | NoSuchChild | StillRunning | PollInterrupted | PollError

record proc =
  pid :: nat
  p_argv :: "string list"
  p_env :: "(string \<times> string) list"
  p_fds :: fdtab

record os =
  fdt :: fdtab
  nextPipe :: nat
  nofile :: nat
  openable :: "string \<Rightarrow> bool"
  execable :: "(string \<times> string) list \<Rightarrow> string \<Rightarrow> bool"
  forks :: "fork_outcome list"
  polls :: "poll_outcome list"
  nextPid :: nat
  procs :: "proc list"
  waited :: "nat list"
  written :: "(ofile \<times> string) list"

definition open_fds :: "os \<Rightarrow> fd set" where
  "open_fds s = {fd. fd_get (fdt s) fd \<noteq> None}"

definition sys_close :: "fd \<Rightarrow> os \<Rightarrow> os" where
  "sys_close fd s = s\<lparr>fdt := fd_close (fdt s) fd\<rparr>"

definition sys_open :: "string \<Rightarrow> ofile \<Rightarrow> os \<Rightarrow> fd \<times> os" where
  "sys_open path f s =
     (let fd = fd_lowest (fdt s)
      in if openable s path \<and> fd < int (nofile s) then (fd, s\<lparr>fdt := fd_put (fdt s) fd f\<rparr>)
         else (-1, s))"

definition sys_socket :: "ofile \<Rightarrow> os \<Rightarrow> fd \<times> os" where
  "sys_socket f s =
     (let fd = fd_lowest (fdt s)
      in if fd < int (nofile s) then (fd, s\<lparr>fdt := fd_put (fdt s) fd f\<rparr>) else (-1, s))"

text \<open>\<open>accept\<close>: a descriptor for the socket \<open>n\<close>, unless there is none left.\<close>

definition sys_accept :: "nat \<Rightarrow> os \<Rightarrow> fd \<times> os" where
  "sys_accept n = sys_socket (Socket n)"

definition sys_pipe :: "os \<Rightarrow> ((fd \<times> fd) \<times> os) option" where
  "sys_pipe s =
     (let r = fd_lowest (fdt s);
          t = fd_put (fdt s) r (PipeR (nextPipe s));
          w = fd_lowest t
      in if w < int (nofile s)
         then Some ((r, w), s\<lparr>fdt := fd_put t w (PipeW (nextPipe s)), nextPipe := Suc (nextPipe s)\<rparr>)
         else None)"

definition sys_write :: "fd \<Rightarrow> string \<Rightarrow> os \<Rightarrow> os" where
  "sys_write fd msg s =
     (case fd_get (fdt s) fd of
        None \<Rightarrow> s
      | Some f \<Rightarrow> s\<lparr>written := written s @ [(f, msg)]\<rparr>)"

lemma sys_close_simps [os_simps]:
  "fd_get (fdt (sys_close fd s)) fd' = (if fd' = fd then None else fd_get (fdt s) fd')"
  "open_fds (sys_close fd s) = open_fds s - {fd}"
  "nextPipe (sys_close fd s) = nextPipe s"
  "nofile (sys_close fd s) = nofile s"
  "openable (sys_close fd s) = openable s"
  "execable (sys_close fd s) = execable s"
  "forks (sys_close fd s) = forks s"
  "procs (sys_close fd s) = procs s"
  "nextPid (sys_close fd s) = nextPid s"
  "written (sys_close fd s) = written s"
  by (auto simp: sys_close_def open_fds_def fd_simps split: if_splits)

lemma sys_write_simps [os_simps]:
  "fdt (sys_write fd msg s) = fdt s"
  "open_fds (sys_write fd msg s) = open_fds s"
  "nextPipe (sys_write fd msg s) = nextPipe s"
  "procs (sys_write fd msg s) = procs s"
  "nofile (sys_write fd msg s) = nofile s"
  by (auto simp: sys_write_def open_fds_def split: option.splits)

lemma sys_open_fail: "sys_open path f s = (fd, s') \<Longrightarrow> fd < 0 \<Longrightarrow> s' = s"
  by (auto simp: sys_open_def Let_def fd_lowest_def split: if_splits)

lemma sys_open_fds:
  assumes "sys_open path f s = (fd, s')" and "0 \<le> fd"
  shows "fd \<notin> open_fds s" and "open_fds s' = insert fd (open_fds s)"
    and "fd_get (fdt s') x = (if x = fd then Some f else fd_get (fdt s) x)"
    and "nextPipe s' = nextPipe s" and "procs s' = procs s"
proof -
  have "fd = fd_lowest (fdt s) \<and> s' = s\<lparr>fdt := fd_put (fdt s) (fd_lowest (fdt s)) f\<rparr>"
    using assms by (auto simp: sys_open_def Let_def split: if_splits)
  then have fd: "fd = fd_lowest (fdt s)"
    and s': "s' = s\<lparr>fdt := fd_put (fdt s) (fd_lowest (fdt s)) f\<rparr>"
    by blast+
  show "fd \<notin> open_fds s" unfolding fd by (simp add: open_fds_def fd_get_lowest)
  show "open_fds s' = insert fd (open_fds s)" unfolding fd s' by (auto simp: open_fds_def fd_simps)
  show "fd_get (fdt s') x = (if x = fd then Some f else fd_get (fdt s) x)"
    unfolding fd s' by (simp add: fd_simps)
  show "nextPipe s' = nextPipe s" "procs s' = procs s" by (simp_all add: s')
qed

lemma sys_socket_fds:
  assumes "sys_socket f s = (fd, s')" and "0 \<le> fd"
  shows "fd \<notin> open_fds s" and "open_fds s' = insert fd (open_fds s)"
    and "fd_get (fdt s') x = (if x = fd then Some f else fd_get (fdt s) x)" and "fd < int (nofile s)"
proof -
  have "fd = fd_lowest (fdt s) \<and> s' = s\<lparr>fdt := fd_put (fdt s) (fd_lowest (fdt s)) f\<rparr>"
    and lt: "fd < int (nofile s)"
    using assms by (auto simp: sys_socket_def Let_def split: if_splits)
  then have fd: "fd = fd_lowest (fdt s)" and s': "s' = s\<lparr>fdt := fd_put (fdt s) (fd_lowest (fdt s)) f\<rparr>"
    by blast+
  show "fd \<notin> open_fds s" unfolding fd by (simp add: open_fds_def fd_get_lowest)
  show "open_fds s' = insert fd (open_fds s)" unfolding fd s' by (auto simp: open_fds_def fd_simps)
  show "fd_get (fdt s') x = (if x = fd then Some f else fd_get (fdt s) x)"
    unfolding fd s' by (simp add: fd_simps)
  show "fd < int (nofile s)" by (rule lt)
qed

lemma sys_pipe_fds:
  assumes "sys_pipe s = Some ((r, w), s')"
  shows "r \<notin> open_fds s" and "w \<notin> open_fds s" and "0 \<le> r" and "r < w"
    and "open_fds s' = {r, w} \<union> open_fds s"
    and "fd_get (fdt s') x =
           (if x = w then Some (PipeW (nextPipe s)) else if x = r then Some (PipeR (nextPipe s))
            else fd_get (fdt s) x)"
    and "nextPipe s' = Suc (nextPipe s)" and "procs s' = procs s"
proof -
  let ?r = "fd_lowest (fdt s)"
  let ?t = "fd_put (fdt s) ?r (PipeR (nextPipe s))"
  let ?w = "fd_lowest ?t"
  have "r = ?r \<and> w = ?w \<and>
      s' = s\<lparr>fdt := fd_put ?t ?w (PipeW (nextPipe s)), nextPipe := Suc (nextPipe s)\<rparr>"
    using assms unfolding sys_pipe_def Let_def by (cases "?w < int (nofile s)") auto
  then have rw: "r = ?r" "w = ?w"
    and s': "s' = s\<lparr>fdt := fd_put ?t ?w (PipeW (nextPipe s)), nextPipe := Suc (nextPipe s)\<rparr>"
    by blast+
  have lt: "?r < ?w" by (rule fdt.next_lowest)
  have w: "fd_get (fdt s) ?w = None"
    using fd_get_lowest [of ?t] by (simp add: fd_simps split: if_splits)
  show "r \<notin> open_fds s" "w \<notin> open_fds s" "0 \<le> r" "r < w"
    using lt w unfolding rw by (simp_all add: open_fds_def fd_get_lowest fdt.lowest_nonneg)
  show "open_fds s' = {r, w} \<union> open_fds s"
    unfolding rw s' by (auto simp: open_fds_def fd_simps)
  show "fd_get (fdt s') x =
           (if x = w then Some (PipeW (nextPipe s)) else if x = r then Some (PipeR (nextPipe s))
            else fd_get (fdt s) x)"
    unfolding rw s' by (simp add: fd_simps)
  show "nextPipe s' = Suc (nextPipe s)" "procs s' = procs s"
    by (simp_all add: s')
qed

section \<open>The environment of a process\<close>

text \<open>
  A list of names and values. \<open>setenv\<close> refuses an empty name and a name with an equals sign, as POSIX
  demands; for such a name \<open>getenv\<close> is not specified, and finds nothing here.
\<close>

definition env_name :: "string \<Rightarrow> bool" where
  "env_name k \<longleftrightarrow> k \<noteq> [] \<and> CHR ''='' \<notin> set k"

definition sys_setenv :: "string \<Rightarrow> string \<Rightarrow> (string \<times> string) list \<Rightarrow> (string \<times> string) list" where
  "sys_setenv k v e = (if env_name k then map_insert k v e else e)"

definition sys_getenv :: "string \<Rightarrow> (string \<times> string) list \<Rightarrow> string option" where
  "sys_getenv k e = (if env_name k then map_of e k else None)"

lemma getenv_setenv:
  "env_name k \<Longrightarrow> sys_getenv k' (sys_setenv k v e) = (if k' = k then Some v else sys_getenv k' e)"
  by (auto simp: sys_getenv_def sys_setenv_def map_of_insert)

lemma setenv_all_wf: "map_wf e \<Longrightarrow> map_wf (fold (\<lambda>(k, v). sys_setenv k v) kvs e)"
  by (induction kvs arbitrary: e) (auto simp: sys_setenv_def map_wf_insert)

lemma map_insert_last:
  "\<forall>x \<in> fst ` set m. x < k \<Longrightarrow> map_insert k v m = m @ [(k, v)]"
  by (induction m) (auto simp: order.strict_iff_not)

text \<open>Setting all variables of a map in an empty environment gives the map back.\<close>

lemma setenv_all:
  assumes "map_wf (e @ kvs)" and "\<forall>k \<in> fst ` set kvs. env_name k"
  shows "fold (\<lambda>(k, v). sys_setenv k v) kvs e = e @ kvs"
  using assms
proof (induction kvs arbitrary: e)
  case (Cons kv kvs)
  obtain k v where kv: "kv = (k, v)" by fastforce
  have "\<forall>x \<in> fst ` set e. x < k"
    using Cons.prems(1) by (auto simp: kv map_wf_def sorted_wrt_append)
  then have "sys_setenv k v e = e @ [(k, v)]"
    using Cons.prems(2) by (simp add: sys_setenv_def kv map_insert_last)
  with Cons.IH [of "e @ [(k, v)]"] Cons.prems show ?case by (simp add: kv)
qed simp

end
