(* ===== verification/Shell_Engine.thy ===== *)
theory Shell_Engine
  imports Posix Shell_Parse "HOL-Library.List_Lexorder"
begin

text \<open>
  The execution engine of \<open>projects/02-rwg-server/shell_core.h\<close>: numbered pipes, the plan of a line
  (segments and which children are waited for), the descriptors of each command, the child's side
  after \<open>fork\<close>, and \<open>executeExternalCommands\<close> with its loops.

  A descriptor held in a variable is an \<^typ>\<open>int\<close> with \<open>-1\<close> for none, as in the code.
\<close>

section \<open>State\<close>

record PipeFD =
  readFd :: fd
  writeFd :: fd

definition noPipe :: PipeFD where
  "noPipe = \<lparr>readFd = -1, writeFd = -1\<rparr>"

record LinePlan =
  commandSegments :: "int list"
  segmentStarts :: "bool list"
  segmentCount :: int

record ShellState =
  numberedPipes :: "(int \<times> PipeFD) list"
  executedSegments :: int
  env :: "(string \<times> string) list"

definition initialShellState :: ShellState where
  "initialShellState =
     \<lparr>numberedPipes = [], executedSegments = 0, env = [(''PATH'', ''bin:.'')]\<rparr>"

record ExecutionConfig =
  inputFd :: fd
  outputFd :: fd
  errorFd :: fd
  forceLastOutput :: bool
  closeInChild :: "fd list"

definition defaultConfig :: ExecutionConfig where
  "defaultConfig = \<lparr>inputFd = -1, outputFd = STDOUT, errorFd = STDERR, forceLastOutput = False,
                    closeInChild = []\<rparr>"

record ReusableIoPlan =
  outFd :: fd
  errFd :: fd
  nextInFd :: fd
  redirectFd :: fd
  ordinaryPipe :: PipeFD

definition emptyIoPlan :: ReusableIoPlan where
  "emptyIoPlan = \<lparr>outFd = STDOUT, errFd = STDERR, nextInFd = -1, redirectFd = -1,
                  ordinaryPipe = noPipe\<rparr>"

section \<open>Descriptors and pipes\<close>

definition closeFd :: "fd \<Rightarrow> os \<Rightarrow> fd \<times> os" where
  "closeFd fd s = (if fd \<ge> 0 then (-1, sys_close fd s) else (fd, s))"

definition closePipe :: "PipeFD \<Rightarrow> os \<Rightarrow> PipeFD \<times> os" where
  "closePipe p s =
     (let (r, s1) = closeFd (readFd p) s;
          (w, s2) = closeFd (writeFd p) s1
      in (\<lparr>readFd = r, writeFd = w\<rparr>, s2))"

definition createPipeOrDie :: "os \<Rightarrow> (PipeFD \<times> os) result" where
  "createPipeOrDie s =
     (case sys_pipe s of
        None \<Rightarrow> Inl (ExitProcess 1)
      | Some ((r, w), s') \<Rightarrow> Inr (\<lparr>readFd = r, writeFd = w\<rparr>, s'))"

section \<open>The plan of a line\<close>

function segmentEnd_loop :: "Command list \<Rightarrow> nat \<Rightarrow> nat" where
  "segmentEnd_loop commands segmentEnd =
     (if segmentEnd + 1 < length commands \<and> nextType (commands ! segmentEnd) = ORDINARY_PIPE
      then segmentEnd_loop commands (segmentEnd + 1) else segmentEnd)"
  by pat_completeness auto
termination
  by (relation "measure (\<lambda>(cs, e). length cs - e)") auto

declare segmentEnd_loop.simps [simp del]

lemma segmentEnd_loop_ge: "e \<le> segmentEnd_loop cs e"
proof (induction cs e rule: segmentEnd_loop.induct)
  case (1 cs e)
  then show ?case by (subst segmentEnd_loop.simps) (auto split: if_split)
qed

lemma segmentEnd_loop_lt: "e < length cs \<Longrightarrow> segmentEnd_loop cs e < length cs"
proof (induction cs e rule: segmentEnd_loop.induct)
  case (1 cs e)
  then show ?case by (subst segmentEnd_loop.simps) (auto split: if_split)
qed

function waitability_loop :: "Command list \<Rightarrow> nat \<Rightarrow> bool list \<Rightarrow> bool list" where
  "waitability_loop commands segmentStart waitable =
     (if segmentStart < length commands then
        (let segmentEnd = segmentEnd_loop commands segmentStart;
             waitable' =
               (if isNumberPipeType (nextType (commands ! segmentEnd))
                then fold (\<lambda>i w. w[i := False]) [segmentStart..<Suc segmentEnd] waitable
                else waitable)
         in waitability_loop commands (segmentEnd + 1) waitable')
      else waitable)"
  by pat_completeness auto
termination
proof (relation "measure (\<lambda>(cs, i, w). length cs - i)", goal_cases)
  case (2 cs i w e w')
  then show ?case using segmentEnd_loop_ge [of i cs] by simp
qed simp

declare waitability_loop.simps [simp del]

definition buildWaitability :: "Command list \<Rightarrow> bool list" where
  "buildWaitability commands = waitability_loop commands 0 (replicate (length commands) True)"

text \<open>
  The loop of \<open>buildLinePlan\<close>: the pipe type of the command before (none for the first), the
  cursor, and the commands still to come; it returns the segment numbers, the starts and the
  final cursor.
\<close>

fun linePlan_loop ::
  "NextType option \<Rightarrow> int \<Rightarrow> Command list \<Rightarrow> int list \<times> bool list \<times> int" where
  "linePlan_loop previous segmentCursor [] = ([], [], segmentCursor)"
| "linePlan_loop previous segmentCursor (c # cs) =
     (let start = (previous = None \<or> previous \<noteq> Some ORDINARY_PIPE);
          cursor = (if start then segmentCursor + 1 else segmentCursor);
          (segments, starts, final) = linePlan_loop (Some (nextType c)) cursor cs
      in (cursor # segments, start # starts, final))"

definition buildLinePlan :: "Command list \<Rightarrow> ShellState \<Rightarrow> LinePlan" where
  "buildLinePlan commands st =
     (let (segments, starts, cursor) = linePlan_loop None (executedSegments st) commands
      in \<lparr>commandSegments = segments, segmentStarts = starts,
          segmentCount = cursor - executedSegments st\<rparr>)"

section \<open>Children\<close>

text \<open>One pass of \<open>graceReap\<close> over the children, each with its \<open>done\<close> flag.\<close>

fun reap_round ::
  "poll_outcome list \<Rightarrow> (nat \<times> bool) list \<Rightarrow>
   ((nat \<times> bool) list \<times> bool \<times> poll_outcome list) result" where
  "reap_round ps [] = Inr ([], False, ps)"
| "reap_round ps ((p, done) # children) =
     (if done then
        bindR (reap_round ps children) (\<lambda>(cs, progress, ps'). Inr ((p, True) # cs, progress, ps'))
      else
        (let result = (case ps of [] \<Rightarrow> StillRunning | r # _ \<Rightarrow> r);
             rest = tl ps
         in if result = ChildExited \<or> result = NoSuchChild then
              bindR (reap_round rest children) (\<lambda>(cs, _, ps'). Inr ((p, True) # cs, True, ps'))
            else if result = PollError then Inl (ExitProcess 1)
            else
              bindR (reap_round rest children)
                (\<lambda>(cs, progress, ps'). Inr ((p, False) # cs, progress, ps'))))"

definition undone :: "(nat \<times> bool) list \<Rightarrow> nat" where
  "undone children = length (filter (\<lambda>c. \<not> snd c) children)"

lemma reap_round_undone:
  "reap_round ps cs = Inr (cs', progress, ps') \<Longrightarrow>
     undone cs' \<le> undone cs \<and> (progress \<longrightarrow> undone cs' < undone cs) \<and> map fst cs' = map fst cs"
proof (induction ps cs arbitrary: cs' progress ps' rule: reap_round.induct)
  case (2 ps p don children)
  then show ?case
    by (fastforce simp: undone_def Let_def split: if_splits prod.splits)
qed (simp add: undone_def)

function graceReap_loop ::
  "poll_outcome list \<Rightarrow> (nat \<times> bool) list \<Rightarrow> ((nat \<times> bool) list \<times> poll_outcome list) result" where
  "graceReap_loop ps children =
     bindR (reap_round ps children) (\<lambda>(cs, madeProgress, ps').
       if madeProgress then graceReap_loop ps' cs else Inr (cs, ps'))"
  by pat_completeness auto
termination
  by (relation "measure (\<lambda>(ps, cs). undone cs)") (auto dest: reap_round_undone)

declare graceReap_loop.simps [simp del]

definition graceReap :: "nat list \<Rightarrow> os \<Rightarrow> os result" where
  "graceReap pids s =
     (if pids = [] then Inr s
      else bindR (graceReap_loop (polls s) (map (\<lambda>p. (p, False)) pids)) (\<lambda>(cs, ps).
        Inr (s\<lparr>polls := ps, waited := waited s @ map fst (filter snd cs)\<rparr>)))"

text \<open>A failed \<open>fork\<close> is tried again after a child was reaped or a signal came, otherwise the process exits.\<close>

fun fork_attempts :: "fork_outcome list \<Rightarrow> fork_outcome list result" where
  "fork_attempts [] = Inr []"
| "fork_attempts (Granted # rest) = Inr rest"
| "fork_attempts (FailedReaped # rest) = fork_attempts rest"
| "fork_attempts (FailedInterrupted # rest) = fork_attempts rest"
| "fork_attempts (FailedNoChild # rest) = Inl (ExitProcess 1)"

definition forkOrReapUntilSuccess :: "os \<Rightarrow> (nat \<times> os) result" where
  "forkOrReapUntilSuccess s =
     bindR (fork_attempts (forks s)) (\<lambda>rest.
       Inr (nextPid s, s\<lparr>forks := rest, nextPid := Suc (nextPid s)\<rparr>))"

section \<open>Numbered pipes and built-ins\<close>

definition discardIncomingPipe :: "ShellState \<Rightarrow> int \<Rightarrow> os \<Rightarrow> ShellState \<times> os" where
  "discardIncomingPipe st targetSegment s =
     (case map_of (numberedPipes st) targetSegment of
        None \<Rightarrow> (st, s)
      | Some p \<Rightarrow>
          (let (_, s') = closePipe p s
           in (st\<lparr>numberedPipes := map_erase targetSegment (numberedPipes st)\<rparr>, s')))"

definition executeShellBuiltin :: "Command \<Rightarrow> ShellState \<Rightarrow> fd \<Rightarrow> os \<Rightarrow> bool \<times> ShellState \<times> os" where
  "executeShellBuiltin command st out s =
     (let name = (case argv command of [] \<Rightarrow> [] | a # _ \<Rightarrow> a)
      in if name = ''setenv'' then
           (let st1 = (if length (argv command) \<ge> 3
                       then st\<lparr>env := map_insert (argv command ! 1) (argv command ! 2) (env st)\<rparr>
                       else st);
                (st2, s2) = discardIncomingPipe st1 (executedSegments st1 + 1) s
            in (True, st2\<lparr>executedSegments := executedSegments st2 + 1\<rparr>, s2))
         else if name = ''printenv'' then
           (let s1 = (if length (argv command) \<ge> 2
                      then (case map_of (env st) (argv command ! 1) of
                              None \<Rightarrow> s
                            | Some v \<Rightarrow> sys_write out (v @ [NL]) s)
                      else s);
                (st2, s2) = discardIncomingPipe st (executedSegments st + 1) s1
            in (True, st2\<lparr>executedSegments := executedSegments st2 + 1\<rparr>, s2))
         else (False, st, s))"

definition attachIncomingNumberedPipe ::
  "ShellState \<Rightarrow> int \<Rightarrow> fd \<Rightarrow> os \<Rightarrow> ShellState \<times> fd \<times> os" where
  "attachIncomingNumberedPipe st segmentIndex inFd s =
     (case map_of (numberedPipes st) segmentIndex of
        None \<Rightarrow> (st, inFd, s)
      | Some p \<Rightarrow>
          (let (inFd1, s1) =
                 (if inFd < 0 then (readFd p, s)
                  else if inFd \<noteq> readFd p then (inFd, snd (closeFd (readFd p) s))
                  else (inFd, s));
               s2 = snd (closeFd (writeFd p) s1)
           in (st\<lparr>numberedPipes := map_erase segmentIndex (numberedPipes st)\<rparr>, inFd1, s2)))"

definition closeShellState :: "ShellState \<Rightarrow> os \<Rightarrow> ShellState \<times> os" where
  "closeShellState st s =
     (st\<lparr>numberedPipes := []\<rparr>, fold (\<lambda>e s. snd (closePipe (snd e) s)) (numberedPipes st) s)"

section \<open>The descriptors of one command\<close>

text \<open>
  The result says whether the command runs: it does not when its redirection target cannot be
  opened. The error message that \<open>perror\<close> then prints is left out.
\<close>

definition prepareIoPlan ::
  "Command \<Rightarrow> ShellState \<Rightarrow> int \<Rightarrow> ReusableIoPlan \<Rightarrow> fd \<Rightarrow> ExecutionConfig \<Rightarrow> bool \<Rightarrow> bool \<Rightarrow> os \<Rightarrow>
   (bool \<times> ShellState \<times> ReusableIoPlan \<times> fd \<times> os) result" where
  "prepareIoPlan command st segmentIndex ioPlan0 inFd0 config isFirstCommand isLastCommand s0 =
     (let ioPlan = ioPlan0\<lparr>outFd := outputFd config, errFd := errorFd config\<rparr>;
          (inFd, s) = (if isFirstCommand \<and> inputFd config \<ge> 0
                       then (inputFd config, snd (closeFd inFd0 s0)) else (inFd0, s0))
      in if isLastCommand \<and> forceLastOutput config \<and> outputFd config \<ge> 0 then
           Inr (True, st, ioPlan\<lparr>outFd := outputFd config\<rparr>, inFd, s)
         else if redirectStdout command then
           (let (fd, s1) = sys_open (redirectFile command) (RegFile (redirectFile command)) s
            in if fd < 0 then
                 (let (inFd1, s2) = closeFd inFd s1
                  in Inr (False, st, ioPlan\<lparr>redirectFd := fd\<rparr>, inFd1, s2))
               else Inr (True, st, ioPlan\<lparr>redirectFd := fd, outFd := fd\<rparr>, inFd, s1))
         else if nextType command = ORDINARY_PIPE then
           bindR (createPipeOrDie s) (\<lambda>(p, s1).
             Inr (True, st,
                  ioPlan\<lparr>ordinaryPipe := p, outFd := writeFd p, nextInFd := readFd p\<rparr>, inFd, s1))
         else if \<not> isNumberPipeType (nextType command) then Inr (True, st, ioPlan, inFd, s)
         else
           (let targetSegment = segmentIndex + nextCount command;
                target = (case map_of (numberedPipes st) targetSegment of
                            None \<Rightarrow> noPipe | Some p \<Rightarrow> p)
            in bindR (if readFd target < 0 \<and> writeFd target < 0 then createPipeOrDie s
                      else Inr (target, s)) (\<lambda>(p, s1).
                 (let st1 = st\<lparr>numberedPipes := map_insert targetSegment p (numberedPipes st)\<rparr>;
                      ioPlan1 = ioPlan\<lparr>outFd := writeFd p\<rparr>;
                      ioPlan2 = (if nextType command = NUMBER_PIPE_BOTH
                                 then ioPlan1\<lparr>errFd := outFd ioPlan1\<rparr> else ioPlan1)
                  in Inr (True, st1, ioPlan2, inFd, s1)))))"

text \<open>The child closes descriptors in its own copy of the table.\<close>

definition closeNumberedPipesInChild :: "ShellState \<Rightarrow> fdtab \<Rightarrow> fdtab" where
  "closeNumberedPipesInChild st t =
     fold (\<lambda>fd t. fd_close t fd)
       (concat (map (\<lambda>e. [readFd (snd e), writeFd (snd e)]) (numberedPipes st))) t"

definition closeDuplicatedFd :: "fd \<Rightarrow> fdtab \<Rightarrow> fdtab" where
  "closeDuplicatedFd fd t = (if fd > STDERR then fd_close t fd else t)"

definition closeExtraFdsInChild :: "fd list \<Rightarrow> fdtab \<Rightarrow> fdtab" where
  "closeExtraFdsInChild fds t = fold closeDuplicatedFd fds t"

definition applyChildEnvironment :: "ShellState \<Rightarrow> (string \<times> string) list" where
  "applyChildEnvironment st = fold (\<lambda>(k, v). sys_setenv k v) (env st) []"

definition child_dups :: "ReusableIoPlan \<Rightarrow> fd \<Rightarrow> fdtab \<Rightarrow> fdtab" where
  "child_dups ioPlan inFd t0 =
     (let t1 = (if inFd \<ge> 0 then fd_dup2 t0 inFd STDIN else t0);
          t2 = (if outFd ioPlan \<ge> 0 \<and> outFd ioPlan \<noteq> STDOUT then fd_dup2 t1 (outFd ioPlan) STDOUT else t1)
      in if errFd ioPlan \<ge> 0 \<and> errFd ioPlan \<noteq> STDERR then fd_dup2 t2 (errFd ioPlan) STDERR else t2)"

definition child_fds ::
  "ShellState \<Rightarrow> ReusableIoPlan \<Rightarrow> fd \<Rightarrow> ExecutionConfig \<Rightarrow> fdtab \<Rightarrow> fdtab" where
  "child_fds st ioPlan inFd config t0 =
     (let t4 = closeNumberedPipesInChild st (child_dups ioPlan inFd t0);
          t5 = closeExtraFdsInChild (closeInChild config) t4;
          t6 = fd_close t5 (readFd (ordinaryPipe ioPlan));
          t7 = fd_close t6 (writeFd (ordinaryPipe ioPlan));
          t8 = fd_close t7 (redirectFd ioPlan);
          t9 = closeDuplicatedFd inFd t8;
          t10 = closeDuplicatedFd (outFd ioPlan) t9
      in if errFd ioPlan \<noteq> outFd ioPlan then closeDuplicatedFd (errFd ioPlan) t10 else t10)"

text \<open>
  What \<open>fork\<close> and \<open>runChildProcess\<close> leave behind in the world: the new process, and the message
  it writes when \<open>execvp\<close> returns.
\<close>

definition runChildProcess ::
  "nat \<Rightarrow> Command \<Rightarrow> ShellState \<Rightarrow> ReusableIoPlan \<Rightarrow> fd \<Rightarrow> ExecutionConfig \<Rightarrow> os \<Rightarrow> os" where
  "runChildProcess childPid command st ioPlan inFd config s =
     (let t = child_fds st ioPlan inFd config (fdt s);
          e = applyChildEnvironment st;
          name = hd (argv command);
          s1 = s\<lparr>procs := procs s @ [\<lparr>pid = childPid, p_argv = argv command, p_env = e, p_fds = t\<rparr>]\<rparr>
      in if execable s e name then s1
         else (case fd_get t STDERR of
                 None \<Rightarrow> s1
               | Some f \<Rightarrow> s1\<lparr>written := written s1 @ [(f, ''Unknown command: ['' @ name @ ''].'' @ [NL])]\<rparr>))"

definition closeParentIo :: "ReusableIoPlan \<Rightarrow> os \<Rightarrow> os" where
  "closeParentIo ioPlan s =
     snd (closeFd (redirectFd ioPlan) (snd (closeFd (writeFd (ordinaryPipe ioPlan)) s)))"

section \<open>A line of external commands\<close>

text \<open>The variables of the loop of \<open>executeExternalCommands\<close>.\<close>

record exec_state =
  shell :: ShellState
  inFd :: fd
  waitList :: "nat list"
  backgroundList :: "nat list"
  sys :: os

definition exec_step ::
  "Command list \<Rightarrow> LinePlan \<Rightarrow> bool list \<Rightarrow> ExecutionConfig \<Rightarrow> nat \<Rightarrow> exec_state \<Rightarrow> exec_state result" where
  "exec_step commands linePlan waitable config i x =
     (let command = commands ! i
      in if argv command = [] then Inr x
         else
           (let segmentIndex = commandSegments linePlan ! i;
                (st1, in1, s1) =
                  (if segmentStarts linePlan ! i
                   then attachIncomingNumberedPipe (shell x) segmentIndex (inFd x) (sys x)
                   else (shell x, inFd x, sys x))
            in bindR (prepareIoPlan command st1 segmentIndex emptyIoPlan in1 config
                        (i = 0) (i + 1 = length commands) s1)
                 (\<lambda>(run, st2, ioPlan, in2, s2).
                   if \<not> run then Inr (x\<lparr>shell := st2, inFd := in2, sys := s2\<rparr>)
                   else
                     bindR (forkOrReapUntilSuccess s2) (\<lambda>(childPid, s3).
                       (let s4 = runChildProcess childPid command st2 ioPlan in2 config s3;
                            s5 = snd (closeFd in2 s4);
                            s6 = closeParentIo ioPlan s5
                        in Inr \<lparr>shell = st2, inFd = nextInFd ioPlan,
                                waitList = (if waitable ! i then waitList x @ [childPid] else waitList x),
                                backgroundList = (if waitable ! i then backgroundList x
                                                  else backgroundList x @ [childPid]),
                                sys = s6\<rparr>)))))"

fun exec_loop ::
  "Command list \<Rightarrow> LinePlan \<Rightarrow> bool list \<Rightarrow> ExecutionConfig \<Rightarrow> nat list \<Rightarrow> exec_state \<Rightarrow> exec_state result" where
  "exec_loop commands linePlan waitable config [] x = Inr x"
| "exec_loop commands linePlan waitable config (i # is) x =
     bindR (exec_step commands linePlan waitable config i x)
       (exec_loop commands linePlan waitable config is)"

definition executeExternalCommands ::
  "Command list \<Rightarrow> ShellState \<Rightarrow> ExecutionConfig \<Rightarrow> os \<Rightarrow> (ShellState \<times> os) result" where
  "executeExternalCommands commands st config s =
     (let linePlan = buildLinePlan commands st;
          waitable = buildWaitability commands;
          x0 = \<lparr>shell = st, inFd = -1, waitList = [], backgroundList = [], sys = s\<rparr>
      in bindR (exec_loop commands linePlan waitable config [0..<length commands] x0) (\<lambda>x.
           (let s1 = snd (closeFd (inFd x) (sys x));
                s2 = s1\<lparr>waited := waited s1 @ waitList x\<rparr>
            in bindR (graceReap (backgroundList x) s2) (\<lambda>s3.
                 Inr ((shell x)\<lparr>executedSegments := executedSegments (shell x) + segmentCount linePlan\<rparr>,
                      s3)))))"

end
