(* ===== verification/Shell_Fds.thy ===== *)
theory Shell_Fds
  imports Shell_Engine
begin

text \<open>
  Who owns which descriptor while a line runs. \<open>shell_inv B st f s\<close> says that the open descriptors
  of the process are the base set \<open>B\<close> (everything the shell does not manage), the two ends of every
  numbered pipe and the descriptor \<open>f\<close> waiting to become the next command's standard input, with no
  overlap, and that each numbered pipe holds the two ends of one pipe. The lemmas move ownership
  between these parts; the lemmas about operations are compositions of them.
\<close>

section \<open>The invariant\<close>

definition ends :: "PipeFD \<Rightarrow> fd set" where
  "ends p = {readFd p, writeFd p}"

definition pipe_fds :: "ShellState \<Rightarrow> fd set" where
  "pipe_fds st = (\<Union>e \<in> set (numberedPipes st). ends (snd e))"

definition held :: "fd \<Rightarrow> fd set" where
  "held fd = (if fd < 0 then {} else {fd})"

definition is_pipe :: "os \<Rightarrow> PipeFD \<Rightarrow> bool" where
  "is_pipe s p \<longleftrightarrow>
     (\<exists>q. fd_get (fdt s) (readFd p) = Some (PipeR q) \<and> fd_get (fdt s) (writeFd p) = Some (PipeW q))"

definition shell_inv :: "fd set \<Rightarrow> ShellState \<Rightarrow> fd \<Rightarrow> os \<Rightarrow> bool" where
  "shell_inv B st f s \<longleftrightarrow>
     map_wf (numberedPipes st) \<and>
     (\<forall>e \<in> set (numberedPipes st). is_pipe s (snd e)) \<and>
     (\<forall>e \<in> set (numberedPipes st). \<forall>e' \<in> set (numberedPipes st).
        e \<noteq> e' \<longrightarrow> ends (snd e) \<inter> ends (snd e') = {}) \<and>
     open_fds s = B \<union> pipe_fds st \<union> held f \<and>
     B \<inter> pipe_fds st = {} \<and> held f \<inter> (B \<union> pipe_fds st) = {}"

lemma open_fds_nonneg: "fd \<in> open_fds s \<Longrightarrow> 0 \<le> fd"
  by (auto simp: open_fds_def dest: fdt.open_is_nonneg)

lemma is_pipe_open: "is_pipe s p \<Longrightarrow> ends p \<subseteq> open_fds s"
  by (auto simp: is_pipe_def ends_def open_fds_def)

lemma is_pipe_distinct: "is_pipe s p \<Longrightarrow> readFd p \<noteq> writeFd p \<and> 0 \<le> readFd p \<and> 0 \<le> writeFd p"
  by (auto simp: is_pipe_def dest: fdt.open_is_nonneg)

lemma is_pipe_cong:
  "is_pipe s p \<Longrightarrow> \<forall>x \<in> ends p. fd_get (fdt s') x = fd_get (fdt s) x \<Longrightarrow> is_pipe s' p"
  by (auto simp: is_pipe_def ends_def)

lemma held_simps [simp]: "held (-1) = {}" "0 \<le> f \<Longrightarrow> held f = {f}"
  by (simp_all add: held_def)

lemma shell_inv_fdt: "fdt s' = fdt s \<Longrightarrow> shell_inv B st f s' = shell_inv B st f s"
  by (simp add: shell_inv_def is_pipe_def open_fds_def)

lemma shell_inv_shell:
  "numberedPipes st' = numberedPipes st \<Longrightarrow> shell_inv B st' f s = shell_inv B st f s"
  by (simp add: shell_inv_def pipe_fds_def)

lemma shell_inv_sets:
  assumes "shell_inv B st f s"
  shows "map_wf (numberedPipes st)"
    and "open_fds s = B \<union> pipe_fds st \<union> held f"
    and "x \<in> B \<Longrightarrow> x \<notin> pipe_fds st" and "x \<in> held f \<Longrightarrow> x \<notin> B" and "x \<in> held f \<Longrightarrow> x \<notin> pipe_fds st"
    and "e \<in> set (numberedPipes st) \<Longrightarrow> is_pipe s (snd e)"
    and "e \<in> set (numberedPipes st) \<Longrightarrow> e' \<in> set (numberedPipes st) \<Longrightarrow> e \<noteq> e' \<Longrightarrow>
           ends (snd e) \<inter> ends (snd e') = {}"
  using assms unfolding shell_inv_def by blast+

lemma shell_invI:
  assumes "shell_inv B st f s"
    and "open_fds s' = B' \<union> pipe_fds st \<union> held f'"
    and "\<And>x. x \<in> B' \<Longrightarrow> x \<notin> pipe_fds st"
    and "\<And>x. x \<in> held f' \<Longrightarrow> x \<notin> B' \<and> x \<notin> pipe_fds st"
    and "\<And>x. x \<in> pipe_fds st \<Longrightarrow> fd_get (fdt s') x = fd_get (fdt s) x"
  shows "shell_inv B' st f' s'"
proof -
  have "is_pipe s' (snd e)" if "e \<in> set (numberedPipes st)" for e
  proof (rule is_pipe_cong)
    show "is_pipe s (snd e)" using shell_inv_sets(6) [OF assms(1) that] .
    show "\<forall>x \<in> ends (snd e). fd_get (fdt s') x = fd_get (fdt s) x"
      using assms(5) that by (auto simp: pipe_fds_def)
  qed
  moreover have "B' \<inter> pipe_fds st = {}" "held f' \<inter> (B' \<union> pipe_fds st) = {}"
    using assms(3,4) by blast+
  ultimately show ?thesis
    using assms(2) shell_inv_sets(1,7) [OF assms(1)] unfolding shell_inv_def by blast
qed

lemma closeFd_open:
  "open_fds (snd (closeFd x s)) = open_fds s - held x"
  "fd_get (fdt (snd (closeFd x s))) y = (if y \<in> held x then None else fd_get (fdt s) y)"
  by (auto simp: closeFd_def held_def os_simps)

lemma closeFd_rest [simp]:
  "nextPipe (snd (closeFd x s)) = nextPipe s" "procs (snd (closeFd x s)) = procs s"
  "nofile (snd (closeFd x s)) = nofile s" "written (snd (closeFd x s)) = written s"
  "fst (closeFd x s) = (if x \<ge> 0 then -1 else x)"
  by (simp_all add: closeFd_def os_simps)

lemma shell_inv_held: "held f = held f' \<Longrightarrow> shell_inv B st f s = shell_inv B st f' s"
  by (simp add: shell_inv_def)

section \<open>Moving ownership\<close>

lemma inv_close_in:
  assumes I: "shell_inv B st f s"
  shows "shell_inv B st (-1) (snd (closeFd f s))"
  by (rule shell_invI [OF I]) (use shell_inv_sets [OF I] in \<open>auto simp: closeFd_open\<close>)

lemma inv_close_base:
  assumes I: "shell_inv B st f s" and "held x \<subseteq> B"
  shows "shell_inv (B - held x) st f (snd (closeFd x s))"
  by (rule shell_invI [OF I]) (use assms(2) shell_inv_sets [OF I] in \<open>auto simp: closeFd_open\<close>)

lemma inv_take_in:
  assumes I: "shell_inv (B \<union> held x) st (-1) s" and "B \<inter> held x = {}"
  shows "shell_inv B st x s"
  by (rule shell_invI [OF I]) (use assms(2) shell_inv_sets [OF I] in auto)

lemma inv_release_in:
  assumes I: "shell_inv B st x s"
  shows "shell_inv (B \<union> held x) st (-1) s"
  by (rule shell_invI [OF I]) (use shell_inv_sets [OF I] in auto)

lemma inv_open_base:
  assumes I: "shell_inv B st f s" and "open_fds s' = X \<union> open_fds s" and "X \<inter> open_fds s = {}"
    and "\<And>x. x \<in> open_fds s \<Longrightarrow> fd_get (fdt s') x = fd_get (fdt s) x"
  shows "shell_inv (B \<union> X) st f s'"
  by (rule shell_invI [OF I]) (use assms(2-4) shell_inv_sets [OF I] in auto)

lemma pipe_fds_insert:
  "map_wf (numberedPipes st) \<Longrightarrow> map_of (numberedPipes st) k = None \<Longrightarrow>
     pipe_fds (st\<lparr>numberedPipes := map_insert k p (numberedPipes st)\<rparr>) = ends p \<union> pipe_fds st"
  by (simp add: pipe_fds_def set_map_insert_fresh)

lemma inv_add_pipe:
  assumes I: "shell_inv (B \<union> ends p) st f s" and B: "B \<inter> ends p = {}" and p: "is_pipe s p"
    and k: "map_of (numberedPipes st) k = None"
  shows "shell_inv B (st\<lparr>numberedPipes := map_insert k p (numberedPipes st)\<rparr>) f s"
proof -
  let ?m = "numberedPipes st" and ?st = "st\<lparr>numberedPipes := map_insert k p (numberedPipes st)\<rparr>"
  note sets = shell_inv_sets [OF I]
  have fds: "pipe_fds ?st = ends p \<union> pipe_fds st"
    using sets(1) k by (rule pipe_fds_insert)
  have old: "ends (snd e) \<inter> ends p = {}" if "e \<in> set ?m" for e
    using that sets(3) unfolding pipe_fds_def by blast
  have m: "set (numberedPipes ?st) = insert (k, p) (set ?m)"
    using set_map_insert_fresh [OF sets(1) k] by simp
  have "\<forall>e \<in> set (numberedPipes ?st). is_pipe s (snd e)"
    unfolding m using sets(6) p by simp
  moreover have "\<forall>e \<in> set (numberedPipes ?st). \<forall>e' \<in> set (numberedPipes ?st).
      e \<noteq> e' \<longrightarrow> ends (snd e) \<inter> ends (snd e') = {}"
    unfolding m using sets(7) old by (auto simp: Int_commute)
  moreover have "open_fds s = B \<union> pipe_fds ?st \<union> held f"
    unfolding fds using sets(2) by blast
  moreover have "B \<inter> pipe_fds ?st = {}" "held f \<inter> (B \<union> pipe_fds ?st) = {}"
    unfolding fds using sets(3-5) B by blast+
  moreover have "map_wf (numberedPipes ?st)" using sets(1) by (simp add: map_wf_insert)
  ultimately show ?thesis unfolding shell_inv_def by blast
qed

lemma inv_drop_pipe:
  assumes I: "shell_inv B st f s" and k: "map_of (numberedPipes st) k = Some p"
  shows "shell_inv (B \<union> ends p) (st\<lparr>numberedPipes := map_erase k (numberedPipes st)\<rparr>) f s"
    and "B \<inter> ends p = {}" and "held f \<inter> ends p = {}" and "is_pipe s p"
proof -
  let ?m = "numberedPipes st" and ?st = "st\<lparr>numberedPipes := map_erase k (numberedPipes st)\<rparr>"
  note sets = shell_inv_sets [OF I]
  note m = set_map_erase [OF sets(1) k]
  have m': "set (numberedPipes ?st) = set ?m - {(k, p)}" using m(1) by simp
  show p: "is_pipe s p" using sets(6) [OF m(2)] by simp
  have fds: "pipe_fds st = ends p \<union> pipe_fds ?st"
    unfolding pipe_fds_def m' using m(2) by force
  have disj: "ends p \<inter> pipe_fds ?st = {}"
    unfolding pipe_fds_def m' using sets(7) [OF m(2)] by fastforce
  show "B \<inter> ends p = {}" "held f \<inter> ends p = {}" using sets(3,5) fds by blast+
  have "\<forall>e \<in> set (numberedPipes ?st). is_pipe s (snd e)"
    "\<forall>e \<in> set (numberedPipes ?st). \<forall>e' \<in> set (numberedPipes ?st).
      e \<noteq> e' \<longrightarrow> ends (snd e) \<inter> ends (snd e') = {}"
    unfolding m' using sets(6,7) by simp_all
  moreover have "map_wf (numberedPipes ?st)" using sets(1) by (simp add: map_wf_erase)
  moreover have "open_fds s = (B \<union> ends p) \<union> pipe_fds ?st \<union> held f"
    "(B \<union> ends p) \<inter> pipe_fds ?st = {}" "held f \<inter> ((B \<union> ends p) \<union> pipe_fds ?st) = {}"
    using sets(2-5) fds disj by blast+
  ultimately show "shell_inv (B \<union> ends p) ?st f s" unfolding shell_inv_def by blast
qed

section \<open>Operations on numbered pipes\<close>

lemma held_ends: "is_pipe s p \<Longrightarrow> held (readFd p) \<union> held (writeFd p) = ends p"
  using is_pipe_distinct [of s p] by (auto simp: ends_def)

lemma closePipe_sys: "snd (closePipe p s) = snd (closeFd (writeFd p) (snd (closeFd (readFd p) s)))"
  by (simp add: closePipe_def split: prod.split)

lemma inv_close_pipe:
  assumes I: "shell_inv (B \<union> held r \<union> held w) st f s"
    and B: "B \<inter> held r = {}" "B \<inter> held w = {}"
  shows "shell_inv B st f (snd (closeFd w (snd (closeFd r s))))"
  by (rule shell_invI [OF I]) (use B shell_inv_sets [OF I] in \<open>auto simp: closeFd_open\<close>)

lemma inv_discard:
  assumes I: "shell_inv B st f s" and d: "discardIncomingPipe st k s = (st', s')"
  shows "shell_inv B st' f s'"
proof (cases "map_of (numberedPipes st) k")
  case None
  with assms show ?thesis by (simp add: discardIncomingPipe_def)
next
  case (Some p)
  note drop = inv_drop_pipe [OF I Some]
  have st': "st' = st\<lparr>numberedPipes := map_erase k (numberedPipes st)\<rparr>"
    and s': "s' = snd (closeFd (writeFd p) (snd (closeFd (readFd p) s)))"
    using d Some by (simp_all add: discardIncomingPipe_def closePipe_sys [symmetric] split: prod.splits)
  have "shell_inv (B \<union> held (readFd p) \<union> held (writeFd p)) st' f s"
    using drop(1) held_ends [OF drop(4)] by (simp add: st' Un_assoc)
  then show ?thesis
    unfolding s' using drop(2) held_ends [OF drop(4)] by (intro inv_close_pipe) blast+
qed

lemma discard_state:
  assumes "discardIncomingPipe st k s = (st', s')"
  shows "executedSegments st' = executedSegments st" and "env st' = env st"
    and "map_of (numberedPipes st') = (map_of (numberedPipes st))(k := None)"
  using assms
  by (auto simp: discardIncomingPipe_def map_of_erase fun_eq_iff split: option.splits prod.splits)

lemma attach_cases:
  assumes "attachIncomingNumberedPipe st k f s = (st', f', s')"
  obtains "map_of (numberedPipes st) k = None" and "st' = st" and "f' = f" and "s' = s"
  | p where "map_of (numberedPipes st) k = Some p" and "f < 0" and "f' = readFd p"
      and "s' = snd (closeFd (writeFd p) s)"
      and "st' = st\<lparr>numberedPipes := map_erase k (numberedPipes st)\<rparr>"
  | p where "map_of (numberedPipes st) k = Some p" and "0 \<le> f" and "f' = f"
      and "s' = snd (closeFd (writeFd p) (if f \<noteq> readFd p then snd (closeFd (readFd p) s) else s))"
      and "st' = st\<lparr>numberedPipes := map_erase k (numberedPipes st)\<rparr>"
  using assms
  by (cases "map_of (numberedPipes st) k"; cases "f < 0")
    (auto simp: attachIncomingNumberedPipe_def split: if_splits)

lemma inv_attach:
  assumes I: "shell_inv B st f s" and a: "attachIncomingNumberedPipe st k f s = (st', f', s')"
  shows "shell_inv B st' f' s'"
  using a
proof (cases rule: attach_cases)
  case 1
  with I show ?thesis by simp
next
  case (2 p)
  note drop = inv_drop_pipe [OF I 2(1)]
  have f: "held f = {}" using 2(2) by (simp add: held_def)
  have rw: "readFd p \<noteq> writeFd p" "0 \<le> readFd p" "0 \<le> writeFd p"
    using is_pipe_distinct [OF drop(4)] by simp_all
  have "shell_inv ((B \<union> ends p) - held (writeFd p)) st' f s'"
    unfolding 2(4,5) using drop(1) by (rule inv_close_base) (simp add: rw ends_def)
  moreover have "(B \<union> ends p) - held (writeFd p) = B \<union> held (readFd p)"
    using rw drop(2) by (auto simp: ends_def)
  ultimately have J: "shell_inv (B \<union> held (readFd p)) st' f s'" by simp
  have "shell_inv (B \<union> held (readFd p)) st' (-1) s'"
    using inv_release_in [OF J] f by simp
  then show ?thesis
    unfolding 2(3) by (rule inv_take_in) (use drop(2) rw in \<open>auto simp: ends_def\<close>)
next
  case (3 p)
  note drop = inv_drop_pipe [OF I 3(1)]
  have "f \<noteq> readFd p" using drop(3) 3(2) by (auto simp: ends_def)
  then have s': "s' = snd (closeFd (writeFd p) (snd (closeFd (readFd p) s)))" using 3(4) by simp
  have "shell_inv (B \<union> held (readFd p) \<union> held (writeFd p)) st' f s"
    using drop(1) held_ends [OF drop(4)] by (simp add: 3(5) Un_assoc)
  then show ?thesis
    unfolding s' 3(3) using drop(2) held_ends [OF drop(4)] by (intro inv_close_pipe) blast+
qed

lemma attach_state:
  assumes "attachIncomingNumberedPipe st k f s = (st', f', s')"
  shows "executedSegments st' = executedSegments st" and "env st' = env st"
    and "map_of (numberedPipes st') = (map_of (numberedPipes st))(k := None)"
    and "nextPipe s' = nextPipe s" and "procs s' = procs s"
    and "0 \<le> f \<Longrightarrow> f' = f"
proof -
  have same: "(map_of m)(k := None) = map_of m" if "map_of m k = None" for m :: "(int \<times> PipeFD) list"
    using that by auto
  show "executedSegments st' = executedSegments st" using assms by (cases rule: attach_cases) simp_all
  show "env st' = env st" using assms by (cases rule: attach_cases) simp_all
  show "map_of (numberedPipes st') = (map_of (numberedPipes st))(k := None)"
    using assms by (cases rule: attach_cases) (simp_all add: map_of_erase same)
  show "nextPipe s' = nextPipe s" using assms by (cases rule: attach_cases) simp_all
  show "procs s' = procs s" using assms by (cases rule: attach_cases) simp_all
  show "0 \<le> f \<Longrightarrow> f' = f" using assms by (cases rule: attach_cases) simp_all
qed

section \<open>Preparing a command\<close>

lemma createPipe_facts:
  assumes "createPipeOrDie s = Inr (p, s')"
  shows "fd_get (fdt s') (readFd p) = Some (PipeR (nextPipe s))"
    and "fd_get (fdt s') (writeFd p) = Some (PipeW (nextPipe s))"
    and "is_pipe s' p"
    and "ends p \<inter> open_fds s = {}" and "open_fds s' = ends p \<union> open_fds s"
    and "x \<in> open_fds s \<Longrightarrow> fd_get (fdt s') x = fd_get (fdt s) x"
    and "nextPipe s' = Suc (nextPipe s)" and "procs s' = procs s"
    and "0 \<le> readFd p" and "readFd p < writeFd p"
proof -
  obtain r w where pipe: "sys_pipe s = Some ((r, w), s')" and p: "p = \<lparr>readFd = r, writeFd = w\<rparr>"
    using assms by (auto simp: createPipeOrDie_def split: option.splits)
  note f = sys_pipe_fds [OF pipe]
  show get: "fd_get (fdt s') (readFd p) = Some (PipeR (nextPipe s))"
    "fd_get (fdt s') (writeFd p) = Some (PipeW (nextPipe s))"
    using f(4) by (simp_all add: p f(6))
  then show "is_pipe s' p" by (simp add: is_pipe_def)
  show "ends p \<inter> open_fds s = {}" "open_fds s' = ends p \<union> open_fds s"
    using f(1,2,5) by (simp_all add: p ends_def)
  show "x \<in> open_fds s \<Longrightarrow> fd_get (fdt s') x = fd_get (fdt s) x"
    using f(1,2) by (auto simp: f(6))
  show "nextPipe s' = Suc (nextPipe s)" "procs s' = procs s" "0 \<le> readFd p" "readFd p < writeFd p"
    using f by (simp_all add: p)
qed

lemma inv_create:
  assumes I: "shell_inv B st f s" and c: "createPipeOrDie s = Inr (p, s')"
  shows "shell_inv (B \<union> ends p) st f s'" and "B \<inter> ends p = {}"
    and "held (readFd p) \<union> held (writeFd p) = ends p" and "held (readFd p) \<inter> held (writeFd p) = {}"
proof -
  note p = createPipe_facts [OF c]
  show "shell_inv (B \<union> ends p) st f s'" using I p(5,4,6) by (rule inv_open_base)
  show "B \<inter> ends p = {}" using p(4) shell_inv_sets(2) [OF I] by blast
  show "held (readFd p) \<union> held (writeFd p) = ends p" by (rule held_ends [OF p(3)])
  show "held (readFd p) \<inter> held (writeFd p) = {}" using p(9,10) by (auto simp: held_def)
qed

abbreviation configured :: "ExecutionConfig \<Rightarrow> ReusableIoPlan" where
  "configured cfg \<equiv> emptyIoPlan\<lparr>outFd := outputFd cfg, errFd := errorFd cfg\<rparr>"

definition take_input :: "ExecutionConfig \<Rightarrow> bool \<Rightarrow> fd \<Rightarrow> os \<Rightarrow> fd \<times> os" where
  "take_input cfg first f s =
     (if first \<and> inputFd cfg \<ge> 0 then (inputFd cfg, snd (closeFd f s)) else (f, s))"

abbreviation forced :: "ExecutionConfig \<Rightarrow> bool \<Rightarrow> bool" where
  "forced cfg lst \<equiv> lst \<and> forceLastOutput cfg \<and> outputFd cfg \<ge> 0"

lemma prepare_cases:
  assumes "prepareIoPlan c st seg emptyIoPlan f cfg first lst s = Inr (run, st', io, f', s')"
    and "take_input cfg first f s = (f1, s1)"
  obtains (forced) "forced cfg lst" and "run" and "st' = st" and "io = configured cfg"
      and "f' = f1" and "s' = s1"
  | (no_target) fd s2 where "\<not> forced cfg lst" and "redirectStdout c" and "\<not> run" and "st' = st"
      and "sys_open (redirectFile c) (RegFile (redirectFile c)) s1 = (fd, s2)" and "fd < 0"
      and "io = (configured cfg)\<lparr>redirectFd := fd\<rparr>"
      and "f' = fst (closeFd f1 s2)" and "s' = snd (closeFd f1 s2)"
  | (redirect) fd where "\<not> forced cfg lst" and "redirectStdout c" and "run" and "st' = st"
      and "sys_open (redirectFile c) (RegFile (redirectFile c)) s1 = (fd, s')" and "0 \<le> fd"
      and "io = (configured cfg)\<lparr>redirectFd := fd, outFd := fd\<rparr>" and "f' = f1"
  | (ordinary) p where "\<not> forced cfg lst" and "\<not> redirectStdout c" and "nextType c = ORDINARY_PIPE"
      and "run" and "st' = st" and "createPipeOrDie s1 = Inr (p, s')" and "f' = f1"
      and "io = (configured cfg)\<lparr>ordinaryPipe := p, outFd := writeFd p, nextInFd := readFd p\<rparr>"
  | (plain) "\<not> forced cfg lst" and "\<not> redirectStdout c" and "nextType c = NONE" and "run"
      and "st' = st" and "io = configured cfg" and "f' = f1" and "s' = s1"
  | (numbered) p q where "\<not> forced cfg lst" and "\<not> redirectStdout c" and "isNumberPipeType (nextType c)"
      and "run" and "f' = f1"
      and "q = (case map_of (numberedPipes st) (seg + nextCount c) of None \<Rightarrow> noPipe | Some p \<Rightarrow> p)"
      and "(if readFd q < 0 \<and> writeFd q < 0 then createPipeOrDie s1 else Inr (q, s1)) = Inr (p, s')"
      and "st' = st\<lparr>numberedPipes := map_insert (seg + nextCount c) p (numberedPipes st)\<rparr>"
      and "io = (configured cfg)\<lparr>outFd := writeFd p,
             errFd := if nextType c = NUMBER_PIPE_BOTH then writeFd p else errorFd cfg\<rparr>"
proof -
  note unf = assms(1) [unfolded prepareIoPlan_def Let_def, folded take_input_def, unfolded assms(2) prod.case]
  consider "forced cfg lst" | "\<not> forced cfg lst" "redirectStdout c"
    | "\<not> forced cfg lst" "\<not> redirectStdout c" "nextType c = ORDINARY_PIPE"
    | "\<not> forced cfg lst" "\<not> redirectStdout c" "nextType c = NONE"
    | "\<not> forced cfg lst" "\<not> redirectStdout c" "isNumberPipeType (nextType c)"
    by (cases "nextType c") (auto simp: isNumberPipeType_def)
  then show thesis
  proof cases
    case 1
    then show thesis using unf by (intro that(1)) auto
  next
    case 2
    obtain fd s2 where o: "sys_open (redirectFile c) (RegFile (redirectFile c)) s1 = (fd, s2)"
      by fastforce
    show thesis
    proof (cases "fd < 0")
      case True
      then show thesis using unf 2 o by (intro that(2) [of fd s2]) (auto split: prod.splits)
    next
      case False
      then show thesis using unf 2 o by (intro that(3) [of fd]) auto
    qed
  next
    case 3
    from unf 3 obtain p where "createPipeOrDie s1 = Inr (p, s')" "run" "st' = st" "f' = f1"
      "io = (configured cfg)\<lparr>ordinaryPipe := p, outFd := writeFd p, nextInFd := readFd p\<rparr>"
      by auto
    with 3 show thesis by (intro that(4)) auto
  next
    case 4
    then show thesis using unf by (intro that(5)) (auto simp: isNumberPipeType_def)
  next
    case 5
    then have ne: "nextType c \<noteq> ORDINARY_PIPE" by (auto simp: isNumberPipeType_def)
    define q where "q = (case map_of (numberedPipes st) (seg + nextCount c) of None \<Rightarrow> noPipe | Some p \<Rightarrow> p)"
    from unf 5 ne obtain p where
      "(if readFd q < 0 \<and> writeFd q < 0 then createPipeOrDie s1 else Inr (q, s1)) = Inr (p, s')"
      "run" "f' = f1" "st' = st\<lparr>numberedPipes := map_insert (seg + nextCount c) p (numberedPipes st)\<rparr>"
      "io = (configured cfg)\<lparr>outFd := writeFd p,
             errFd := if nextType c = NUMBER_PIPE_BOTH then writeFd p else errorFd cfg\<rparr>"
      unfolding q_def [symmetric] by (auto simp: isNumberPipeType_def emptyIoPlan_def)
    with 5 q_def show thesis by (intro that(6)) auto
  qed
qed

text \<open>The descriptors a prepared command owns beside its standard input.\<close>

definition own :: "ReusableIoPlan \<Rightarrow> fd set" where
  "own io = held (readFd (ordinaryPipe io)) \<union> held (writeFd (ordinaryPipe io)) \<union> held (redirectFd io)"

definition io_ok :: "fd set \<Rightarrow> ReusableIoPlan \<Rightarrow> bool" where
  "io_ok B io \<longleftrightarrow> B \<inter> own io = {} \<and> nextInFd io = readFd (ordinaryPipe io) \<and>
     held (readFd (ordinaryPipe io)) \<inter> (held (writeFd (ordinaryPipe io)) \<union> held (redirectFd io)) = {}"

definition input_fds :: "ExecutionConfig \<Rightarrow> bool \<Rightarrow> fd set" where
  "input_fds cfg first = (if first then held (inputFd cfg) else {})"

lemma inv_take_input:
  assumes I: "shell_inv (B \<union> input_fds cfg first) st f s" and B: "B \<inter> input_fds cfg first = {}"
    and t: "take_input cfg first f s = (f1, s1)"
  shows "shell_inv B st f1 s1"
proof (cases "first \<and> inputFd cfg \<ge> 0")
  case True
  then have "shell_inv (B \<union> held (inputFd cfg)) st (-1) (snd (closeFd f s))"
    using inv_close_in [OF I] by (simp add: input_fds_def)
  then show ?thesis
    using True B t by (auto simp: take_input_def input_fds_def intro: inv_take_in)
next
  case False
  then have "input_fds cfg first = {}" by (auto simp: input_fds_def held_def)
  with False I t show ?thesis by (auto simp: take_input_def)
qed

lemma own_configured [simp]: "own (emptyIoPlan\<lparr>outFd := a, errFd := b\<rparr>) = {}"
  by (simp add: own_def emptyIoPlan_def noPipe_def)

lemma prepare_inv:
  assumes I: "shell_inv (B \<union> input_fds cfg first) st f s" and B: "B \<inter> input_fds cfg first = {}"
    and p: "prepareIoPlan c st seg emptyIoPlan f cfg first lst s = Inr (run, st', io, f', s')"
  shows "shell_inv (B \<union> own io) st' f' s'" and "io_ok B io" and "\<not> run \<Longrightarrow> own io = {} \<and> f' < 0"
proof -
  obtain f1 s1 where t: "take_input cfg first f s = (f1, s1)" by fastforce
  have J: "shell_inv B st f1 s1" using I B t by (rule inv_take_input)
  have ok0: "io_ok B (configured cfg)" "io_ok B ((configured cfg)\<lparr>outFd := a, errFd := b\<rparr>)" for a b
    by (simp_all add: io_ok_def own_def emptyIoPlan_def noPipe_def)
  have "shell_inv (B \<union> own io) st' f' s' \<and> io_ok B io \<and> (\<not> run \<longrightarrow> own io = {} \<and> f' < 0)"
    using p t
  proof (cases rule: prepare_cases)
    case forced
    with J ok0 show ?thesis by simp
  next
    case (no_target fd s2)
    have "s2 = s1" using sys_open_fail no_target(5,6) by blast
    then have "shell_inv B st (-1) s'" using inv_close_in [OF J] no_target(9) by simp
    moreover have "held fd = {}" using no_target(6) by (simp add: held_def)
    moreover have neg: "f' < 0" using no_target(8) by (auto split: if_splits)
    ultimately have "shell_inv B st f' s'" using shell_inv_held [of f' "-1"] by (simp add: held_def)
    with neg \<open>held fd = {}\<close> show ?thesis using no_target ok0 by (auto simp: io_ok_def own_def emptyIoPlan_def noPipe_def)
  next
    case (redirect fd)
    note o = sys_open_fds [OF redirect(5,6)]
    have "shell_inv (B \<union> held fd) st f1 s'"
      by (rule inv_open_base [OF J]) (use o redirect(6) in auto)
    moreover have "B \<inter> held fd = {}" using o(1) redirect(6) shell_inv_sets(2) [OF J] by auto
    ultimately show ?thesis using redirect by (simp add: io_ok_def own_def emptyIoPlan_def noPipe_def)
  next
    case (ordinary p)
    note i = inv_create [OF J ordinary(6)]
    have "held (redirectFd emptyIoPlan) = {}" by (simp add: emptyIoPlan_def)
    with i ordinary show ?thesis by (simp add: io_ok_def own_def)
  next
    case plain
    with J ok0 show ?thesis by simp
  next
    case (numbered p q)
    have wf: "map_wf (numberedPipes st)" using shell_inv_sets(1) [OF J] .
    have "shell_inv B st' f1 s'"
    proof (cases "map_of (numberedPipes st) (seg + nextCount c)")
      case None
      then have c: "createPipeOrDie s1 = Inr (p, s')" using numbered(6,7) by (simp add: noPipe_def)
      note i = inv_create [OF J c]
      show ?thesis unfolding numbered(8)
        using i(1,2) createPipe_facts(3) [OF c] None by (rule inv_add_pipe)
    next
      case (Some p')
      have "is_pipe s1 p'" using inv_drop_pipe(4) [OF J Some] .
      then have "p = p'" "s' = s1"
        using numbered(6,7) Some is_pipe_distinct [of s1 p'] by simp_all
      moreover have "st' = st"
        using map_insert_same [OF wf Some] by (simp add: numbered(8) \<open>p = p'\<close>)
      ultimately show ?thesis using J by simp
    qed
    with numbered ok0 show ?thesis by simp
  qed
  then show "shell_inv (B \<union> own io) st' f' s'" "io_ok B io" "\<not> run \<Longrightarrow> own io = {} \<and> f' < 0"
    by blast+
qed

lemma inv_finish_io:
  assumes I: "shell_inv (B \<union> own io) st f s" and ok: "io_ok B io"
  shows "shell_inv B st (nextInFd io) (closeParentIo io (snd (closeFd f s)))"
proof -
  let ?s = "snd (closeFd f s)"
  have J: "shell_inv (B \<union> own io) st (-1) ?s" using I by (rule inv_close_in)
  have "shell_inv (B \<union> held (readFd (ordinaryPipe io))) st (-1) (closeParentIo io ?s)"
    unfolding closeParentIo_def
    by (rule shell_invI [OF J])
      (use ok shell_inv_sets [OF J] in \<open>auto simp: closeFd_open own_def io_ok_def\<close>)
  moreover have "B \<inter> held (readFd (ordinaryPipe io)) = {}" using ok by (auto simp: io_ok_def own_def)
  ultimately show ?thesis using ok by (auto simp: io_ok_def intro: inv_take_in)
qed

section \<open>One command and one line\<close>

lemma fork_fdt:
  assumes "forkOrReapUntilSuccess s = Inr (p, s')"
  shows "fdt s' = fdt s" and "procs s' = procs s" and "execable s' = execable s"
    and "nextPipe s' = nextPipe s" and "written s' = written s"
  using assms by (auto simp: forkOrReapUntilSuccess_def)

lemma runChildProcess_fdt [simp]:
  "fdt (runChildProcess p c st io f cfg s) = fdt s"
  "nextPipe (runChildProcess p c st io f cfg s) = nextPipe s"
  "procs (runChildProcess p c st io f cfg s) = procs s @
     [\<lparr>pid = p, p_argv = argv c, p_env = applyChildEnvironment st,
       p_fds = child_fds st io f cfg (fdt s)\<rparr>]"
  by (simp_all add: runChildProcess_def Let_def split: option.split)

text \<open>The steps of one iteration, as facts.\<close>

lemma exec_step_cases:
  assumes "exec_step cs plan wt cfg i x = Inr x'"
  obtains (skipped) "argv (cs ! i) = []" and "x' = x"
  | (stopped) st1 f1 s1 st2 io f2 s2 where "argv (cs ! i) \<noteq> []"
      and "(if segmentStarts plan ! i
            then attachIncomingNumberedPipe (shell x) (commandSegments plan ! i) (inFd x) (sys x)
            else (shell x, inFd x, sys x)) = (st1, f1, s1)"
      and "prepareIoPlan (cs ! i) st1 (commandSegments plan ! i) emptyIoPlan f1 cfg (i = 0)
             (i + 1 = length cs) s1 = Inr (False, st2, io, f2, s2)"
      and "x' = x\<lparr>shell := st2, inFd := f2, sys := s2\<rparr>"
  | (ran) st1 f1 s1 st2 io f2 s2 p s3 where "argv (cs ! i) \<noteq> []"
      and "(if segmentStarts plan ! i
            then attachIncomingNumberedPipe (shell x) (commandSegments plan ! i) (inFd x) (sys x)
            else (shell x, inFd x, sys x)) = (st1, f1, s1)"
      and "prepareIoPlan (cs ! i) st1 (commandSegments plan ! i) emptyIoPlan f1 cfg (i = 0)
             (i + 1 = length cs) s1 = Inr (True, st2, io, f2, s2)"
      and "forkOrReapUntilSuccess s2 = Inr (p, s3)"
      and "x' = \<lparr>shell = st2, inFd = nextInFd io,
             waitList = (if wt ! i then waitList x @ [p] else waitList x),
             backgroundList = (if wt ! i then backgroundList x else backgroundList x @ [p]),
             sys = closeParentIo io (snd (closeFd f2 (runChildProcess p (cs ! i) st2 io f2 cfg s3)))\<rparr>"
proof (cases "argv (cs ! i) = []")
  case True
  with assms show thesis by (intro that(1)) (simp_all add: exec_step_def)
next
  case False
  obtain st1 f1 s1 where a: "(if segmentStarts plan ! i
            then attachIncomingNumberedPipe (shell x) (commandSegments plan ! i) (inFd x) (sys x)
            else (shell x, inFd x, sys x)) = (st1, f1, s1)"
    by (metis prod_cases3)
  from assms False a obtain run st2 io f2 s2 where
    p: "prepareIoPlan (cs ! i) st1 (commandSegments plan ! i) emptyIoPlan f1 cfg (i = 0)
          (i + 1 = length cs) s1 = Inr (run, st2, io, f2, s2)"
    and r: "(if \<not> run then Inr (x\<lparr>shell := st2, inFd := f2, sys := s2\<rparr>)
        else bindR (forkOrReapUntilSuccess s2) (\<lambda>(childPid, s3).
          (let s4 = runChildProcess childPid (cs ! i) st2 io f2 cfg s3;
               s5 = snd (closeFd f2 s4);
               s6 = closeParentIo io s5
           in Inr \<lparr>shell = st2, inFd = nextInFd io,
                   waitList = (if wt ! i then waitList x @ [childPid] else waitList x),
                   backgroundList = (if wt ! i then backgroundList x
                                     else backgroundList x @ [childPid]),
                   sys = s6\<rparr>))) = Inr x'"
    unfolding exec_step_def Let_def by (auto simp: Let_def)
  show thesis
  proof (cases run)
    case True
    with r obtain q s3 where "forkOrReapUntilSuccess s2 = Inr (q, s3)"
      and "x' = \<lparr>shell = st2, inFd = nextInFd io,
             waitList = (if wt ! i then waitList x @ [q] else waitList x),
             backgroundList = (if wt ! i then backgroundList x else backgroundList x @ [q]),
             sys = closeParentIo io (snd (closeFd f2 (runChildProcess q (cs ! i) st2 io f2 cfg s3)))\<rparr>"
      by (auto simp: Let_def)
    with that(3) False a p True show thesis by simp
  next
    case run: False
    with r that(2) False a p show thesis by simp
  qed
qed

lemma inv_attach_if:
  "shell_inv B st f s \<Longrightarrow>
     (if b then attachIncomingNumberedPipe st k f s else (st, f, s)) = (st1, f1, s1) \<Longrightarrow>
     shell_inv B st1 f1 s1"
  by (cases b) (auto intro: inv_attach)

lemma exec_step_inv:
  assumes I: "shell_inv (B \<union> input_fds cfg (i = 0)) (shell x) (inFd x) (sys x)"
    and B: "B \<inter> input_fds cfg (i = 0) = {}"
    and s: "exec_step cs plan wt cfg i x = Inr x'"
    and run: "argv (cs ! i) \<noteq> [] \<or> input_fds cfg (i = 0) = {}"
  shows "shell_inv B (shell x') (inFd x') (sys x')"
  using s
proof (cases rule: exec_step_cases)
  case skipped
  with I run show ?thesis by simp
next
  case (stopped st1 f1 s1 st2 io f2 s2)
  have "shell_inv (B \<union> input_fds cfg (i = 0)) st1 f1 s1"
    using I stopped(2) by (rule inv_attach_if)
  from prepare_inv [OF this B stopped(3)] show ?thesis by (simp add: stopped(4))
next
  case (ran st1 f1 s1 st2 io f2 s2 p s3)
  have "shell_inv (B \<union> input_fds cfg (i = 0)) st1 f1 s1"
    using I ran(2) by (rule inv_attach_if)
  note prep = prepare_inv [OF this B ran(3)]
  have "shell_inv (B \<union> own io) st2 f2 (runChildProcess p (cs ! i) st2 io f2 cfg s3)"
    using prep(1) shell_inv_fdt fork_fdt(1) [OF ran(4)] runChildProcess_fdt(1) by metis
  from inv_finish_io [OF this prep(2)] show ?thesis by (simp add: ran(5))
qed

lemma exec_loop_inv:
  assumes "shell_inv B (shell x) (inFd x) (sys x)" and "0 \<notin> set is"
    and "exec_loop cs plan wt cfg is x = Inr x'"
  shows "shell_inv B (shell x') (inFd x') (sys x')"
  using assms
proof (induction "is" arbitrary: x)
  case (Cons i "is")
  then obtain y where y: "exec_step cs plan wt cfg i x = Inr y" "exec_loop cs plan wt cfg is y = Inr x'"
    by auto
  have none: "input_fds cfg (i = 0) = {}" using Cons.prems(2) by (simp add: input_fds_def)
  have "shell_inv B (shell y) (inFd y) (sys y)"
    by (rule exec_step_inv [OF _ _ y(1)]) (use Cons.prems(1) none in simp_all)
  from Cons.IH [OF this _ y(2)] Cons.prems(2) show ?case by simp
qed simp

lemma graceReap_fdt: "graceReap ps s = Inr s' \<Longrightarrow> fdt s' = fdt s \<and> procs s' = procs s \<and> nextPipe s' = nextPipe s"
  by (auto simp: graceReap_def split: if_splits)

lemma executeExternalCommands_cases:
  assumes "executeExternalCommands cs st cfg s = Inr (st', s')"
  obtains x where "exec_loop cs (buildLinePlan cs st) (buildWaitability cs) cfg [0..<length cs]
        \<lparr>shell = st, inFd = -1, waitList = [], backgroundList = [], sys = s\<rparr> = Inr x"
    and "st' = (shell x)\<lparr>executedSegments := executedSegments (shell x)
                            + segmentCount (buildLinePlan cs st)\<rparr>"
    and "fdt s' = fdt (snd (closeFd (inFd x) (sys x)))" and "procs s' = procs (sys x)"
    and "nextPipe s' = nextPipe (sys x)"
proof -
  from assms obtain x s3 where x: "exec_loop cs (buildLinePlan cs st) (buildWaitability cs) cfg [0..<length cs]
        \<lparr>shell = st, inFd = -1, waitList = [], backgroundList = [], sys = s\<rparr> = Inr x"
    and g: "graceReap (backgroundList x)
        ((snd (closeFd (inFd x) (sys x)))\<lparr>waited := waited (snd (closeFd (inFd x) (sys x))) @ waitList x\<rparr>)
        = Inr s3"
    and r: "st' = (shell x)\<lparr>executedSegments := executedSegments (shell x)
                            + segmentCount (buildLinePlan cs st)\<rparr>" "s' = s3"
    by (auto simp: executeExternalCommands_def Let_def)
  from graceReap_fdt [OF g] x r show thesis by (intro that) simp_all
qed

lemma executeExternalCommands_inv:
  assumes I: "shell_inv (B \<union> held (inputFd cfg)) st (-1) s" and B: "B \<inter> held (inputFd cfg) = {}"
    and cs: "cs \<noteq> []" and first: "argv (hd cs) \<noteq> [] \<or> inputFd cfg < 0"
    and run: "executeExternalCommands cs st cfg s = Inr (st', s')"
  shows "shell_inv B st' (-1) s'"
  using run
proof (cases rule: executeExternalCommands_cases)
  case (1 x)
  let ?x0 = "\<lparr>shell = st, inFd = -1, waitList = [], backgroundList = [], sys = s\<rparr>"
  have upt: "[0..<length cs] = 0 # [1..<length cs]"
    using cs by (simp add: upt_conv_Cons)
  from 1(1) obtain y where y: "exec_step cs (buildLinePlan cs st) (buildWaitability cs) cfg 0 ?x0 = Inr y"
    and rest: "exec_loop cs (buildLinePlan cs st) (buildWaitability cs) cfg [1..<length cs] y = Inr x"
    unfolding upt by auto
  have "shell_inv B (shell y) (inFd y) (sys y)"
  proof (rule exec_step_inv [OF _ _ y])
    show "shell_inv (B \<union> input_fds cfg (0 = (0::nat))) (shell ?x0) (inFd ?x0) (sys ?x0)"
      "B \<inter> input_fds cfg (0 = (0::nat)) = {}"
      using I B by (simp_all add: input_fds_def)
    show "argv (cs ! 0) \<noteq> [] \<or> input_fds cfg (0 = (0::nat)) = {}"
      using cs first by (auto simp: input_fds_def held_def hd_conv_nth)
  qed
  from exec_loop_inv [OF this _ rest] have "shell_inv B (shell x) (inFd x) (sys x)" by simp
  from inv_close_in [OF this] have "shell_inv B (shell x) (-1) (snd (closeFd (inFd x) (sys x)))" .
  with 1(2,3) shell_inv_fdt [of s'] shell_inv_shell [of st' "shell x"] show ?thesis by simp
qed

text \<open>A first command without words is skipped, and with it the descriptor it should have taken.\<close>

lemma executeExternalCommands_leak:
  assumes I: "shell_inv (B \<union> held (inputFd cfg)) st (-1) s"
    and cs: "cs \<noteq> []" "argv (hd cs) = []"
    and run: "executeExternalCommands cs st cfg s = Inr (st', s')"
  shows "shell_inv (B \<union> held (inputFd cfg)) st' (-1) s'"
  using run
proof (cases rule: executeExternalCommands_cases)
  case (1 x)
  let ?x0 = "\<lparr>shell = st, inFd = -1, waitList = [], backgroundList = [], sys = s\<rparr>"
  have "exec_step cs (buildLinePlan cs st) (buildWaitability cs) cfg 0 ?x0 = Inr ?x0"
    using cs by (simp add: exec_step_def hd_conv_nth)
  then have "exec_loop cs (buildLinePlan cs st) (buildWaitability cs) cfg [1..<length cs] ?x0 = Inr x"
    using 1(1) cs(1) by (simp add: upt_conv_Cons)
  from exec_loop_inv [OF _ _ this, of "B \<union> held (inputFd cfg)"] I
  have "shell_inv (B \<union> held (inputFd cfg)) (shell x) (inFd x) (sys x)" by simp
  from inv_close_in [OF this]
  have "shell_inv (B \<union> held (inputFd cfg)) (shell x) (-1) (snd (closeFd (inFd x) (sys x)))" .
  with 1(2,3) shell_inv_fdt [of s'] shell_inv_shell [of st' "shell x"] show ?thesis by simp
qed

lemma inv_closeShellState:
  assumes I: "shell_inv B st f s" and c: "closeShellState st s = (st', s')"
  shows "shell_inv B st' f s'"
proof -
  have close: "open_fds (fold (\<lambda>e s. snd (closePipe (snd e) s)) m s) =
      open_fds s - (\<Union>e \<in> set m. held (readFd (snd e)) \<union> held (writeFd (snd e)))"
    for m :: "(int \<times> PipeFD) list" and s
    by (induction m arbitrary: s) (auto simp: closePipe_sys closeFd_open)
  have "(\<Union>e \<in> set (numberedPipes st). held (readFd (snd e)) \<union> held (writeFd (snd e))) = pipe_fds st"
    unfolding pipe_fds_def by (rule SUP_cong [OF refl]) (rule held_ends [OF shell_inv_sets(6) [OF I]])
  then have "open_fds s' = B \<union> held f"
    using c shell_inv_sets(2,3,5) [OF I] by (auto simp: closeShellState_def close)
  moreover have "numberedPipes st' = []" using c by (auto simp: closeShellState_def)
  ultimately show ?thesis
    using shell_inv_sets(4) [OF I] by (auto simp: shell_inv_def pipe_fds_def)
qed

section \<open>The child's descriptors\<close>

lemma fd_get_closeDuplicated [fd_simps]:
  "fd_get (closeDuplicatedFd x t) fd = (if fd = x \<and> fd > STDERR then None else fd_get t fd)"
  by (simp add: closeDuplicatedFd_def fd_simps)

lemma fd_get_closeExtra [fd_simps]:
  "fd_get (closeExtraFdsInChild fds t) fd = (if fd \<in> set fds \<and> fd > STDERR then None else fd_get t fd)"
  unfolding closeExtraFdsInChild_def by (induction fds arbitrary: t) (auto simp: fd_simps)

lemma fd_get_closeNumbered [fd_simps]:
  "fd_get (closeNumberedPipesInChild st t) fd = (if fd \<in> pipe_fds st then None else fd_get t fd)"
  unfolding closeNumberedPipesInChild_def fdt.get_close_list by (simp add: pipe_fds_def ends_def)

text \<open>
  What a configuration needs: descriptors 0 to 2 are open and belong to nobody's pipe, and output and
  error descriptor are open too, the output not being 0 and the error neither 0 nor 1.
\<close>

definition config_ok :: "fd set \<Rightarrow> ExecutionConfig \<Rightarrow> bool" where
  "config_ok B cfg \<longleftrightarrow> {STDIN, STDOUT, STDERR} \<subseteq> B \<and> outputFd cfg \<in> B \<and> outputFd cfg \<noteq> STDIN \<and>
     errorFd cfg \<in> B \<and> errorFd cfg \<noteq> STDIN \<and> errorFd cfg \<noteq> STDOUT"

lemma child_fds_get:
  "fd_get (child_fds st io f cfg t) fd =
     (if fd \<in> pipe_fds st \<or> fd = readFd (ordinaryPipe io) \<or> fd = writeFd (ordinaryPipe io) \<or>
         fd = redirectFd io \<or>
         fd > STDERR \<and> (fd \<in> set (closeInChild cfg) \<or> fd = f \<or> fd = outFd io \<or> fd = errFd io)
      then None else fd_get (child_dups io f t) fd)"
proof -
  have merge: "(if a then None else if b then None else v) = (if b \<or> a then None else v)"
    for a b and v :: "ofile option" by simp
  show ?thesis
    by (cases "errFd io = outFd io"; unfold child_fds_def Let_def, simp only: fd_simps merge simp_thms if_True if_False)
      (rule if_cong [OF _ refl refl], blast)+
qed

lemma child_dups_get:
  assumes "0 \<le> f \<Longrightarrow> fd_get t f \<noteq> None" and "fd_get t (outFd io) \<noteq> None" and "outFd io \<noteq> STDIN"
    and "fd_get t (errFd io) \<noteq> None" and "errFd io \<noteq> STDIN" and "errFd io \<noteq> STDOUT"
  shows "fd_get (child_dups io f t) STDIN = (if 0 \<le> f then fd_get t f else fd_get t STDIN)"
    and "fd_get (child_dups io f t) STDOUT = fd_get t (outFd io)"
    and "fd_get (child_dups io f t) STDERR = fd_get t (errFd io)"
proof -
  have nonneg: "0 \<le> outFd io" "0 \<le> errFd io"
    using assms(2,4) fdt.open_is_nonneg by blast+
  define t1 where "t1 = (if f \<ge> 0 then fd_dup2 t f STDIN else t)"
  have t1: "fd_get t1 x = (if x = STDIN \<and> 0 \<le> f then fd_get t f else fd_get t x)" for x
    using assms(1) by (simp add: t1_def fd_simps)
  define t2 where "t2 = (if outFd io \<ge> 0 \<and> outFd io \<noteq> STDOUT then fd_dup2 t1 (outFd io) STDOUT else t1)"
  have t2: "fd_get t2 x = (if x = STDOUT then fd_get t (outFd io) else fd_get t1 x)" for x
    using assms(2,3) nonneg by (auto simp: t2_def t1 fd_simps)
  have t3: "fd_get (child_dups io f t) x = (if x = STDERR then fd_get t (errFd io) else fd_get t2 x)" for x
    using assms(4-6) nonneg unfolding child_dups_def Let_def t1_def [symmetric] t2_def [symmetric]
    by (auto simp: t2 t1 fd_simps)
  show "fd_get (child_dups io f t) STDIN = (if 0 \<le> f then fd_get t f else fd_get t STDIN)"
    by (simp add: t3 t2 t1)
  show "fd_get (child_dups io f t) STDOUT = fd_get t (outFd io)" by (simp add: t3 t2)
  show "fd_get (child_dups io f t) STDERR = fd_get t (errFd io)" by (simp add: t3)
qed

lemma child_dups_high: "fd > STDERR \<Longrightarrow> fd_get (child_dups io f t) fd = fd_get t fd"
  by (simp add: child_dups_def Let_def fd_simps)

lemma child_high_fds:
  assumes I: "shell_inv (B \<union> own io) st f s" and high: "fd > STDERR"
    and opened: "fd_get (child_fds st io f cfg (fdt s)) fd \<noteq> None"
  shows "fd \<in> B - set (closeInChild cfg)"
proof -
  have "fd_get (fdt s) fd \<noteq> None" "fd \<notin> pipe_fds st" "fd \<notin> set (closeInChild cfg)" "fd \<notin> own io" "fd \<noteq> f"
    using opened high by (auto simp: child_fds_get child_dups_high own_def held_def split: if_splits)
  moreover have "fd \<in> open_fds s" using calculation(1) by (simp add: open_fds_def)
  ultimately show ?thesis using shell_inv_sets(2) [OF I] by (auto simp: held_def split: if_splits)
qed

lemma child_standard_fds:
  assumes I: "shell_inv (B \<union> own io) st f s" and B: "{STDIN, STDOUT, STDERR} \<subseteq> B"
    and own: "B \<inter> own io = {}"
    and out: "outFd io \<in> open_fds s" "outFd io \<noteq> STDIN"
    and err: "errFd io \<in> open_fds s" "errFd io \<noteq> STDIN" "errFd io \<noteq> STDOUT"
  shows "fd_get (child_fds st io f cfg (fdt s)) STDIN =
           (if 0 \<le> f then fd_get (fdt s) f else fd_get (fdt s) STDIN)"
    and "fd_get (child_fds st io f cfg (fdt s)) STDOUT = fd_get (fdt s) (outFd io)"
    and "fd_get (child_fds st io f cfg (fdt s)) STDERR = fd_get (fdt s) (errFd io)"
proof -
  have np: "x \<notin> pipe_fds st \<and> x \<notin> own io" if "x \<in> {STDIN, STDOUT, STDERR}" for x
    using that B own shell_inv_sets(3) [OF I] by blast
  have low: "x \<notin> own io \<Longrightarrow> 0 \<le> x \<Longrightarrow>
      x \<noteq> readFd (ordinaryPipe io) \<and> x \<noteq> writeFd (ordinaryPipe io) \<and> x \<noteq> redirectFd io" for x
    by (auto simp: own_def held_def split: if_splits)
  have f: "0 \<le> f \<Longrightarrow> fd_get (fdt s) f \<noteq> None"
    using shell_inv_sets(2) [OF I] by (auto simp: open_fds_def)
  have "fd_get (fdt s) (outFd io) \<noteq> None" "fd_get (fdt s) (errFd io) \<noteq> None"
    using out(1) err(1) by (auto simp: open_fds_def)
  note dups = child_dups_get [OF f this(1) out(2) this(2) err(2,3)]
  have "fd_get (child_fds st io f cfg (fdt s)) x = fd_get (child_dups io f (fdt s)) x"
    if "x \<in> {STDIN, STDOUT, STDERR}" for x
  proof -
    have "0 \<le> x" "\<not> x > STDERR" using that by auto
    then show ?thesis using np [OF that] low [of x] by (simp add: child_fds_get)
  qed
  then show "fd_get (child_fds st io f cfg (fdt s)) STDIN =
           (if 0 \<le> f then fd_get (fdt s) f else fd_get (fdt s) STDIN)"
    "fd_get (child_fds st io f cfg (fdt s)) STDOUT = fd_get (fdt s) (outFd io)"
    "fd_get (child_fds st io f cfg (fdt s)) STDERR = fd_get (fdt s) (errFd io)"
    using dups by simp_all
qed

end
