(* ===== verification/Shell_Plan.thy ===== *)
theory Shell_Plan
  imports Shell_Engine
begin

text \<open>
  What \<open>buildLinePlan\<close> and \<open>buildWaitability\<close> compute, stated without their loops: a segment starts
  at the first command and after every command that does not end in an ordinary pipe, segments are
  numbered from the shell's counter on, and a command is waited for unless ordinary pipes lead from
  it to a numbered pipe. \<open>graceReap\<close> collects children of the list it is given, each at most once.
\<close>

section \<open>Segments\<close>

definition starts_segment :: "Command list \<Rightarrow> nat \<Rightarrow> bool" where
  "starts_segment cs i \<longleftrightarrow> i = 0 \<or> nextType (cs ! (i - 1)) \<noteq> ORDINARY_PIPE"

definition segments_upto :: "Command list \<Rightarrow> nat \<Rightarrow> nat" where
  "segments_upto cs n = card {j. j < n \<and> starts_segment cs j}"

lemma segments_upto_0 [simp]: "segments_upto cs 0 = 0"
  by (simp add: segments_upto_def)

lemma segments_upto_Suc:
  "segments_upto cs (Suc n) = segments_upto cs n + (if starts_segment cs n then 1 else 0)"
proof -
  have "{j. j < Suc n \<and> starts_segment cs j} =
      (if starts_segment cs n then insert n {j. j < n \<and> starts_segment cs j}
       else {j. j < n \<and> starts_segment cs j})"
    by (auto simp: less_Suc_eq)
  then show ?thesis by (simp add: segments_upto_def)
qed

definition previous_type :: "Command list \<Rightarrow> nat \<Rightarrow> NextType option" where
  "previous_type cs i = (if i = 0 then None else Some (nextType (cs ! (i - 1))))"

lemma previous_type_Suc: "previous_type cs (Suc i) = Some (nextType (cs ! i))"
  by (simp add: previous_type_def)

lemma starts_segment_previous: "starts_segment cs i \<longleftrightarrow> previous_type cs i \<noteq> Some ORDINARY_PIPE"
  by (simp add: starts_segment_def previous_type_def)

lemma linePlan_loop_from:
  "i \<le> length cs \<Longrightarrow>
   linePlan_loop (previous_type cs i) (base + int (segments_upto cs i)) (drop i cs) =
     (map (\<lambda>j. base + int (segments_upto cs (Suc j))) [i..<length cs],
      map (starts_segment cs) [i..<length cs], base + int (segments_upto cs (length cs)))"
proof (induction "length cs - i" arbitrary: i)
  case 0
  then show ?case by simp
next
  case (Suc n)
  then have i: "i < length cs" by simp
  have IH: "linePlan_loop (Some (nextType (cs ! i))) (base + int (segments_upto cs (Suc i))) (drop (Suc i) cs) =
     (map (\<lambda>j. base + int (segments_upto cs (Suc j))) [Suc i..<length cs],
      map (starts_segment cs) [Suc i..<length cs], base + int (segments_upto cs (length cs)))"
    using Suc.hyps(1) [of "Suc i"] Suc.hyps(2) i by (simp add: previous_type_Suc)
  have start: "previous_type cs i = None \<or> previous_type cs i \<noteq> Some ORDINARY_PIPE \<longleftrightarrow> starts_segment cs i"
    by (auto simp: starts_segment_previous)
  have cursor: "(if starts_segment cs i then base + int (segments_upto cs i) + 1
       else base + int (segments_upto cs i)) = base + int (segments_upto cs (Suc i))"
    by (simp add: segments_upto_Suc)
  have d: "drop i cs = cs ! i # drop (Suc i) cs" and u: "[i..<length cs] = i # [Suc i..<length cs]"
    using i by (simp_all add: Cons_nth_drop_Suc upt_conv_Cons)
  show ?case
    by (simp only: d u linePlan_loop.simps Let_def start cursor IH prod.case list.map)
qed

lemma buildLinePlan_eq:
  "buildLinePlan cs st =
     \<lparr>commandSegments = map (\<lambda>j. executedSegments st + int (segments_upto cs (Suc j))) [0..<length cs],
      segmentStarts = map (starts_segment cs) [0..<length cs],
      segmentCount = int (segments_upto cs (length cs))\<rparr>"
  using linePlan_loop_from [of 0 cs "executedSegments st"]
  by (simp add: buildLinePlan_def previous_type_def)

lemma buildLinePlan_nth:
  assumes "i < length cs"
  shows "commandSegments (buildLinePlan cs st) ! i = executedSegments st + int (segments_upto cs (Suc i))"
    and "segmentStarts (buildLinePlan cs st) ! i = starts_segment cs i"
  using assms by (simp_all add: buildLinePlan_eq)

section \<open>Which children are waited for\<close>

definition reaches_number_pipe :: "Command list \<Rightarrow> nat \<Rightarrow> bool" where
  "reaches_number_pipe cs i \<longleftrightarrow>
     (\<exists>j. i \<le> j \<and> j < length cs \<and> isNumberPipeType (nextType (cs ! j)) \<and>
        (\<forall>k. i \<le> k \<and> k < j \<longrightarrow> nextType (cs ! k) = ORDINARY_PIPE))"

lemma segmentEnd_ordinary:
  "e \<le> k \<Longrightarrow> k < segmentEnd_loop cs e \<Longrightarrow> nextType (cs ! k) = ORDINARY_PIPE"
proof (induction cs e rule: segmentEnd_loop.induct)
  case (1 cs e)
  show ?case
  proof (cases "e + 1 < length cs \<and> nextType (cs ! e) = ORDINARY_PIPE")
    case True
    then have step: "segmentEnd_loop cs e = segmentEnd_loop cs (e + 1)"
      by (subst segmentEnd_loop.simps) simp
    show ?thesis
    proof (cases "k = e")
      case False
      then have "e + 1 \<le> k" using "1.prems"(1) by simp
      with "1.IH" [OF True] "1.prems"(2) step show ?thesis by simp
    qed (use True in simp)
  next
    case False
    then have "segmentEnd_loop cs e = e"
      by (subst segmentEnd_loop.simps) (simp only: if_False)
    with "1.prems" show ?thesis by simp
  qed
qed

lemma segmentEnd_stops:
  "e < length cs \<Longrightarrow> segmentEnd_loop cs e + 1 = length cs \<or>
     nextType (cs ! segmentEnd_loop cs e) \<noteq> ORDINARY_PIPE"
proof (induction cs e rule: segmentEnd_loop.induct)
  case (1 cs e)
  then show ?case by (subst (1 2) segmentEnd_loop.simps) auto
qed

lemma reaches_number_pipe_segment:
  assumes "e \<le> k" and "k \<le> segmentEnd_loop cs e" and "e < length cs"
  shows "reaches_number_pipe cs k \<longleftrightarrow> isNumberPipeType (nextType (cs ! segmentEnd_loop cs e))"
proof -
  let ?n = "segmentEnd_loop cs e"
  have n: "?n < length cs" using assms(3) by (rule segmentEnd_loop_lt)
  have ord: "nextType (cs ! j) = ORDINARY_PIPE" if "e \<le> j" "j < ?n" for j
    using that by (rule segmentEnd_ordinary)
  have not_num: "\<not> isNumberPipeType ORDINARY_PIPE" by (simp add: isNumberPipeType_def)
  show ?thesis
  proof
    assume "reaches_number_pipe cs k"
    then obtain j where j: "k \<le> j" "j < length cs" "isNumberPipeType (nextType (cs ! j))"
      and path: "\<And>l. k \<le> l \<Longrightarrow> l < j \<Longrightarrow> nextType (cs ! l) = ORDINARY_PIPE"
      by (auto simp: reaches_number_pipe_def)
    have "\<not> j < ?n" using ord [of j] assms(1) j not_num by auto
    moreover have "\<not> ?n < j"
      using path [of ?n] segmentEnd_stops [OF assms(3)] assms(2) j(2) by auto
    ultimately show "isNumberPipeType (nextType (cs ! ?n))" using j(3) by (metis linorder_neqE_nat)
  next
    assume "isNumberPipeType (nextType (cs ! ?n))"
    then show "reaches_number_pipe cs k"
      using n assms(1,2) ord unfolding reaches_number_pipe_def by (intro exI [of _ ?n]) auto
  qed
qed

lemma nth_fold_False:
  "fold (\<lambda>i w. w[i := False]) is w ! k = (if k \<in> set is then False else w ! k)" if "k < length w"
  using that by (induction "is" arbitrary: w) (auto simp: nth_list_update)

lemma length_fold_False [simp]: "length (fold (\<lambda>i w. w[i := False]) is w) = length w"
  by (induction "is" arbitrary: w) auto

lemma waitability_loop_nth:
  "length w = length cs \<Longrightarrow> length (waitability_loop cs i w) = length cs \<and>
     (\<forall>k < length cs. waitability_loop cs i w ! k =
        (if k < i then w ! k else w ! k \<and> \<not> reaches_number_pipe cs k))"
proof (induction cs i w rule: waitability_loop.induct)
  case (1 cs i w)
  show ?case
  proof (cases "i < length cs")
    case True
    let ?e = "segmentEnd_loop cs i"
    let ?w = "if isNumberPipeType (nextType (cs ! ?e))
       then fold (\<lambda>i w. w[i := False]) [i..<Suc ?e] w else w"
    have step: "waitability_loop cs i w = waitability_loop cs (?e + 1) ?w"
      using True by (subst waitability_loop.simps) (simp add: Let_def)
    have ie: "i \<le> ?e" by (rule segmentEnd_loop_ge)
    have "length ?w = length cs" using "1.prems" by simp
    note IH = "1.IH" [OF True refl refl this]
    have "waitability_loop cs i w ! k = (if k < i then w ! k else w ! k \<and> \<not> reaches_number_pipe cs k)"
      if k: "k < length cs" for k
    proof (cases "k < ?e + 1")
      case below: True
      have "i \<le> k \<Longrightarrow> reaches_number_pipe cs k \<longleftrightarrow> isNumberPipeType (nextType (cs ! ?e))"
        using reaches_number_pipe_segment [of i k cs] below True by simp
      then show ?thesis
        using IH k below "1.prems" by (auto simp: step nth_fold_False simp del: upt_Suc)
    next
      case False
      then show ?thesis
        using IH k ie "1.prems" by (auto simp: step nth_fold_False simp del: upt_Suc)
    qed
    with IH step show ?thesis by simp
  next
    case False
    then have "waitability_loop cs i w = w" by (subst waitability_loop.simps) simp
    with False "1.prems" show ?thesis by auto
  qed
qed

lemma buildWaitability_nth:
  "length (buildWaitability cs) = length cs"
  "k < length cs \<Longrightarrow> buildWaitability cs ! k \<longleftrightarrow> \<not> reaches_number_pipe cs k"
  using waitability_loop_nth [of "replicate (length cs) True" cs 0]
  by (simp_all add: buildWaitability_def)

end
