(* ===== verification/Shell_Wiring.thy ===== *)
theory Shell_Wiring
  imports Shell_Fds Shell_Plan
begin

text \<open>
  The specification of a line of external commands, without descriptors: which pipes exist for which
  later segment, which file waits to become the next command's standard input, and for each child
  its arguments and the files behind its descriptors 0, 1 and 2. The theorem at the end is the
  refinement: with enough descriptors and a \<open>fork\<close> that succeeds in the end,
  \<open>executeExternalCommands\<close> returns and has started exactly the children of the specification.
\<close>

section \<open>The specification\<close>

record outside =
  o_stdin :: "ofile option"
  o_input :: "ofile option"
  o_out :: "ofile option"
  o_err :: "ofile option"
  o_force :: bool
  o_opens :: "string \<Rightarrow> bool"

type_synonym wires = "(int \<Rightarrow> nat option) \<times> ofile option \<times> nat"
type_synonym child = "string list \<times> ofile option \<times> ofile option \<times> ofile option"

text \<open>A command that starts a segment takes the pipe of its segment unless it already has an input.\<close>

definition wire_in :: "outside \<Rightarrow> bool \<Rightarrow> bool \<Rightarrow> int \<Rightarrow> wires \<Rightarrow> wires" where
  "wire_in out first start seg w =
     (case w of (pipes, pending, fresh) \<Rightarrow>
        ((if start then pipes(seg := None) else pipes),
         (if first \<and> o_input out \<noteq> None then o_input out
          else if start \<and> pending = None then map_option PipeR (pipes seg) else pending),
         fresh))"

text \<open>
  Where a command's output goes: descriptors 1 and 2 of the child (or no child, when its
  redirection target cannot be opened), and the wires it leaves.
\<close>

definition wire_out ::
  "outside \<Rightarrow> bool \<Rightarrow> int \<Rightarrow> Command \<Rightarrow> wires \<Rightarrow> (ofile option \<times> ofile option) option \<times> wires" where
  "wire_out out lst seg c w =
     (case w of (pipes, pending, fresh) \<Rightarrow>
        (if lst \<and> o_force out then (Some (o_out out, o_err out), (pipes, None, fresh))
         else if redirectStdout c then
           ((if o_opens out (redirectFile c) then Some (Some (RegFile (redirectFile c)), o_err out)
             else None), (pipes, None, fresh))
         else if nextType c = NONE then (Some (o_out out, o_err out), (pipes, None, fresh))
         else if nextType c = ORDINARY_PIPE then
           (Some (Some (PipeW fresh), o_err out), (pipes, Some (PipeR fresh), Suc fresh))
         else
           (let target = seg + nextCount c;
                q = (case pipes target of None \<Rightarrow> fresh | Some q \<Rightarrow> q);
                fresh' = (case pipes target of None \<Rightarrow> Suc fresh | Some _ \<Rightarrow> fresh)
            in (Some (Some (PipeW q), if nextType c = NUMBER_PIPE_BOTH then Some (PipeW q) else o_err out),
                (pipes(target \<mapsto> q), None, fresh')))))"

definition wire_step ::
  "outside \<Rightarrow> bool \<Rightarrow> bool \<Rightarrow> bool \<Rightarrow> int \<Rightarrow> Command \<Rightarrow> wires \<Rightarrow> child list \<times> wires" where
  "wire_step out first lst start seg c w =
     (let w1 = wire_in out first start seg w;
          stdin = (case w1 of (_, None, _) \<Rightarrow> o_stdin out | (_, Some f, _) \<Rightarrow> Some f);
          (outs, w2) = wire_out out lst seg c w1
      in ((case outs of None \<Rightarrow> [] | Some (f1, f2) \<Rightarrow> [(argv c, stdin, f1, f2)]), w2))"

fun wire_line :: "outside \<Rightarrow> NextType option \<Rightarrow> int \<Rightarrow> Command list \<Rightarrow> wires \<Rightarrow> child list \<times> wires" where
  "wire_line out previous seg [] w = ([], w)"
| "wire_line out previous seg (c # cs) w =
     (let start = (previous \<noteq> Some ORDINARY_PIPE);
          seg' = (if start then seg + 1 else seg);
          (ps, w1) = wire_step out (previous = None) (cs = []) start seg' c w;
          (qs, w2) = wire_line out (Some (nextType c)) seg' cs w1
      in (ps @ qs, w2))"

section \<open>Abstraction\<close>

definition pipe_at :: "os \<Rightarrow> PipeFD \<Rightarrow> nat option" where
  "pipe_at s p = (case fd_get (fdt s) (readFd p) of Some (PipeR q) \<Rightarrow> Some q | _ \<Rightarrow> None)"

definition abs_pipes :: "ShellState \<Rightarrow> os \<Rightarrow> int \<Rightarrow> nat option" where
  "abs_pipes st s k = Option.bind (map_of (numberedPipes st) k) (pipe_at s)"

definition wires_of :: "ShellState \<Rightarrow> fd \<Rightarrow> os \<Rightarrow> wires" where
  "wires_of st f s = (abs_pipes st s, fd_get (fdt s) f, nextPipe s)"

definition child_of :: "proc \<Rightarrow> child" where
  "child_of p = (p_argv p, fd_get (p_fds p) STDIN, fd_get (p_fds p) STDOUT, fd_get (p_fds p) STDERR)"

definition outside_of :: "ExecutionConfig \<Rightarrow> os \<Rightarrow> outside" where
  "outside_of cfg s =
     \<lparr>o_stdin = fd_get (fdt s) STDIN, o_input = fd_get (fdt s) (inputFd cfg),
      o_out = fd_get (fdt s) (outputFd cfg), o_err = fd_get (fdt s) (errorFd cfg),
      o_force = forceLastOutput cfg, o_opens = openable s\<rparr>"

definition same_on :: "fd set \<Rightarrow> os \<Rightarrow> os \<Rightarrow> bool" where
  "same_on A s s' \<longleftrightarrow> (\<forall>x \<in> A. fd_get (fdt s') x = fd_get (fdt s) x)"

text \<open>What no operation of the shell changes, but for the attempts to \<open>fork\<close> it uses up.\<close>

definition same_world :: "os \<Rightarrow> os \<Rightarrow> bool" where
  "same_world s s' \<longleftrightarrow> openable s' = openable s \<and> nofile s' = nofile s \<and>
     set (forks s') \<subseteq> set (forks s) \<and> polls s' = polls s"

text \<open>What a line of at most \<open>n\<close> new descriptors leaves as it was.\<close>

definition line_kept :: "fd set \<Rightarrow> nat \<Rightarrow> os \<Rightarrow> os \<Rightarrow> bool" where
  "line_kept A n s s' \<longleftrightarrow> same_on A s s' \<and> openable s' = openable s \<and> nofile s' = nofile s \<and>
     set (forks s') \<subseteq> set (forks s) \<and> set (polls s') \<subseteq> set (polls s) \<and>
     card (open_fds s') \<le> card (open_fds s) + n"

lemma same_on_refl [simp]: "same_on A s s"
  by (simp add: same_on_def)

lemma same_on_trans: "same_on A s s' \<Longrightarrow> same_on A s' s'' \<Longrightarrow> same_on A s s''"
  by (simp add: same_on_def)

lemma same_on_mono: "same_on A s s' \<Longrightarrow> A' \<subseteq> A \<Longrightarrow> same_on A' s s'"
  by (auto simp: same_on_def)

lemma same_world_refl [simp]: "same_world s s"
  by (simp add: same_world_def)

lemma same_world_trans: "same_world s s' \<Longrightarrow> same_world s' s'' \<Longrightarrow> same_world s s''"
  by (auto simp: same_world_def)

lemma same_on_closeFd: "f \<notin> A \<Longrightarrow> same_on A s (snd (closeFd f s))"
  by (auto simp: same_on_def closeFd_def os_simps)

lemma same_world_closeFd [simp]: "same_world s (snd (closeFd f s))"
  by (simp add: same_world_def closeFd_def sys_close_def)

lemma same_on_closeFd_held: "A \<inter> held f = {} \<Longrightarrow> same_on A s (snd (closeFd f s))"
  by (auto simp: same_on_def closeFd_def held_def os_simps split: if_splits)

lemma same_on_create: "createPipeOrDie s = Inr (p, s') \<Longrightarrow> A \<subseteq> open_fds s \<Longrightarrow> same_on A s s'"
  using createPipe_facts(6) by (auto simp: same_on_def)

lemma same_world_create: "createPipeOrDie s = Inr (p, s') \<Longrightarrow> same_world s s'"
  by (auto simp: createPipeOrDie_def sys_pipe_def same_world_def Let_def split: option.splits if_splits)

lemma same_world_open: "sys_open path f s = (fd, s') \<Longrightarrow> same_world s s'"
  by (auto simp: sys_open_def same_world_def Let_def split: if_splits)

lemma abs_pipes_same:
  assumes "same_on (pipe_fds st) s s'"
  shows "abs_pipes st s' = abs_pipes st s"
proof
  fix k
  show "abs_pipes st s' k = abs_pipes st s k"
  proof (cases "map_of (numberedPipes st) k")
    case (Some p)
    then have "readFd p \<in> pipe_fds st"
      by (force simp: pipe_fds_def ends_def dest: map_of_SomeD)
    with assms Some show ?thesis by (simp add: abs_pipes_def pipe_at_def same_on_def)
  qed (simp add: abs_pipes_def)
qed

lemma abs_pipes_erase:
  "abs_pipes (st\<lparr>numberedPipes := map_erase k (numberedPipes st)\<rparr>) s = (abs_pipes st s)(k := None)"
  by (auto simp: abs_pipes_def map_of_erase fun_eq_iff)

lemma pipe_fds_erase:
  "pipe_fds (st\<lparr>numberedPipes := map_erase k (numberedPipes st)\<rparr>) \<subseteq> pipe_fds st"
  by (auto simp: pipe_fds_def map_erase_def)

lemma is_pipe_at: "is_pipe s p \<Longrightarrow> \<exists>q. pipe_at s p = Some q \<and>
    fd_get (fdt s) (readFd p) = Some (PipeR q) \<and> fd_get (fdt s) (writeFd p) = Some (PipeW q)"
  by (auto simp: is_pipe_def pipe_at_def)

section \<open>Room for new descriptors\<close>

lemma lowest_le_card:
  "finite {fd. fd_get t fd \<noteq> None}" "fd_lowest t \<le> int (card {fd. fd_get t fd \<noteq> None})"
proof -
  let ?open = "{fd. fd_get t fd \<noteq> None}"
  have "?open \<subseteq> {0..<int (length t)}" by (auto simp: fd_get_def split: if_splits)
  then show fin: "finite ?open" by (rule finite_subset) simp
  have "{0..<fd_lowest t} \<subseteq> ?open" using fd_get_below_lowest by auto
  from card_mono [OF fin this] show "fd_lowest t \<le> int (card ?open)"
    using fdt.lowest_nonneg [of t] by simp
qed

lemma finite_open_fds [simp]: "finite (open_fds s)"
  unfolding open_fds_def by (rule lowest_le_card)

definition room :: "nat \<Rightarrow> os \<Rightarrow> bool" where
  "room n s \<longleftrightarrow> card (open_fds s) + n \<le> nofile s"

lemma room_mono: "room n s \<Longrightarrow> m \<le> n \<Longrightarrow> room m s"
  by (simp add: room_def)

lemma room_less:
  assumes "room n s" and "open_fds s' \<subseteq> open_fds s" and "same_world s s'"
  shows "room n s'"
  using assms card_mono [OF finite_open_fds assms(2)] by (auto simp: room_def same_world_def)

lemma sys_open_room:
  assumes "room 1 s" and "sys_open path f s = (fd, s')"
  shows "0 \<le> fd \<longleftrightarrow> openable s path"
proof -
  have "fd_lowest (fdt s) < int (nofile s)"
    using assms(1) lowest_le_card(2) [of "fdt s"] by (simp add: room_def open_fds_def)
  then show ?thesis
    using assms(2) fdt.lowest_nonneg [of "fdt s"] by (auto simp: sys_open_def Let_def split: if_splits)
qed

lemma createPipe_room:
  assumes "room 2 s"
  obtains p s' where "createPipeOrDie s = Inr (p, s')"
proof -
  let ?t = "fd_put (fdt s) (fd_lowest (fdt s)) (PipeR (nextPipe s))"
  have "{fd. fd_get ?t fd \<noteq> None} \<subseteq> insert (fd_lowest (fdt s)) (open_fds s)"
    by (auto simp: open_fds_def fd_simps)
  from card_mono [OF _ this] have "card {fd. fd_get ?t fd \<noteq> None} \<le> Suc (card (open_fds s))"
    by (simp add: card_insert_if split: if_splits)
  with lowest_le_card(2) [of ?t] assms have "fd_lowest ?t < int (nofile s)"
    by (simp add: room_def)
  then show thesis
    using that by (simp add: createPipeOrDie_def sys_pipe_def Let_def)
qed

section \<open>Each operation keeps the wires of the specification\<close>

lemma attach_wires:
  assumes I: "shell_inv B st f s" and a: "attachIncomingNumberedPipe st k f s = (st', f', s')"
  shows "abs_pipes st' s' = (abs_pipes st s)(k := None) \<and>
    fd_get (fdt s') f' = (if fd_get (fdt s) f = None then map_option PipeR (abs_pipes st s k) else fd_get (fdt s) f) \<and>
    same_on B s s' \<and> same_world s s' \<and> open_fds s' \<subseteq> open_fds s"
  using a
proof (cases rule: attach_cases)
  case 1
  then have "abs_pipes st s k = None" by (simp add: abs_pipes_def)
  with 1 show ?thesis
    by auto
next
  case (2 p)
  note drop = inv_drop_pipe [OF I 2(1)]
  note sets = shell_inv_sets [OF drop(1)]
  obtain q where q: "pipe_at s p = Some q" "fd_get (fdt s) (readFd p) = Some (PipeR q)"
    using is_pipe_at [OF drop(4)] by blast
  have "writeFd p \<notin> pipe_fds st' \<union> B" "readFd p \<noteq> writeFd p"
    using sets(3) drop(2) is_pipe_distinct [OF drop(4)] unfolding 2(5) by (auto simp: ends_def)
  then have "same_on (pipe_fds st' \<union> B \<union> {readFd p}) s s'"
    unfolding 2(4) by (intro same_on_closeFd) auto
  then have "same_on (pipe_fds st') s s'" "same_on B s s'" "fd_get (fdt s') (readFd p) = fd_get (fdt s) (readFd p)"
    by (auto simp: same_on_def)
  moreover have "fd_get (fdt s) f = None" using 2(2) by (rule fdt.get_negative)
  ultimately show ?thesis
    using q 2(1) abs_pipes_same [of st' s s'] abs_pipes_erase [of k st s, folded 2(5)]
    by (simp add: 2(3)) (simp add: 2(4) abs_pipes_def closeFd_open)
next
  case (3 p)
  note drop = inv_drop_pipe [OF I 3(1)]
  note sets = shell_inv_sets [OF drop(1)]
  have f: "f \<noteq> readFd p" "f \<noteq> writeFd p" using drop(3) 3(2) by (auto simp: ends_def)
  then have s': "s' = snd (closeFd (writeFd p) (snd (closeFd (readFd p) s)))" using 3(4) by simp
  have np: "writeFd p \<notin> pipe_fds st' \<union> B \<union> {f}" "readFd p \<notin> pipe_fds st' \<union> B \<union> {f}"
    using sets(3) drop(2) f unfolding 3(5) by (auto simp: ends_def)
  have same: "same_on (pipe_fds st' \<union> B \<union> {f}) s s'"
    unfolding s' by (rule same_on_trans [OF same_on_closeFd same_on_closeFd]) (use np in blast)+
  have "f \<in> open_fds s" using shell_inv_sets(2) [OF I] 3(2) by simp
  then have "fd_get (fdt s) f \<noteq> None" by (simp add: open_fds_def)
  moreover have "same_on (pipe_fds st') s s'" "same_on B s s'" "fd_get (fdt s') f = fd_get (fdt s) f"
    using same by (auto simp: same_on_def)
  moreover have "same_world s s'" unfolding s' by (rule same_world_trans [OF same_world_closeFd same_world_closeFd])
  moreover have "open_fds s' \<subseteq> open_fds s" unfolding s' by (auto simp: closeFd_open)
  ultimately show ?thesis
    using abs_pipes_same [of st' s s'] abs_pipes_erase [of k st s, folded 3(5)] by (auto simp: 3(3))
qed

lemma take_input_wires:
  assumes I: "shell_inv (B \<union> input_fds cfg first) st f s" and B: "B \<inter> input_fds cfg first = {}"
    and t: "take_input cfg first f s = (f1, s1)"
  shows "fd_get (fdt s1) f1 = (if first \<and> fd_get (fdt s) (inputFd cfg) \<noteq> None
           then fd_get (fdt s) (inputFd cfg) else fd_get (fdt s) f) \<and>
         same_on (B \<union> pipe_fds st) s s1 \<and> same_world s s1 \<and> open_fds s1 \<subseteq> open_fds s \<and>
         procs s1 = procs s \<and> nextPipe s1 = nextPipe s"
proof (cases "first \<and> inputFd cfg \<ge> 0")
  case True
  then have f: "f1 = inputFd cfg" "s1 = snd (closeFd f s)" using t by (auto simp: take_input_def)
  have "inputFd cfg \<in> B \<union> input_fds cfg first" using True by (simp add: input_fds_def)
  then have "fd_get (fdt s) (inputFd cfg) \<noteq> None" "inputFd cfg \<notin> held f"
    using shell_inv_sets(2,4) [OF I] by (auto simp: open_fds_def)
  moreover have "same_on (B \<union> pipe_fds st) s s1"
    unfolding f by (rule same_on_closeFd_held) (use shell_inv_sets(4,5) [OF I] in blast)
  ultimately show ?thesis using True by (simp add: f closeFd_open)
next
  case False
  then have "s1 = s" "f1 = f" using t by (auto simp: take_input_def split: if_splits)
  with False show ?thesis by (auto dest: fdt.get_negative [of "inputFd cfg" "fdt s"] simp: not_le)
qed

lemma wires_of_same:
  "same_on (pipe_fds st) s s' \<Longrightarrow> wires_of st f s' = (abs_pipes st s, fd_get (fdt s') f, nextPipe s')"
  by (simp add: wires_of_def abs_pipes_same)

text \<open>The output side, from the state in which the input is settled.\<close>

lemma fd_get_none [simp]: "fd_get t (- 1) = None"
  by (rule fdt.get_negative) simp

lemma abs_pipes_insert:
  "abs_pipes (st\<lparr>numberedPipes := map_insert k p (numberedPipes st)\<rparr>) s = (abs_pipes st s)(k := pipe_at s p)"
  by (auto simp: abs_pipes_def map_of_insert fun_eq_iff)

definition outputs_ok :: "ReusableIoPlan \<Rightarrow> os \<Rightarrow> bool" where
  "outputs_ok io s \<longleftrightarrow> outFd io \<in> open_fds s \<and> outFd io \<noteq> STDIN \<and>
     errFd io \<in> open_fds s \<and> errFd io \<noteq> STDIN \<and> errFd io \<noteq> STDOUT"

definition outside_at :: "outside \<Rightarrow> ExecutionConfig \<Rightarrow> os \<Rightarrow> bool" where
  "outside_at out cfg s \<longleftrightarrow> o_stdin out = fd_get (fdt s) STDIN \<and>
     o_out out = fd_get (fdt s) (outputFd cfg) \<and> o_err out = fd_get (fdt s) (errorFd cfg) \<and>
     o_force out = forceLastOutput cfg \<and> o_opens out = openable s"

lemma outside_at_same:
  "outside_at out cfg s \<Longrightarrow> config_ok B cfg \<Longrightarrow> same_on B s s' \<Longrightarrow> same_world s s' \<Longrightarrow> outside_at out cfg s'"
  by (auto simp: outside_at_def config_ok_def same_on_def same_world_def)

lemma prepare_wires:
  assumes I: "shell_inv (B \<union> input_fds cfg first) st f s" and B: "B \<inter> input_fds cfg first = {}"
    and p: "prepareIoPlan c st seg emptyIoPlan f cfg first lst s = Inr (run, st', io, f', s')"
    and t: "take_input cfg first f s = (f1, s1)"
    and cfg: "config_ok B cfg" and room: "room 1 s1" and out: "outside_at out cfg s1"
  shows "wire_out out lst seg c (wires_of st f1 s1) =
           ((if run then Some (fd_get (fdt s') (outFd io), fd_get (fdt s') (errFd io)) else None),
            (abs_pipes st' s', fd_get (fdt s') (nextInFd io), nextPipe s'))"
    (is "?wires")
    and "run \<Longrightarrow> f' = f1 \<and> fd_get (fdt s') f1 = fd_get (fdt s1) f1 \<and> outputs_ok io s'" (is "_ \<Longrightarrow> ?ok")
    and "same_on B s1 s' \<and> same_world s1 s' \<and> procs s' = procs s1" (is "?same")
proof -
  have J: "shell_inv B st f1 s1" using I B t by (rule inv_take_input)
  note sets = shell_inv_sets [OF J]
  have std: "STDIN \<in> B" "STDOUT \<in> B" "outputFd cfg \<in> B" "errorFd cfg \<in> B" "outputFd cfg \<noteq> STDIN"
      "errorFd cfg \<noteq> STDIN" "errorFd cfg \<noteq> STDOUT"
    using cfg by (auto simp: config_ok_def)
  have open_cfg: "outputs_ok (configured cfg) s1"
    using std sets(2) by (simp add: outputs_ok_def)
  have "0 \<le> outputFd cfg" using std(3) sets(2) open_fds_nonneg [of "outputFd cfg" s1] by blast
  then have forced: "forced cfg lst \<longleftrightarrow> lst \<and> o_force out" using out by (simp add: outside_at_def)
  have keep: "same_on (pipe_fds st) s1 s1' \<and> same_on B s1 s1' \<and> fd_get (fdt s1') f1 = fd_get (fdt s1) f1 \<and>
      fd_get (fdt s1') (errorFd cfg) = fd_get (fdt s1) (errorFd cfg) \<and> errorFd cfg \<in> open_fds s1' \<and>
      abs_pipes st s1' = abs_pipes st s1"
    if same: "same_on (open_fds s1) s1 s1'" for s1'
  proof -
    have "fd_get (fdt s1') f1 = fd_get (fdt s1) f1"
    proof (cases "0 \<le> f1")
      case True
      then have "f1 \<in> open_fds s1" using sets(2) by simp
      with same show ?thesis by (simp add: same_on_def)
    qed (simp add: fdt.get_negative)
    moreover have "same_on (pipe_fds st) s1 s1'" "same_on B s1 s1'"
      by (rule same_on_mono [OF same], use sets(2) in blast)+
    moreover have "errorFd cfg \<in> open_fds s1" using std(4) sets(2) by blast
    ultimately show ?thesis
      using same abs_pipes_same by (auto simp: same_on_def open_fds_def)
  qed
  have "?wires \<and> (run \<longrightarrow> ?ok) \<and> ?same"
    using p t
  proof (cases rule: prepare_cases)
    case forced
    with \<open>forced cfg lst \<longleftrightarrow> lst \<and> o_force out\<close> out open_cfg show ?thesis
      by (simp add: wire_out_def wires_of_def outside_at_def emptyIoPlan_def)
  next
    case (no_target fd s2)
    then have "\<not> openable s1 (redirectFile c)" using sys_open_room [OF room no_target(5)] by simp
    moreover have s2: "s2 = s1" using sys_open_fail no_target(5,6) by blast
    moreover have "same_on (pipe_fds st \<union> B) s1 s'"
      unfolding no_target(9) s2 by (rule same_on_closeFd_held) (use sets in blast)
    moreover from this have "same_on (pipe_fds st) s1 s'" "same_on B s1 s'"
      by (auto simp: same_on_def)
    ultimately show ?thesis
      using no_target forced abs_pipes_same [of st s1 s'] out
      by (simp add: wire_out_def wires_of_def outside_at_def emptyIoPlan_def)
  next
    case (redirect fd)
    then have "openable s1 (redirectFile c)" using sys_open_room [OF room redirect(5)] by simp
    moreover note o = sys_open_fds [OF redirect(5,6)]
    have "same_on (open_fds s1) s1 s'" using o(1,3) by (auto simp: same_on_def)
    note k = keep [OF this]
    have "fd \<noteq> STDIN" using o(1) std(1) sets(2) by auto
    then have "outputs_ok io s'" using redirect(7) o(2) k std by (auto simp: outputs_ok_def)
    moreover have "nextInFd io = -1" "outFd io = fd" "errFd io = errorFd cfg"
      by (simp_all add: redirect(7) emptyIoPlan_def)
    moreover have "\<not> (lst \<and> o_force out)" using redirect(1) forced by simp
    moreover have "o_err out = fd_get (fdt s1) (errorFd cfg)" "o_opens out = openable s1"
      using out by (simp_all add: outside_at_def)
    ultimately show ?thesis
      using redirect(2-4,6,8) k o(3-5) same_world_open [OF redirect(5)]
      by (simp only: wire_out_def wires_of_def prod.case if_False if_True) simp
  next
    case (ordinary p)
    note c = createPipe_facts [OF ordinary(6)]
    have "same_on (open_fds s1) s1 s'" using c(6) by (simp add: same_on_def)
    note k = keep [OF this]
    have "writeFd p \<notin> open_fds s1" using c(4) by (auto simp: ends_def)
    moreover have "STDIN \<in> open_fds s1" using std(1) sets(2) by blast
    ultimately have "writeFd p \<noteq> STDIN" by metis
    then have "outputs_ok io s'" using ordinary(8) c(5) k std by (auto simp: outputs_ok_def ends_def)
    moreover have "nextInFd io = readFd p" "outFd io = writeFd p" "errFd io = errorFd cfg"
      by (simp_all add: ordinary(8))
    moreover have "\<not> (lst \<and> o_force out)" using ordinary(1) forced by simp
    moreover have "o_err out = fd_get (fdt s1) (errorFd cfg)" using out by (simp add: outside_at_def)
    ultimately show ?thesis
      using ordinary(2-5,7) k c(1,2,7,8) same_world_create [OF ordinary(6)]
      by (simp only: wire_out_def wires_of_def prod.case if_False if_True) simp
  next
    case (numbered p q)
    let ?k = "seg + nextCount c"
    have type: "nextType c \<noteq> NONE" "nextType c \<noteq> ORDINARY_PIPE"
      using numbered(3) by (auto simp: isNumberPipeType_def)
    have io: "nextInFd io = -1" "outFd io = writeFd p"
      "errFd io = (if nextType c = NUMBER_PIPE_BOTH then writeFd p else errorFd cfg)"
      by (simp_all add: numbered(9) emptyIoPlan_def)
    show ?thesis
    proof (cases "map_of (numberedPipes st) ?k")
      case None
      then have cr: "createPipeOrDie s1 = Inr (p, s')" using numbered(6,7) by (simp add: noPipe_def)
      note c = createPipe_facts [OF cr]
      have "same_on (open_fds s1) s1 s'" using c(6) by (simp add: same_on_def)
      note k = keep [OF this]
      have "writeFd p \<notin> open_fds s1" using c(4) by (auto simp: ends_def)
      moreover have "STDIN \<in> open_fds s1" "STDOUT \<in> open_fds s1" using std(1,2) sets(2) by blast+
      ultimately have "writeFd p \<noteq> STDIN" "writeFd p \<noteq> STDOUT" by metis+
      then have "outputs_ok io s'" using io c(5) k std by (auto simp: outputs_ok_def ends_def)
      moreover have "pipe_at s' p = Some (nextPipe s1)" using c(1) by (simp add: pipe_at_def)
      moreover have "abs_pipes st s1 ?k = None" using None by (simp add: abs_pipes_def)
      moreover have "\<not> (lst \<and> o_force out)" using numbered(1) forced by simp
      moreover have "o_err out = fd_get (fdt s1) (errorFd cfg)" using out by (simp add: outside_at_def)
      ultimately show ?thesis
        using numbered(2,4,5) type k c(2,7,8) same_world_create [OF cr] io
        by (simp only: wire_out_def wires_of_def numbered(8) abs_pipes_insert Let_def prod.case
            if_False option.case) simp
    next
      case (Some p')
      have pipe: "is_pipe s1 p'" "B \<inter> ends p' = {}" using inv_drop_pipe(2,4) [OF J Some] by blast+
      then have p: "p = p'" "s' = s1"
        using numbered(6,7) Some is_pipe_distinct [of s1 p'] by simp_all
      have st: "st' = st"
        using map_insert_same [OF sets(1) Some] by (simp add: numbered(8) p)
      obtain n where n: "pipe_at s1 p' = Some n" "fd_get (fdt s1) (writeFd p') = Some (PipeW n)"
        using is_pipe_at [OF pipe(1)] by blast
      have k: "abs_pipes st s1 ?k = Some n" using Some n by (simp add: abs_pipes_def)
      have "writeFd p' \<noteq> STDIN" "writeFd p' \<noteq> STDOUT" using std(1,2) pipe(2) by (auto simp: ends_def)
      moreover have "writeFd p' \<in> open_fds s1" using n(2) by (simp add: open_fds_def)
      ultimately have "outputs_ok io s'" using io open_cfg std p by (auto simp: outputs_ok_def)
      moreover have "(abs_pipes st s1)(?k := Some n) = abs_pipes st s1" using k by auto
      moreover have "\<not> (lst \<and> o_force out)" using numbered(1) forced by simp
      moreover have "o_err out = fd_get (fdt s1) (errorFd cfg)" using out by (simp add: outside_at_def)
      ultimately show ?thesis
        using numbered(2,4,5) type io n k
        by (simp only: wire_out_def wires_of_def st p Let_def prod.case if_False option.case) simp
    qed
  next
    case plain
    with forced out open_cfg show ?thesis
      by (simp add: wire_out_def wires_of_def outside_at_def emptyIoPlan_def)
  qed
  then show ?wires "run \<Longrightarrow> ?ok" ?same by blast+
qed

lemma prepare_card:
  assumes p: "prepareIoPlan c st seg emptyIoPlan f cfg first lst s = Inr (run, st', io, f', s')"
  shows "card (open_fds s') \<le> card (open_fds s) + 2"
proof -
  obtain f1 s1 where t: "take_input cfg first f s = (f1, s1)" by fastforce
  then have "open_fds s1 \<subseteq> open_fds s"
    by (auto simp: take_input_def closeFd_open split: if_splits)
  then have s1: "card (open_fds s1) \<le> card (open_fds s)" by (intro card_mono) simp_all
  have create: "card (open_fds s2) \<le> card (open_fds s1) + 2" if "createPipeOrDie s1 = Inr (q, s2)" for q s2
    using createPipe_facts(5) [OF that] card_insert_le_m1 by (simp add: ends_def card_insert_if)
  have "card (open_fds s') \<le> card (open_fds s1) + 2"
    using p t
  proof (cases rule: prepare_cases)
    case (no_target fd s2)
    have "s2 = s1" using sys_open_fail no_target(5,6) by blast
    then have "open_fds s' \<subseteq> open_fds s1" by (auto simp: no_target(9) closeFd_open)
    then have "card (open_fds s') \<le> card (open_fds s1)" by (intro card_mono) simp_all
    then show ?thesis by simp
  next
    case (redirect fd)
    show ?thesis using sys_open_fds(2) [OF redirect(5,6)] by (simp add: card_insert_if)
  next
    case (ordinary p)
    then show ?thesis using create by blast
  next
    case (numbered p q)
    then show ?thesis using create by (auto split: if_splits)
  qed simp_all
  with s1 show ?thesis by simp
qed

lemma wire_in_facts:
  assumes I: "shell_inv (B \<union> input_fds cfg first) st f s" and B: "B \<inter> input_fds cfg first = {}"
    and a: "(if start then attachIncomingNumberedPipe st k f s else (st, f, s)) = (st1, f1, s1)"
    and t: "take_input cfg first f1 s1 = (f2, s2)"
    and o: "first \<Longrightarrow> o_input out = fd_get (fdt s) (inputFd cfg)"
  shows "wire_in out first start k (wires_of st f s) = wires_of st1 f2 s2 \<and>
    same_on B s s2 \<and> same_world s s2 \<and> open_fds s2 \<subseteq> open_fds s \<and> procs s2 = procs s"
proof -
  have J: "shell_inv (B \<union> input_fds cfg first) st1 f1 s1" using I a by (rule inv_attach_if)
  have at: "abs_pipes st1 s1 = (if start then (abs_pipes st s)(k := None) else abs_pipes st s) \<and>
    fd_get (fdt s1) f1 = (if start \<and> fd_get (fdt s) f = None then map_option PipeR (abs_pipes st s k)
                          else fd_get (fdt s) f) \<and>
    same_on (B \<union> input_fds cfg first) s s1 \<and> same_world s s1 \<and> open_fds s1 \<subseteq> open_fds s \<and>
    procs s1 = procs s \<and> nextPipe s1 = nextPipe s"
  proof (cases start)
    case True
    with a have "attachIncomingNumberedPipe st k f s = (st1, f1, s1)" by simp
    from attach_wires [OF I this] attach_state(4,5) [OF this] True show ?thesis by simp
  qed (use a in auto)
  have ti: "fd_get (fdt s2) f2 = (if first \<and> fd_get (fdt s1) (inputFd cfg) \<noteq> None
         then fd_get (fdt s1) (inputFd cfg) else fd_get (fdt s1) f1) \<and>
       same_on (B \<union> pipe_fds st1) s1 s2 \<and> same_world s1 s2 \<and> open_fds s2 \<subseteq> open_fds s1 \<and>
       procs s2 = procs s1 \<and> nextPipe s2 = nextPipe s1"
    using J B t by (rule take_input_wires)
  have inp: "first \<Longrightarrow> fd_get (fdt s1) (inputFd cfg) = o_input out"
  proof (cases "0 \<le> inputFd cfg")
    case True
    moreover assume first
    ultimately show ?thesis using at o by (simp add: same_on_def input_fds_def)
  next
    case False
    moreover assume first
    ultimately show ?thesis using o by (simp add: fdt.get_negative)
  qed
  have "abs_pipes st1 s2 = abs_pipes st1 s1"
    using ti by (intro abs_pipes_same) (auto simp: same_on_def)
  then have "wire_in out first start k (wires_of st f s) = wires_of st1 f2 s2"
    using at ti inp by (auto simp: wire_in_def wires_of_def)
  moreover have "same_on B s s2" using at ti by (simp add: same_on_def)
  moreover have "same_world s s2" using at ti same_world_trans by blast
  ultimately show ?thesis using at ti by auto
qed

lemma finish_wires:
  assumes K: "shell_inv (B \<union> own io) st f s" and ok: "io_ok B io"
  shows "same_on (B \<union> pipe_fds st \<union> held (nextInFd io)) s (closeParentIo io (snd (closeFd f s)))"
    and "open_fds (closeParentIo io (snd (closeFd f s))) \<subseteq> open_fds s"
    and "same_world s (closeParentIo io (snd (closeFd f s)))"
proof -
  note sets = shell_inv_sets [OF K]
  let ?A = "B \<union> pipe_fds st \<union> held (nextInFd io)"
  have "?A \<inter> held f = {}" "?A \<inter> held (writeFd (ordinaryPipe io)) = {}" "?A \<inter> held (redirectFd io) = {}"
    using sets(3,4,5) ok by (auto simp: io_ok_def own_def)
  then show "same_on ?A s (closeParentIo io (snd (closeFd f s)))"
    unfolding closeParentIo_def by (meson same_on_closeFd_held same_on_trans)
  show "open_fds (closeParentIo io (snd (closeFd f s))) \<subseteq> open_fds s"
    by (auto simp: closeParentIo_def closeFd_open)
  show "same_world s (closeParentIo io (snd (closeFd f s)))"
    unfolding closeParentIo_def by (meson same_world_closeFd same_world_trans)
qed

section \<open>One command\<close>

lemma fork_attempts_subset: "fork_attempts fs = Inr rest \<Longrightarrow> set rest \<subseteq> set fs"
  by (induction fs rule: fork_attempts.induct) auto

lemma exec_step_wires:
  assumes I: "shell_inv (B \<union> input_fds cfg (i = 0)) (shell x) (inFd x) (sys x)"
    and B: "B \<inter> input_fds cfg (i = 0) = {}" and cfg: "config_ok B cfg"
    and argv: "argv (cs ! i) \<noteq> []" and room: "room 1 (sys x)"
    and out: "outside_at out cfg (sys x)"
    and inp: "i = 0 \<Longrightarrow> o_input out = fd_get (fdt (sys x)) (inputFd cfg)"
    and step: "exec_step cs plan wt cfg i x = Inr x'"
  shows "\<exists>ps. procs (sys x') = procs (sys x) @ ps \<and>
    wire_step out (i = 0) (i + 1 = length cs) (segmentStarts plan ! i) (commandSegments plan ! i)
      (cs ! i) (wires_of (shell x) (inFd x) (sys x)) =
      (map child_of ps, wires_of (shell x') (inFd x') (sys x')) \<and>
    same_on B (sys x) (sys x') \<and> same_world (sys x) (sys x') \<and>
    card (open_fds (sys x')) \<le> card (open_fds (sys x)) + 2"
proof -
  let ?seg = "commandSegments plan ! i" and ?start = "segmentStarts plan ! i"
    and ?lst = "i + 1 = length cs" and ?c = "cs ! i"
  obtain st1 f1 s1 run st2 io f2 s2 where
    a: "(if ?start then attachIncomingNumberedPipe (shell x) ?seg (inFd x) (sys x)
         else (shell x, inFd x, sys x)) = (st1, f1, s1)"
    and p: "prepareIoPlan ?c st1 ?seg emptyIoPlan f1 cfg (i = 0) ?lst s1 = Inr (run, st2, io, f2, s2)"
    and x': "if run then (\<exists>q s3 wl bl. forkOrReapUntilSuccess s2 = Inr (q, s3) \<and>
         x' = \<lparr>shell = st2, inFd = nextInFd io, waitList = wl, backgroundList = bl,
           sys = closeParentIo io (snd (closeFd f2 (runChildProcess q ?c st2 io f2 cfg s3)))\<rparr>)
       else x' = x\<lparr>shell := st2, inFd := f2, sys := s2\<rparr>"
    using step
  proof (cases rule: exec_step_cases)
    case skipped
    with argv show ?thesis by simp
  next
    case stopped
    from that [OF stopped(2,3)] stopped(4) show ?thesis by simp
  next
    case ran
    show ?thesis by (rule that [OF ran(2,3)]) (use ran(4,5) in auto)
  qed
  obtain f1' s1' where t: "take_input cfg (i = 0) f1 s1 = (f1', s1')" by fastforce
  have J: "shell_inv (B \<union> input_fds cfg (i = 0)) st1 f1 s1" using I a by (rule inv_attach_if)
  have win: "wire_in out (i = 0) ?start ?seg (wires_of (shell x) (inFd x) (sys x)) = wires_of st1 f1' s1' \<and>
    same_on B (sys x) s1' \<and> same_world (sys x) s1' \<and> open_fds s1' \<subseteq> open_fds (sys x) \<and> procs s1' = procs (sys x)"
    using I B a t inp by (rule wire_in_facts)
  have out1: "outside_at out cfg s1'"
    by (rule outside_at_same [OF out cfg]) (use win in simp_all)
  have room1: "room 1 s1'" by (rule room_less [OF room]) (use win in simp_all)
  note prep = prepare_wires [OF J B p t cfg room1 out1] and inv = prepare_inv [OF J B p]
  have card: "card (open_fds s2) \<le> card (open_fds (sys x)) + 2"
  proof -
    have "open_fds s1 \<subseteq> open_fds (sys x)"
      using a attach_wires [OF I] by (cases ?start) auto
    then have "card (open_fds s1) \<le> card (open_fds (sys x))" by (intro card_mono) simp_all
    with prepare_card [OF p] show ?thesis by simp
  qed
  have world2: "same_on B (sys x) s2" "same_world (sys x) s2" "procs s2 = procs (sys x)"
    using win prep(3) same_on_trans same_world_trans by (blast, blast, simp)
  show ?thesis
  proof (cases run)
    case False
    then have "f2 < 0" using inv(3) by simp
    moreover have "fd_get (fdt s2) (nextInFd io) = None"
    proof -
      have "nextInFd io < 0" using inv(2,3) False by (auto simp: io_ok_def own_def held_def split: if_splits)
      then show ?thesis by (rule fdt.get_negative)
    qed
    ultimately show ?thesis
      using False x' prep(1) win world2 card
      by (intro exI [of _ "[]"]) (simp add: wire_step_def Let_def wires_of_def fdt.get_negative)
  next
    case True
    then obtain q s3 wl bl where f: "forkOrReapUntilSuccess s2 = Inr (q, s3)"
      and x': "x' = \<lparr>shell = st2, inFd = nextInFd io, waitList = wl, backgroundList = bl,
           sys = closeParentIo io (snd (closeFd f2 (runChildProcess q ?c st2 io f2 cfg s3)))\<rparr>"
      using x' by auto
    let ?s4 = "runChildProcess q ?c st2 io f2 cfg s3"
    note fork = fork_fdt [OF f]
    have K: "shell_inv (B \<union> own io) st2 f2 s2" by (rule inv(1))
    have K4: "shell_inv (B \<union> own io) st2 f2 ?s4"
      using K shell_inv_fdt [of ?s4 s2] fork(1) by simp
    note fin = finish_wires [OF K4 inv(2)]
    have ok: "f2 = f1'" "fd_get (fdt s2) f2 = fd_get (fdt s1') f1'" "outputs_ok io s2"
      using prep(2) [OF True] by simp_all
    have std: "{STDIN, STDOUT, STDERR} \<subseteq> B" and own: "B \<inter> own io = {}"
      using cfg inv(2) by (simp_all add: config_ok_def io_ok_def)
    note child = child_standard_fds [OF K std own, of cfg]
    let ?p = "\<lparr>pid = q, p_argv = argv ?c, p_env = applyChildEnvironment st2,
       p_fds = child_fds st2 io f2 cfg (fdt s3)\<rparr>"
    have "fd_get (fdt s2) STDIN = o_stdin out"
      using out1 prep(3) std by (simp add: outside_at_def same_on_def)
    then have stdin: "(if 0 \<le> f2 then fd_get (fdt s2) f2 else fd_get (fdt s2) STDIN) =
        (case fd_get (fdt s1') f1' of None \<Rightarrow> o_stdin out | Some g \<Rightarrow> Some g)"
    proof (cases "0 \<le> f2")
      case t0: True
      then have "f2 \<in> open_fds s2" using shell_inv_sets(2) [OF K] by simp
      then have "fd_get (fdt s2) f2 \<noteq> None" by (simp add: open_fds_def)
      with t0 ok(2) show ?thesis by auto
    next
      case False
      then have "fd_get (fdt s2) f2 = None" by (simp add: fdt.get_negative)
      with False ok(2) \<open>fd_get (fdt s2) STDIN = o_stdin out\<close> show ?thesis by simp
    qed
    have "child_of ?p = (argv ?c,
        (case fd_get (fdt s1') f1' of None \<Rightarrow> o_stdin out | Some g \<Rightarrow> Some g),
        fd_get (fdt s2) (outFd io), fd_get (fdt s2) (errFd io))"
      using ok(3) child fork(1) stdin by (simp add: child_of_def outputs_ok_def)
    moreover have "wires_of (shell x') (inFd x') (sys x') =
        (abs_pipes st2 s2, fd_get (fdt s2) (nextInFd io), nextPipe s2)"
    proof -
      let ?e = "closeParentIo io (snd (closeFd f2 ?s4))"
      have "fdt ?s4 = fdt s2" using fork(1) by simp
      then have same: "same_on (pipe_fds st2 \<union> held (nextInFd io)) s2 ?e"
        using fin(1) by (simp add: same_on_def)
      then have "abs_pipes st2 ?e = abs_pipes st2 s2"
        by (intro abs_pipes_same) (auto simp: same_on_def)
      moreover have "fd_get (fdt ?e) (nextInFd io) = fd_get (fdt s2) (nextInFd io)"
      proof (cases "0 \<le> nextInFd io")
        case True
        with same show ?thesis by (simp add: same_on_def)
      qed (simp add: fdt.get_negative)
      moreover have "nextPipe ?e = nextPipe s2"
        using fork(4) by (simp add: closeParentIo_def)
      ultimately show ?thesis by (simp add: wires_of_def x')
    qed
    ultimately have step: "wire_step out (i = 0) ?lst ?start ?seg ?c (wires_of (shell x) (inFd x) (sys x)) =
        (map child_of [?p], wires_of (shell x') (inFd x') (sys x'))"
      using win prep(1) True by (simp add: wire_step_def Let_def wires_of_def split: option.split)
    have fork_world: "same_world s2 ?s4"
    proof -
      obtain rest where "fork_attempts (forks s2) = Inr rest"
        and "s3 = s2\<lparr>forks := rest, nextPid := Suc (nextPid s2)\<rparr>"
        using f by (auto simp: forkOrReapUntilSuccess_def)
      with fork_attempts_subset [of "forks s2" rest] show ?thesis
        by (simp add: same_world_def runChildProcess_def Let_def split: option.split)
    qed
    have "procs (sys x') = procs (sys x) @ [?p]"
      using world2(3) fork(2) by (simp add: x' closeParentIo_def)
    moreover have "same_on B (sys x) (sys x')"
    proof -
      have "same_on B s2 (sys x')" using fin(1) fork(1) by (simp add: x' same_on_def)
      with world2(1) show ?thesis by (rule same_on_trans)
    qed
    moreover have "same_world (sys x) (sys x')"
      using same_world_trans [OF same_world_trans [OF world2(2) fork_world] fin(3)] by (simp add: x')
    moreover have "card (open_fds (sys x')) \<le> card (open_fds s2)"
    proof (rule card_mono)
      have "open_fds ?s4 = open_fds s2" by (simp add: open_fds_def fork(1))
      then show "open_fds (sys x') \<subseteq> open_fds s2" using fin(2) by (simp add: x')
    qed simp
    ultimately show ?thesis using step card by (intro exI [of _ "[?p]"]) simp
  qed
qed

section \<open>Progress\<close>

lemma fork_total: "FailedNoChild \<notin> set fs \<Longrightarrow> \<exists>rest. fork_attempts fs = Inr rest"
  by (induction fs rule: fork_attempts.induct) auto

lemma reap_round_total:
  "PollError \<notin> set ps \<Longrightarrow> \<exists>cs' b ps'. reap_round ps cs = Inr (cs', b, ps') \<and> set ps' \<subseteq> set ps"
proof (induction ps cs rule: reap_round.induct)
  case (2 ps p don children)
  show ?case
  proof (cases don)
    case True
    with 2 show ?thesis by fastforce
  next
    case False
    have tl: "set (tl ps) \<subseteq> set ps" by (cases ps) auto
    have result: "(case ps of [] \<Rightarrow> StillRunning | r # _ \<Rightarrow> r) \<noteq> PollError"
      using "2.prems" by (cases ps) auto
    have "PollError \<notin> set (tl ps)" using tl "2.prems" by blast
    then obtain cs' b ps' where "reap_round (tl ps) children = Inr (cs', b, ps')" "set ps' \<subseteq> set (tl ps)"
      using "2.IH"(2,3) False result by metis
    with tl result False show ?thesis by (auto simp: Let_def)
  qed
qed auto

lemma graceReap_total: "PollError \<notin> set (polls s) \<Longrightarrow> \<exists>s'. graceReap pids s = Inr s'"
proof -
  have "PollError \<notin> set ps \<Longrightarrow> \<exists>r. graceReap_loop ps cs = Inr r" for ps cs
  proof (induction ps cs rule: graceReap_loop.induct)
    case (1 ps cs)
    from reap_round_total [OF "1.prems"] obtain cs' b ps'
      where r: "reap_round ps cs = Inr (cs', b, ps')" "set ps' \<subseteq> set ps" by metis
    show ?case
    proof (cases b)
      case True
      then have "\<exists>r. graceReap_loop ps' cs' = Inr r"
        using r "1.prems" by (intro "1.IH") auto
      with True r show ?thesis by (subst graceReap_loop.simps) simp
    next
      case False
      with r show ?thesis by (subst graceReap_loop.simps) simp
    qed
  qed
  then show "PollError \<notin> set (polls s) \<Longrightarrow> \<exists>s'. graceReap pids s = Inr s'"
    by (fastforce simp: graceReap_def)
qed

lemma reap_round_polls: "reap_round ps cs = Inr (cs', b, ps') \<Longrightarrow> set ps' \<subseteq> set ps"
proof (induction ps cs arbitrary: cs' b ps' rule: reap_round.induct)
  case (2 ps p don children)
  have "set (tl ps) \<subseteq> set ps" by (cases ps) auto
  with 2 show ?case by (fastforce simp: Let_def split: if_splits prod.splits)
qed simp

lemma graceReap_loop_polls: "graceReap_loop ps cs = Inr (cs', ps') \<Longrightarrow> set ps' \<subseteq> set ps"
proof (induction ps cs rule: graceReap_loop.induct)
  case (1 ps cs)
  from "1.prems" obtain cs1 b ps1 where r: "reap_round ps cs = Inr (cs1, b, ps1)"
    and l: "(if b then graceReap_loop ps1 cs1 else Inr (cs1, ps1)) = Inr (cs', ps')"
    by (subst (asm) graceReap_loop.simps) auto
  from reap_round_polls [OF r] l "1.IH" [of "(cs1, b, ps1)" cs1 "(b, ps1)" b ps1] r show ?case
    by (cases b) auto
qed

lemma graceReap_world:
  "graceReap ps s = Inr s' \<Longrightarrow>
     openable s' = openable s \<and> nofile s' = nofile s \<and> forks s' = forks s \<and> set (polls s') \<subseteq> set (polls s)"
  by (auto simp: graceReap_def dest!: graceReap_loop_polls split: if_splits)

lemma room_closeFd: "room n s \<Longrightarrow> room n (snd (closeFd f s))"
  by (rule room_less) (auto simp: closeFd_open)

lemma prepare_total:
  assumes "room 2 s"
  shows "\<exists>r. prepareIoPlan c st seg emptyIoPlan f cfg first lst s = Inr r"
proof -
  obtain f1 s1 where t: "take_input cfg first f s = (f1, s1)" by fastforce
  then have "room 2 s1"
    using assms room_closeFd by (auto simp: take_input_def split: if_splits)
  then obtain p s' where c: "createPipeOrDie s1 = Inr (p, s')" by (rule createPipe_room)
  obtain fd s2 where o: "sys_open (redirectFile c) (RegFile (redirectFile c)) s1 = (fd, s2)" by fastforce
  obtain f2 s3 where cl: "closeFd f1 s2 = (f2, s3)" by fastforce
  have "\<not> isl (prepareIoPlan c st seg emptyIoPlan f cfg first lst s)"
    unfolding prepareIoPlan_def Let_def take_input_def [symmetric] t prod.case o cl c
    by (simp split: if_split option.split)
  then show ?thesis by (cases "prepareIoPlan c st seg emptyIoPlan f cfg first lst s") auto
qed

lemma closeFd_forks [simp]: "forks (snd (closeFd f s)) = forks s"
  by (simp add: closeFd_def os_simps)

lemma prepare_forks:
  assumes p: "prepareIoPlan c st seg emptyIoPlan f cfg first lst s = Inr (run, st', io, f', s')"
  shows "forks s' = forks s"
proof -
  obtain f1 s1 where t: "take_input cfg first f s = (f1, s1)" by fastforce
  then have s1: "forks s1 = forks s" by (auto simp: take_input_def split: if_splits)
  have create: "forks s2 = forks s1" if "createPipeOrDie s1 = Inr (q, s2)" for q s2
    using that by (auto simp: createPipeOrDie_def sys_pipe_def Let_def split: option.splits if_splits)
  have opens: "forks s2 = forks s1" if "sys_open path g s1 = (fd, s2)" for path g fd s2
    using that by (auto simp: sys_open_def Let_def split: if_splits)
  show ?thesis
    using p t
  proof (cases rule: prepare_cases)
    case (no_target fd s2)
    then show ?thesis using opens s1 by simp
  next
    case (redirect fd)
    then show ?thesis using opens [OF redirect(5)] s1 by simp
  next
    case (ordinary p)
    then show ?thesis using create s1 by simp
  next
    case (numbered p q)
    then show ?thesis using create s1 by (auto split: if_splits)
  qed (simp_all add: s1)
qed

lemma attach_if_frame:
  assumes I: "shell_inv B st f s"
    and a: "(if b then attachIncomingNumberedPipe st k f s else (st, f, s)) = (st1, f1, s1)"
  shows "open_fds s1 \<subseteq> open_fds s \<and> same_world s s1"
proof (cases b)
  case True
  with a have "attachIncomingNumberedPipe st k f s = (st1, f1, s1)" by simp
  from attach_wires [OF I this] show ?thesis by blast
qed (use a in auto)

lemma exec_step_total:
  assumes I: "shell_inv B (shell x) (inFd x) (sys x)" and room: "room 2 (sys x)"
    and forks: "FailedNoChild \<notin> set (forks (sys x))"
  shows "\<exists>x'. exec_step cs plan wt cfg i x = Inr x'"
proof -
  let ?a = "if segmentStarts plan ! i
    then attachIncomingNumberedPipe (shell x) (commandSegments plan ! i) (inFd x) (sys x)
    else (shell x, inFd x, sys x)"
  obtain st1 f1 s1 where a: "?a = (st1, f1, s1)" by (metis prod_cases3)
  have s1: "open_fds s1 \<subseteq> open_fds (sys x)" "same_world (sys x) s1"
    using attach_if_frame [OF I a] by blast+
  have "room 2 s1" by (rule room_less [OF room s1])
  from prepare_total [OF this] obtain r
    where "prepareIoPlan (cs ! i) st1 (commandSegments plan ! i) emptyIoPlan f1 cfg (i = 0)
      (i + 1 = length cs) s1 = Inr r" by blast
  moreover obtain run st2 io f2 s2 where "r = (run, st2, io, f2, s2)" by (cases r)
  ultimately have p: "prepareIoPlan (cs ! i) st1 (commandSegments plan ! i) emptyIoPlan f1 cfg (i = 0)
      (i + 1 = length cs) s1 = Inr (run, st2, io, f2, s2)" by simp
  have "forks s2 = forks s1"
    using prepare_forks [OF p] .
  then have "FailedNoChild \<notin> set (forks s2)"
    using forks s1(2) by (auto simp: same_world_def)
  then obtain rest where "fork_attempts (forks s2) = Inr rest" using fork_total by blast
  then have fork: "forkOrReapUntilSuccess s2 = Inr (nextPid s2, s2\<lparr>forks := rest, nextPid := Suc (nextPid s2)\<rparr>)"
    by (simp add: forkOrReapUntilSuccess_def)
  have "\<not> isl (exec_step cs plan wt cfg i x)"
    unfolding exec_step_def Let_def a prod.case p bindR_simps fork by simp
  then show ?thesis by (cases "exec_step cs plan wt cfg i x") auto
qed

section \<open>A line\<close>

lemma prepare_segments:
  assumes "prepareIoPlan c st seg emptyIoPlan f cfg first lst s = Inr (run, st', io, f', s')"
  shows "executedSegments st' = executedSegments st \<and> env st' = env st"
proof -
  obtain f1 s1 where t: "take_input cfg first f s = (f1, s1)" by fastforce
  show ?thesis using assms t by (cases rule: prepare_cases) simp_all
qed

lemma exec_step_segments:
  assumes "exec_step cs plan wt cfg i x = Inr x'"
  shows "executedSegments (shell x') = executedSegments (shell x) \<and> env (shell x') = env (shell x)"
proof -
  have attach: "executedSegments st1 = executedSegments (shell x) \<and> env st1 = env (shell x)"
    if "(if segmentStarts plan ! i
            then attachIncomingNumberedPipe (shell x) (commandSegments plan ! i) (inFd x) (sys x)
            else (shell x, inFd x, sys x)) = (st1, f1, s1)" for st1 f1 s1
    using that attach_state(1,2) by (cases "segmentStarts plan ! i") force+
  show ?thesis
    using assms
  proof (cases rule: exec_step_cases)
    case skipped
    then show ?thesis by simp
  next
    case stopped
    with attach [OF stopped(2)] prepare_segments [OF stopped(3)] show ?thesis by simp
  next
    case ran
    with attach [OF ran(2)] prepare_segments [OF ran(3)] show ?thesis by simp
  qed
qed

lemma exec_loop_wires:
  assumes "i \<le> length cs" and "\<forall>c \<in> set cs. argv c \<noteq> []"
    and "shell_inv (B \<union> input_fds cfg (i = 0)) (shell x) (inFd x) (sys x)"
    and "B \<inter> input_fds cfg (i = 0) = {}" and cfg: "config_ok B cfg"
    and "room (2 * (length cs - i)) (sys x)" and "FailedNoChild \<notin> set (forks (sys x))"
    and "outside_at out cfg (sys x)"
    and "i = 0 \<Longrightarrow> o_input out = fd_get (fdt (sys x)) (inputFd cfg)"
  shows "\<exists>x' ps. exec_loop cs (buildLinePlan cs st) wt cfg [i..<length cs] x = Inr x' \<and>
    procs (sys x') = procs (sys x) @ ps \<and>
    wire_line out (previous_type cs i) (executedSegments st + int (segments_upto cs i)) (drop i cs)
      (wires_of (shell x) (inFd x) (sys x)) =
      (map child_of ps, wires_of (shell x') (inFd x') (sys x')) \<and>
    same_world (sys x) (sys x') \<and> same_on B (sys x) (sys x') \<and>
    card (open_fds (sys x')) \<le> card (open_fds (sys x)) + 2 * (length cs - i) \<and>
    executedSegments (shell x') = executedSegments (shell x) \<and> env (shell x') = env (shell x)"
  using assms
proof (induction "length cs - i" arbitrary: i x)
  case 0
  then show ?case by (intro exI [of _ x] exI [of _ "[]"]) simp
next
  case (Suc n)
  let ?plan = "buildLinePlan cs st"
  have i: "i < length cs" using Suc.hyps(2) by simp
  have argv: "argv (cs ! i) \<noteq> []" using Suc.prems(2) i by simp
  have room: "room 2 (sys x)" "room 1 (sys x)"
    using Suc.prems(6) i by (auto elim: room_mono)
  obtain y where y: "exec_step cs ?plan wt cfg i x = Inr y"
    using exec_step_total [OF Suc.prems(3) room(1) Suc.prems(7)] by blast
  from exec_step_wires [OF Suc.prems(3,4) cfg argv room(2) Suc.prems(8,9) y]
  obtain ps where ps: "procs (sys y) = procs (sys x) @ ps"
    and w: "wire_step out (i = 0) (i + 1 = length cs) (segmentStarts ?plan ! i) (commandSegments ?plan ! i)
      (cs ! i) (wires_of (shell x) (inFd x) (sys x)) = (map child_of ps, wires_of (shell y) (inFd y) (sys y))"
    and world: "same_on B (sys x) (sys y)" "same_world (sys x) (sys y)"
    and card: "card (open_fds (sys y)) \<le> card (open_fds (sys x)) + 2"
    by auto
  have inv: "shell_inv B (shell y) (inFd y) (sys y)"
    using exec_step_inv [OF Suc.prems(3,4) y] argv by simp
  have none: "input_fds cfg (Suc i = 0) = {}" by (simp add: input_fds_def)
  have "\<exists>x' qs. exec_loop cs ?plan wt cfg [Suc i..<length cs] y = Inr x' \<and>
    procs (sys x') = procs (sys y) @ qs \<and>
    wire_line out (previous_type cs (Suc i)) (executedSegments st + int (segments_upto cs (Suc i)))
      (drop (Suc i) cs) (wires_of (shell y) (inFd y) (sys y)) =
      (map child_of qs, wires_of (shell x') (inFd x') (sys x')) \<and>
    same_world (sys y) (sys x') \<and> same_on B (sys y) (sys x') \<and>
    card (open_fds (sys x')) \<le> card (open_fds (sys y)) + 2 * (length cs - Suc i) \<and>
    executedSegments (shell x') = executedSegments (shell y) \<and> env (shell x') = env (shell y)"
  proof (rule Suc.hyps(1))
    show "n = length cs - Suc i" "Suc i \<le> length cs" using Suc.hyps(2) by simp_all
    show "shell_inv (B \<union> input_fds cfg (Suc i = 0)) (shell y) (inFd y) (sys y)"
      "B \<inter> input_fds cfg (Suc i = 0) = {}" using inv none by simp_all
    show "room (2 * (length cs - Suc i)) (sys y)"
      using Suc.prems(6) card world(2) i by (simp add: room_def same_world_def)
    show "FailedNoChild \<notin> set (forks (sys y))"
      using Suc.prems(7) world(2) by (auto simp: same_world_def)
    show "outside_at out cfg (sys y)" using Suc.prems(8) cfg world by (rule outside_at_same)
  qed (use Suc.prems(2) cfg in simp_all)
  then obtain x' qs where rest: "exec_loop cs ?plan wt cfg [Suc i..<length cs] y = Inr x'"
    "procs (sys x') = procs (sys y) @ qs"
    "wire_line out (Some (nextType (cs ! i))) (executedSegments st + int (segments_upto cs (Suc i)))
      (drop (Suc i) cs) (wires_of (shell y) (inFd y) (sys y)) =
      (map child_of qs, wires_of (shell x') (inFd x') (sys x'))"
    "same_world (sys y) (sys x')" "same_on B (sys y) (sys x')"
    "card (open_fds (sys x')) \<le> card (open_fds (sys y)) + 2 * (length cs - Suc i)" "executedSegments (shell x') = executedSegments (shell y)"
    "env (shell x') = env (shell y)"
    by (auto simp: previous_type_Suc)
  have d: "drop i cs = cs ! i # drop (Suc i) cs" and u: "[i..<length cs] = i # [Suc i..<length cs]"
    using i by (simp_all add: Cons_nth_drop_Suc upt_conv_Cons)
  have first: "previous_type cs i = None \<longleftrightarrow> i = 0" by (simp add: previous_type_def)
  have lst: "drop (Suc i) cs = [] \<longleftrightarrow> i + 1 = length cs" using i by auto
  have seg: "(if previous_type cs i \<noteq> Some ORDINARY_PIPE
        then executedSegments st + int (segments_upto cs i) + 1
        else executedSegments st + int (segments_upto cs i)) = commandSegments ?plan ! i"
    and start: "previous_type cs i \<noteq> Some ORDINARY_PIPE \<longleftrightarrow> segmentStarts ?plan ! i"
    using i by (simp_all add: buildLinePlan_nth segments_upto_Suc starts_segment_previous)
  have seg': "commandSegments ?plan ! i = executedSegments st + int (segments_upto cs (Suc i))"
    using i by (simp add: buildLinePlan_nth)
  have "wire_line out (previous_type cs i) (executedSegments st + int (segments_upto cs i)) (drop i cs)
      (wires_of (shell x) (inFd x) (sys x)) =
      (map child_of (ps @ qs), wires_of (shell x') (inFd x') (sys x'))"
    unfolding d wire_line.simps Let_def seg first lst
    unfolding start seg' w [unfolded seg'] prod.case rest(3) by simp
  moreover have "same_world (sys x) (sys x')" using world(2) rest(4) by (rule same_world_trans)
  moreover have "same_on B (sys x) (sys x')" using world(1) rest(5) by (rule same_on_trans)
  moreover have "card (open_fds (sys x')) \<le> card (open_fds (sys x)) + 2 * (length cs - i)"
    using card rest(6) i by simp
  ultimately show ?case
    using y rest ps exec_step_segments [OF y]
    by (intro exI [of _ x'] exI [of _ "ps @ qs"]) (simp add: u)
qed

text \<open>
  The refinement. The hypotheses: descriptors 0, 1, 2 and those of the configuration are open and
  owned by nobody else, there is room for two descriptors per command, and \<open>fork\<close> and \<open>waitpid\<close> do not
  fail for good.
\<close>

definition line_ready :: "fd set \<Rightarrow> Command list \<Rightarrow> ShellState \<Rightarrow> ExecutionConfig \<Rightarrow> os \<Rightarrow> bool" where
  "line_ready B cs st cfg s \<longleftrightarrow>
     cs \<noteq> [] \<and> (\<forall>c \<in> set cs. argv c \<noteq> []) \<and> config_ok B cfg \<and> B \<inter> held (inputFd cfg) = {} \<and>
     shell_inv (B \<union> held (inputFd cfg)) st (-1) s \<and> room (2 * length cs) s \<and>
     FailedNoChild \<notin> set (forks s) \<and> PollError \<notin> set (polls s)"

lemma executeExternalCommands_wires:
  assumes ready: "line_ready B cs st cfg s"
  obtains st' s' ps w where "executeExternalCommands cs st cfg s = Inr (st', s')"
    and "procs s' = procs s @ ps"
    and "wire_line (outside_of cfg s) None (executedSegments st) cs (wires_of st (-1) s) = (map child_of ps, w)"
    and "abs_pipes st' s' = fst w" and "nextPipe s' = snd (snd w)"
    and "executedSegments st' = executedSegments st + int (segments_upto cs (length cs))"
    and "env st' = env st" and "shell_inv B st' (-1) s'" and "line_kept B (2 * length cs) s s'"
proof -
  let ?x0 = "\<lparr>shell = st, inFd = -1, waitList = [], backgroundList = [], sys = s\<rparr>"
  have "\<exists>x ps. exec_loop cs (buildLinePlan cs st) (buildWaitability cs) cfg [0..<length cs] ?x0 = Inr x \<and>
    procs (sys x) = procs (sys ?x0) @ ps \<and>
    wire_line (outside_of cfg s) (previous_type cs 0) (executedSegments st + int (segments_upto cs 0)) (drop 0 cs)
      (wires_of (shell ?x0) (inFd ?x0) (sys ?x0)) =
      (map child_of ps, wires_of (shell x) (inFd x) (sys x)) \<and>
    same_world (sys ?x0) (sys x) \<and> same_on B (sys ?x0) (sys x) \<and>
    card (open_fds (sys x)) \<le> card (open_fds (sys ?x0)) + 2 * (length cs - 0) \<and>
    executedSegments (shell x) = executedSegments (shell ?x0) \<and> env (shell x) = env (shell ?x0)"
    by (rule exec_loop_wires [where B = B])
      (use ready in \<open>simp_all add: line_ready_def input_fds_def outside_at_def outside_of_def\<close>)
  then obtain x ps where loop: "exec_loop cs (buildLinePlan cs st) (buildWaitability cs) cfg [0..<length cs] ?x0 = Inr x"
    and ps: "procs (sys x) = procs s @ ps"
    and w: "wire_line (outside_of cfg s) None (executedSegments st) cs (wires_of st (-1) s) =
      (map child_of ps, wires_of (shell x) (inFd x) (sys x))"
    and world: "same_world s (sys x)" "same_on B s (sys x)" "card (open_fds (sys x)) \<le> card (open_fds s) + 2 * length cs"
    and seg: "executedSegments (shell x) = executedSegments st" "env (shell x) = env st"
    by (auto simp: previous_type_def)
  let ?s1 = "snd (closeFd (inFd x) (sys x))"
  have "polls ?s1 = polls s" using world by (simp add: same_world_def closeFd_def sys_close_def)
  then have "PollError \<notin> set (polls (?s1\<lparr>waited := waited ?s1 @ waitList x\<rparr>))"
    using ready by (simp add: line_ready_def)
  from graceReap_total [OF this] obtain s' where
    g: "graceReap (backgroundList x) (?s1\<lparr>waited := waited ?s1 @ waitList x\<rparr>) = Inr s'" by blast
  let ?st' = "(shell x)\<lparr>executedSegments := executedSegments (shell x) + segmentCount (buildLinePlan cs st)\<rparr>"
  have run: "executeExternalCommands cs st cfg s = Inr (?st', s')"
    using loop g by (simp add: executeExternalCommands_def Let_def)
  have hyps: "shell_inv (B \<union> held (inputFd cfg)) st (-1) s" "B \<inter> held (inputFd cfg) = {}" "cs \<noteq> []"
    "argv (hd cs) \<noteq> [] \<or> inputFd cfg < 0" using ready by (simp_all add: line_ready_def)
  have inv: "shell_inv B ?st' (-1) s'" by (rule executeExternalCommands_inv [OF hyps run])
  note fs = graceReap_fdt [OF g]
  have same: "same_on (pipe_fds (shell x)) (sys x) s'"
  proof -
    have "held (inFd x) \<inter> pipe_fds (shell x) = {}"
    proof -
      have "open_fds s' = open_fds (sys x) - held (inFd x)"
        using fs by (auto simp: open_fds_def closeFd_open(2))
      moreover have "pipe_fds (shell x) \<subseteq> open_fds s'"
        using shell_inv_sets(2) [OF inv] by (auto simp: pipe_fds_def)
      ultimately show ?thesis by blast
    qed
    then show ?thesis using fs by (auto simp: same_on_def closeFd_open)
  qed
  have "abs_pipes ?st' s' = abs_pipes (shell x) s'" by (simp add: abs_pipes_def fun_eq_iff)
  also have "\<dots> = abs_pipes (shell x) (sys x)" using same by (rule abs_pipes_same)
  finally have abs: "abs_pipes ?st' s' = fst (wires_of (shell x) (inFd x) (sys x))" by (simp add: wires_of_def)
  have opens: "open_fds s' = open_fds (sys x) - held (inFd x)"
    using fs by (auto simp: open_fds_def closeFd_open(2))
  have "same_on B (sys x) s'"
  proof -
    have "held (inFd x) \<inter> B = {}" using opens shell_inv_sets(2) [OF inv] by blast
    then show ?thesis using fs by (auto simp: same_on_def closeFd_open)
  qed
  with world(2) have "same_on B s s'" by (rule same_on_trans)
  moreover have "card (open_fds s') \<le> card (open_fds s) + 2 * length cs"
    using world(3) card_mono [of "open_fds (sys x)" "open_fds s'"] opens by auto
  moreover have "openable s' = openable s \<and> nofile s' = nofile s \<and> set (forks s') \<subseteq> set (forks s) \<and> set (polls s') \<subseteq> set (polls s)"
    using graceReap_world [OF g] world(1) by (auto simp: same_world_def closeFd_def sys_close_def split: if_splits)
  ultimately have kept: "line_kept B (2 * length cs) s s'" by (simp add: line_kept_def)
  show thesis
    by (rule that [OF run _ w abs])
      (use kept ps fs seg inv in \<open>simp_all add: wires_of_def buildLinePlan_eq\<close>)
qed

end
