(* ===== verification/Shell_Session.thy ===== *)
theory Shell_Session
  imports Shell_Wiring
begin

text \<open>
  The class \<open>ShellSession\<close> of \<open>projects/01-npshell/shell_core.h\<close> (the file of the second project
  holds a copy of it): the interactive shell, with its own \<open>prepareIoPlan\<close>, child side and loop. Its
  state is a \<^typ>\<open>ShellState\<close> whose \<open>env\<close> is the environment of the shell's own process, because the
  class sets variables there and its children inherit them. The functions of the class that are the
  same text as those of the engine (\<open>discardIncomingPipe\<close>, \<open>attachIncomingNumberedPipe\<close>,
  \<open>buildLinePlan\<close>, \<open>buildWaitability\<close>, \<open>graceReap\<close>) use the engine's definitions.

  The main lemma says that a line run by the class and the same line run by the engine of the second
  project with its default configuration end in the same state.
\<close>

section \<open>Built-ins\<close>

definition isBuiltin :: "Command \<Rightarrow> bool" where
  "isBuiltin command =
     (let name = (case argv command of [] \<Rightarrow> [] | a # _ \<Rightarrow> a)
      in name = ''setenv'' \<or> name = ''printenv'' \<or> name = ''exit'')"

definition executeBuiltin :: "Command \<Rightarrow> ShellState \<Rightarrow> os \<Rightarrow> ShellState \<times> os" where
  "executeBuiltin command st s =
     (let name = hd (argv command)
      in if name = ''setenv'' then
           (if length (argv command) \<ge> 3
            then (st\<lparr>env := sys_setenv (argv command ! 1) (argv command ! 2) (env st)\<rparr>, s)
            else (st, s))
         else if name = ''printenv'' \<and> length (argv command) \<ge> 2 then
           (case sys_getenv (argv command ! 1) (env st) of
              None \<Rightarrow> (st, s)
            | Some v \<Rightarrow> (st, sys_write STDOUT (v @ [NL]) s))
         else (st, s))"

definition tryRunBuiltin :: "Command \<Rightarrow> ShellState \<Rightarrow> os \<Rightarrow> (bool \<times> ShellState \<times> os) result" where
  "tryRunBuiltin command st s =
     (if \<not> isBuiltin command then Inr (False, st, s)
      else
        (let (st1, s1) = discardIncomingPipe st (executedSegments st + 1) s
         in if hd (argv command) = ''exit'' then Inl (ExitProcess 0)
            else
              (let (st2, s2) = executeBuiltin command st1 s1
               in Inr (True, st2\<lparr>executedSegments := executedSegments st2 + 1\<rparr>, s2))))"

section \<open>External commands\<close>

definition session_prepareIoPlan ::
  "Command \<Rightarrow> ShellState \<Rightarrow> int \<Rightarrow> ReusableIoPlan \<Rightarrow> fd \<Rightarrow> os \<Rightarrow>
   (bool \<times> ShellState \<times> ReusableIoPlan \<times> fd \<times> os) result" where
  "session_prepareIoPlan command st segmentIndex ioPlan fdIn s =
     (if redirectStdout command then
        (let (fd, s1) = sys_open (redirectFile command) (RegFile (redirectFile command)) s
         in if fd < 0 then
              (let (inFd1, s2) = closeFd fdIn s1
               in Inr (False, st, ioPlan\<lparr>redirectFd := fd\<rparr>, inFd1, s2))
            else Inr (True, st, ioPlan\<lparr>redirectFd := fd, outFd := fd\<rparr>, fdIn, s1))
      else if nextType command = ORDINARY_PIPE then
        bindR (createPipeOrDie s) (\<lambda>(p, s1).
          Inr (True, st,
               ioPlan\<lparr>ordinaryPipe := p, outFd := writeFd p, nextInFd := readFd p\<rparr>, fdIn, s1))
      else if \<not> isNumberPipeType (nextType command) then Inr (True, st, ioPlan, fdIn, s)
      else
        (let targetSegment = segmentIndex + nextCount command;
             target = (case map_of (numberedPipes st) targetSegment of
                         None \<Rightarrow> noPipe | Some p \<Rightarrow> p)
         in bindR (if readFd target < 0 \<and> writeFd target < 0 then createPipeOrDie s
                   else Inr (target, s)) (\<lambda>(p, s1).
              (let st1 = st\<lparr>numberedPipes := map_insert targetSegment p (numberedPipes st)\<rparr>;
                   ioPlan1 = ioPlan\<lparr>outFd := writeFd p\<rparr>;
                   ioPlan2 = (if nextType command = NUMBER_PIPE_BOTH
                              then ioPlan1\<lparr>errFd := outFd ioPlan1\<rparr> else ioPlan1)
               in Inr (True, st1, ioPlan2, fdIn, s1)))))"

definition closeChildIo :: "ReusableIoPlan \<Rightarrow> fd \<Rightarrow> fdtab \<Rightarrow> fdtab" where
  "closeChildIo ioPlan fdIn t0 =
     (let t1 = fd_close t0 (readFd (ordinaryPipe ioPlan));
          t2 = fd_close t1 (writeFd (ordinaryPipe ioPlan));
          t3 = fd_close t2 (redirectFd ioPlan);
          t4 = fd_close t3 fdIn
      in if outFd ioPlan \<ge> 0 \<and> outFd ioPlan \<noteq> STDOUT then fd_close t4 (outFd ioPlan) else t4)"

definition session_child_fds :: "ShellState \<Rightarrow> ReusableIoPlan \<Rightarrow> fd \<Rightarrow> fdtab \<Rightarrow> fdtab" where
  "session_child_fds st ioPlan fdIn t0 =
     (let t1 = (if fdIn \<ge> 0 then fd_dup2 t0 fdIn STDIN else t0);
          t2 = (if outFd ioPlan \<ge> 0 \<and> outFd ioPlan \<noteq> STDOUT then fd_dup2 t1 (outFd ioPlan) STDOUT else t1);
          t3 = (if errFd ioPlan \<noteq> STDERR then fd_dup2 t2 (errFd ioPlan) STDERR else t2)
      in closeNumberedPipesInChild st (closeChildIo ioPlan fdIn t3))"

definition session_runChildProcess ::
  "nat \<Rightarrow> Command \<Rightarrow> ShellState \<Rightarrow> ReusableIoPlan \<Rightarrow> fd \<Rightarrow> os \<Rightarrow> os" where
  "session_runChildProcess childPid command st ioPlan fdIn s =
     (let t = session_child_fds st ioPlan fdIn (fdt s);
          name = hd (argv command);
          s1 = s\<lparr>procs := procs s @ [\<lparr>pid = childPid, p_argv = argv command, p_env = env st, p_fds = t\<rparr>]\<rparr>
      in if execable s (env st) name then s1
         else (case fd_get t STDERR of
                 None \<Rightarrow> s1
               | Some f \<Rightarrow> s1\<lparr>written := written s1 @ [(f, ''Unknown command: ['' @ name @ ''].'' @ [NL])]\<rparr>))"

definition session_step ::
  "Command list \<Rightarrow> LinePlan \<Rightarrow> bool list \<Rightarrow> nat \<Rightarrow> exec_state \<Rightarrow> exec_state result" where
  "session_step commands linePlan waitable i x =
     (let command = commands ! i
      in if argv command = [] then Inr x
         else
           (let segmentIndex = commandSegments linePlan ! i;
                (st1, in1, s1) =
                  (if segmentStarts linePlan ! i
                   then attachIncomingNumberedPipe (shell x) segmentIndex (inFd x) (sys x)
                   else (shell x, inFd x, sys x))
            in bindR (session_prepareIoPlan command st1 segmentIndex emptyIoPlan in1 s1)
                 (\<lambda>(run, st2, ioPlan, in2, s2).
                   if \<not> run then Inr (x\<lparr>shell := st2, inFd := in2, sys := s2\<rparr>)
                   else
                     bindR (forkOrReapUntilSuccess s2) (\<lambda>(childPid, s3).
                       (let s4 = session_runChildProcess childPid command st2 ioPlan in2 s3;
                            s5 = snd (closeFd in2 s4);
                            s6 = closeParentIo ioPlan s5
                        in Inr \<lparr>shell = st2, inFd = nextInFd ioPlan,
                                waitList = (if waitable ! i then waitList x @ [childPid] else waitList x),
                                backgroundList = (if waitable ! i then backgroundList x
                                                  else backgroundList x @ [childPid]),
                                sys = s6\<rparr>)))))"

fun session_loop ::
  "Command list \<Rightarrow> LinePlan \<Rightarrow> bool list \<Rightarrow> nat list \<Rightarrow> exec_state \<Rightarrow> exec_state result" where
  "session_loop commands linePlan waitable [] x = Inr x"
| "session_loop commands linePlan waitable (i # is) x =
     bindR (session_step commands linePlan waitable i x) (session_loop commands linePlan waitable is)"

definition session_executeExternalCommands ::
  "Command list \<Rightarrow> LinePlan \<Rightarrow> ShellState \<Rightarrow> os \<Rightarrow> (ShellState \<times> os) result" where
  "session_executeExternalCommands commands linePlan st s =
     (let waitable = buildWaitability commands;
          x0 = \<lparr>shell = st, inFd = -1, waitList = [], backgroundList = [], sys = s\<rparr>
      in bindR (session_loop commands linePlan waitable [0..<length commands] x0) (\<lambda>x.
           (let s1 = snd (closeFd (inFd x) (sys x));
                s2 = s1\<lparr>waited := waited s1 @ waitList x\<rparr>
            in bindR (graceReap (backgroundList x) s2) (\<lambda>s3. Inr (shell x, s3)))))"

section \<open>The session\<close>

definition trimTrailingCarriageReturn :: "string \<Rightarrow> string" where
  "trimTrailingCarriageReturn line = (if line \<noteq> [] \<and> last line = CR then butlast line else line)"

text \<open>What \<open>run\<close> does with the commands of a line, and with a line it has read.\<close>

definition run_commands :: "Command list \<Rightarrow> ShellState \<Rightarrow> os \<Rightarrow> (ShellState \<times> os) result" where
  "run_commands commands st s =
     (if commands = [] then Inr (st, s)
      else bindR (if length commands = 1 then tryRunBuiltin (commands ! 0) st s
                  else Inr (False, st, s)) (\<lambda>(builtin, st1, s1).
        if builtin then Inr (st1, s1)
        else
          (let linePlan = buildLinePlan commands st1
           in bindR (session_executeExternalCommands commands linePlan st1 s1) (\<lambda>(st2, s2).
                Inr (st2\<lparr>executedSegments := executedSegments st2 + segmentCount linePlan\<rparr>, s2)))))"

definition run_line :: "string \<Rightarrow> ShellState \<Rightarrow> os \<Rightarrow> (ShellState \<times> os) result" where
  "run_line input st s =
     (let line = trimTrailingCarriageReturn input
      in if line = [] then Inr (st, s)
         else bindR (parseLine1 line) (\<lambda>commands. run_commands commands st s))"

text \<open>The loop of \<open>run\<close>, over the lines of standard input; the prompt comes before each line and
  before the end of the input is seen.\<close>

fun run_loop :: "string list \<Rightarrow> ShellState \<Rightarrow> os \<Rightarrow> (ShellState \<times> os) result" where
  "run_loop [] st s = Inr (st, sys_write STDOUT ''% '' s)"
| "run_loop (line # lines) st s =
     bindR (run_line line st (sys_write STDOUT ''% '' s)) (\<lambda>(st1, s1). run_loop lines st1 s1)"

text \<open>\<open>environ\<close> is the environment the process starts with.\<close>

definition session_run :: "(string \<times> string) list \<Rightarrow> string \<Rightarrow> os \<Rightarrow> (ShellState \<times> os) result" where
  "session_run environ stdin s =
     run_loop (split stdin NL)
       \<lparr>numberedPipes = [], executedSegments = 0, env = sys_setenv ''PATH'' ''bin:.'' environ\<rparr> s"

text \<open>
  The copy of the class in \<open>projects/02-rwg-server/shell_core.h\<close> has the same functions, and reads lines with
  the parser of that project.
\<close>

definition run_line2 :: "string \<Rightarrow> ShellState \<Rightarrow> os \<Rightarrow> (ShellState \<times> os) result" where
  "run_line2 input st s =
     (let line = trimTrailingCarriageReturn input
      in if line = [] then Inr (st, s)
         else bindR (parseLine line) (\<lambda>commands. run_commands commands st s))"

fun run_loop2 :: "string list \<Rightarrow> ShellState \<Rightarrow> os \<Rightarrow> (ShellState \<times> os) result" where
  "run_loop2 [] st s = Inr (st, sys_write STDOUT ''% '' s)"
| "run_loop2 (line # lines) st s =
     bindR (run_line2 line st (sys_write STDOUT ''% '' s)) (\<lambda>(st1, s1). run_loop2 lines st1 s1)"

definition session_run2 :: "(string \<times> string) list \<Rightarrow> string \<Rightarrow> os \<Rightarrow> (ShellState \<times> os) result" where
  "session_run2 environ stdin s =
     run_loop2 (split stdin NL)
       \<lparr>numberedPipes = [], executedSegments = 0, env = sys_setenv ''PATH'' ''bin:.'' environ\<rparr> s"

section \<open>The class and the engine\<close>

lemma session_prepare:
  "session_prepareIoPlan c st seg emptyIoPlan f s =
     prepareIoPlan c st seg emptyIoPlan f defaultConfig first lst s"
proof -
  have "emptyIoPlan\<lparr>outFd := outputFd defaultConfig, errFd := errorFd defaultConfig\<rparr> = emptyIoPlan"
    by (simp add: emptyIoPlan_def defaultConfig_def)
  moreover have "\<not> (lst \<and> forceLastOutput defaultConfig \<and> outputFd defaultConfig \<ge> 0)"
    "\<not> (first \<and> inputFd defaultConfig \<ge> 0)"
    by (simp_all add: defaultConfig_def)
  ultimately show ?thesis
    unfolding session_prepareIoPlan_def prepareIoPlan_def Let_def by (simp only: if_False prod.case)
qed

text \<open>Closing a list of descriptors depends only on which open descriptors are in it.\<close>

lemma fd_table_eqI:
  assumes "length t = length u" and "\<And>fd. fd_get t fd = fd_get u fd"
  shows "t = u"
proof (rule nth_equalityI [OF assms(1)])
  fix i assume "i < length t"
  with assms(2) [of "int i"] assms(1) show "t ! i = u ! i" by (simp add: fd_get_def)
qed

lemma length_fd_close [simp]: "length (fd_close t fd) = length t"
  by (simp add: fd_close_def)

lemma length_close_fold [simp]: "length (fold (\<lambda>fd t. fd_close t fd) fds t) = length t"
  by (induction fds arbitrary: t) simp_all

lemma length_closes [simp]:
  "length (closeNumberedPipesInChild st t) = length t"
  "length (closeDuplicatedFd fd t) = length t"
  "length (closeExtraFdsInChild fds t) = length t"
proof -
  show "length (closeNumberedPipesInChild st t) = length t"
    by (simp add: closeNumberedPipesInChild_def)
  show dup: "length (closeDuplicatedFd fd t) = length t" for fd t
    by (simp add: closeDuplicatedFd_def)
  show "length (closeExtraFdsInChild fds t) = length t"
    unfolding closeExtraFdsInChild_def by (induction fds arbitrary: t) (simp_all add: dup)
qed

lemma above_base:
  assumes "{STDIN, STDOUT, STDERR} \<subseteq> B" and "x \<notin> B" and "0 \<le> x"
  shows "x > STDERR"
proof -
  have "x \<noteq> 0" "x \<noteq> 1" "x \<noteq> 2" using assms by auto
  with assms(3) show ?thesis by linarith
qed

lemma prepare_default_outputs:
  assumes J: "shell_inv B st f s" and B: "{STDIN, STDOUT, STDERR} \<subseteq> B"
    and p: "prepareIoPlan c st seg emptyIoPlan f defaultConfig first lst s = Inr (True, st', io, f', s')"
  shows "(outFd io = STDOUT \<or> outFd io > STDERR) \<and> (errFd io = STDERR \<or> errFd io = outFd io)"
proof -
  have t: "take_input defaultConfig first f s = (f, s)"
    by (simp add: take_input_def defaultConfig_def)
  have BO: "B \<subseteq> open_fds s" using shell_inv_sets(2) [OF J] by blast
  have fresh: "x > STDERR" if "x \<notin> open_fds s" "0 \<le> x" for x
    using above_base [OF B _ that(2)] BO that(1) by blast
  have created: "writeFd q > STDERR" if "createPipeOrDie s = Inr (q, s2)" for q s2
    using createPipe_facts(4,9,10) [OF that] by (intro fresh) (auto simp: ends_def)
  show ?thesis
    using p t
  proof (cases rule: prepare_cases)
    case (redirect fd)
    then show ?thesis
      using fresh [OF sys_open_fds(1) [OF redirect(5,6)]] by (simp add: emptyIoPlan_def defaultConfig_def)
  next
    case (ordinary q)
    then show ?thesis using created [OF ordinary(6)] by (simp add: emptyIoPlan_def defaultConfig_def)
  next
    case (numbered q r)
    have "writeFd q > STDERR"
    proof (cases "map_of (numberedPipes st) (seg + nextCount c)")
      case None
      then have "createPipeOrDie s = Inr (q, s')" using numbered(6,7) by (simp add: noPipe_def)
      then show ?thesis by (rule created)
    next
      case (Some q')
      note drop = inv_drop_pipe(2,4) [OF J Some]
      have "q = q'" using numbered(6,7) Some is_pipe_distinct [OF drop(2)] by simp
      then show ?thesis
        using drop(1) is_pipe_distinct [OF drop(2)] by (intro above_base [OF B]) (auto simp: ends_def)
    qed
    then show ?thesis using numbered(9) by (simp add: defaultConfig_def)
  qed (simp_all add: emptyIoPlan_def defaultConfig_def)
qed

lemma closeChildIo_get:
  "fd_get (closeNumberedPipesInChild st (closeChildIo io f t)) fd =
     (if fd \<in> pipe_fds st \<or> fd = readFd (ordinaryPipe io) \<or> fd = writeFd (ordinaryPipe io) \<or>
         fd = redirectFd io \<or> fd = f \<or> (outFd io \<ge> 0 \<and> outFd io \<noteq> STDOUT \<and> fd = outFd io)
      then None else fd_get t fd)"
proof -
  have merge: "(if a then None else if b then None else v) = (if b \<or> a then None else v)"
    for a b and v :: "ofile option" by simp
  show ?thesis
    by (cases "outFd io \<ge> 0 \<and> outFd io \<noteq> STDOUT"; unfold closeChildIo_def Let_def,
        simp only: fd_get_closeNumbered fd_get_close merge simp_thms if_True if_False)
      (rule if_cong [OF _ refl refl], blast)+
qed

lemma session_child_fds_eq:
  assumes K: "shell_inv (B \<union> own io) st f s" and B: "{STDIN, STDOUT, STDERR} \<subseteq> B"
    and out: "(outFd io = STDOUT \<or> outFd io > STDERR) \<and> (errFd io = STDERR \<or> errFd io = outFd io)"
  shows "session_child_fds st io f t = child_fds st io f defaultConfig t"
proof (rule fd_table_eqI)
  have dups: "(let t1 = (if f \<ge> 0 then fd_dup2 t f STDIN else t);
          t2 = (if outFd io \<ge> 0 \<and> outFd io \<noteq> STDOUT then fd_dup2 t1 (outFd io) STDOUT else t1)
      in if errFd io \<noteq> STDERR then fd_dup2 t2 (errFd io) STDERR else t2) = child_dups io f t"
    using out by (auto simp: child_dups_def Let_def)
  have session: "session_child_fds st io f t = closeNumberedPipesInChild st (closeChildIo io f (child_dups io f t))"
    unfolding session_child_fds_def dups [symmetric] Let_def ..
  show "length (session_child_fds st io f t) = length (child_fds st io f defaultConfig t)"
    by (simp add: session child_fds_def closeChildIo_def Let_def)
  fix fd
  have f: "0 \<le> f \<Longrightarrow> f > STDERR"
    using shell_inv_sets(4) [OF K, of f] by (intro above_base [OF B]) auto
  show "fd_get (session_child_fds st io f t) fd = fd_get (child_fds st io f defaultConfig t) fd"
  proof (cases "0 \<le> fd")
    case True
    then have "fd = f \<longrightarrow> fd > STDERR" using f by auto
    moreover have "outFd io \<ge> 0 \<and> outFd io \<noteq> STDOUT \<and> fd = outFd io \<longleftrightarrow>
        fd > STDERR \<and> (fd = outFd io \<or> fd = errFd io)"
      using out True by auto
    moreover have "fd \<notin> set (closeInChild defaultConfig)" by (simp add: defaultConfig_def)
    ultimately have c: "(fd \<in> pipe_fds st \<or> fd = readFd (ordinaryPipe io) \<or> fd = writeFd (ordinaryPipe io) \<or>
            fd = redirectFd io \<or> fd = f \<or> (outFd io \<ge> 0 \<and> outFd io \<noteq> STDOUT \<and> fd = outFd io)) =
        (fd \<in> pipe_fds st \<or> fd = readFd (ordinaryPipe io) \<or> fd = writeFd (ordinaryPipe io) \<or>
         fd = redirectFd io \<or>
         fd > STDERR \<and> (fd \<in> set (closeInChild defaultConfig) \<or> fd = f \<or> fd = outFd io \<or> fd = errFd io))"
      by argo
    show ?thesis unfolding session closeChildIo_get child_fds_get by (rule if_cong [OF c refl refl])
  qed (simp add: fdt.get_negative)
qed

text \<open>A child of the class inherits the environment; a child of the engine gets a copy of the map.\<close>

definition env_ok :: "(string \<times> string) list \<Rightarrow> bool" where
  "env_ok e \<longleftrightarrow> map_wf e \<and> (\<forall>k \<in> fst ` set e. env_name k)"

lemma env_ok_apply: "env_ok (env st) \<Longrightarrow> applyChildEnvironment st = env st"
  using setenv_all [of "[]" "env st"] by (simp add: env_ok_def applyChildEnvironment_def)

lemma env_ok_setenv: "env_ok e \<Longrightarrow> env_ok (sys_setenv k v e)"
proof -
  assume "env_ok e"
  moreover have "fst ` set (map_insert k v e) = insert k (fst ` set e)"
    using keys_insert [of k v e] by simp
  ultimately show ?thesis
  proof (cases "env_name k")
    case True
    then have S: "sys_setenv k v e = map_insert k v e" by (simp add: sys_setenv_def)
    show ?thesis
      unfolding env_ok_def S \<open>fst ` set (map_insert k v e) = insert k (fst ` set e)\<close>
      using True \<open>env_ok e\<close> by (auto simp: env_ok_def map_wf_insert)
  qed (simp add: sys_setenv_def)
qed

lemma session_step_eq:
  assumes I: "shell_inv B (shell x) (inFd x) (sys x)" and B: "{STDIN, STDOUT, STDERR} \<subseteq> B"
    and env: "env_ok (env (shell x))"
  shows "session_step cs plan wt i x = exec_step cs plan wt defaultConfig i x"
proof (cases "argv (cs ! i) = []")
  case True
  then show ?thesis by (simp add: session_step_def exec_step_def)
next
  case False
  let ?seg = "commandSegments plan ! i"
  obtain st1 f1 s1 where a: "(if segmentStarts plan ! i
      then attachIncomingNumberedPipe (shell x) ?seg (inFd x) (sys x)
      else (shell x, inFd x, sys x)) = (st1, f1, s1)" by (metis prod_cases3)
  have J: "shell_inv B st1 f1 s1" using I a by (rule inv_attach_if)
  have env1: "env st1 = env (shell x)"
    using a attach_state(2) by (cases "segmentStarts plan ! i") force+
  let ?prep = "prepareIoPlan (cs ! i) st1 ?seg emptyIoPlan f1 defaultConfig (i = 0) (i + 1 = length cs) s1"
  have child: "session_runChildProcess q (cs ! i) st2 io f2 s3 =
      runChildProcess q (cs ! i) st2 io f2 defaultConfig s3"
    if p: "?prep = Inr (True, st2, io, f2, s2)" for st2 io f2 s2 q s3
  proof -
    have none: "input_fds defaultConfig (i = 0) = {}" by (simp add: input_fds_def defaultConfig_def)
    have K: "shell_inv (B \<union> own io) st2 f2 s2"
      by (rule prepare_inv(1) [OF _ _ p]) (use J none in simp_all)
    have "env_ok (env st2)" using prepare_segments [OF p] env1 env by simp
    then show ?thesis
      using session_child_fds_eq [OF K B prepare_default_outputs [OF J B p]] env_ok_apply
      by (simp add: session_runChildProcess_def runChildProcess_def Let_def)
  qed
  show ?thesis
  proof (cases ?prep)
    case (Inl e)
    then show ?thesis
      unfolding session_step_def exec_step_def Let_def a prod.case
      by (subst session_prepare [of _ _ _ _ _ "i = 0" "i + 1 = length cs"]) (simp only: Inl bindR_simps)
  next
    case (Inr r)
    obtain run st2 io f2 s2 where r: "r = (run, st2, io, f2, s2)" by (cases r)
    have child': "session_runChildProcess q (cs ! i) st2 io f2 s3 =
        runChildProcess q (cs ! i) st2 io f2 defaultConfig s3" if run for q s3
      using child [of st2 io f2 s2] Inr r that by simp
    have prep: "?prep = Inr (run, st2, io, f2, s2)" using Inr r by simp
    show ?thesis
      unfolding session_step_def exec_step_def Let_def a prod.case
        session_prepare [of _ _ _ _ _ "i = 0" "i + 1 = length cs"] prep bindR_simps
      using child' by (cases run) simp_all
  qed
qed

lemma default_inputs [simp]: "input_fds defaultConfig b = {}"
  by (simp add: input_fds_def defaultConfig_def)

lemma session_loop_eq:
  assumes "shell_inv B (shell x) (inFd x) (sys x)" and B: "{STDIN, STDOUT, STDERR} \<subseteq> B"
    and "env_ok (env (shell x))"
  shows "session_loop cs plan wt is x = exec_loop cs plan wt defaultConfig is x"
  using assms(1,3)
proof (induction "is" arbitrary: x)
  case (Cons i "is")
  have eq: "session_step cs plan wt i x = exec_step cs plan wt defaultConfig i x"
    using Cons.prems(1) B Cons.prems(2) by (rule session_step_eq)
  show ?case
  proof (cases "exec_step cs plan wt defaultConfig i x")
    case (Inr y)
    have "shell_inv B (shell y) (inFd y) (sys y)"
      by (rule exec_step_inv [OF _ _ Inr]) (simp_all add: Cons.prems)
    moreover have "env_ok (env (shell y))"
      using exec_step_segments [OF Inr] Cons.prems(2) by simp
    ultimately show ?thesis using Cons.IH eq Inr by simp
  qed (simp add: eq)
qed simp

lemma exec_loop_segments:
  assumes "exec_loop cs plan wt cfg is x = Inr x'"
  shows "executedSegments (shell x') = executedSegments (shell x) \<and> env (shell x') = env (shell x)"
  using assms
proof (induction "is" arbitrary: x)
  case (Cons i "is")
  then obtain y where "exec_step cs plan wt cfg i x = Inr y" "exec_loop cs plan wt cfg is y = Inr x'"
    by auto
  with Cons.IH exec_step_segments show ?case by fastforce
qed simp

lemma executeExternalCommands_env:
  assumes "executeExternalCommands cs st cfg s = Inr (st', s')"
  shows "env st' = env st"
  using assms
proof (cases rule: executeExternalCommands_cases)
  case (1 x)
  from exec_loop_segments [OF 1(1)] 1(2) show ?thesis by simp
qed

lemma session_execute_eq:
  assumes I: "shell_inv B st (-1) s" and B: "{STDIN, STDOUT, STDERR} \<subseteq> B" and env: "env_ok (env st)"
  shows "bindR (session_executeExternalCommands cs (buildLinePlan cs st) st s) (\<lambda>(st', s').
           Inr (st'\<lparr>executedSegments := executedSegments st' + segmentCount (buildLinePlan cs st)\<rparr>, s')) =
         executeExternalCommands cs st defaultConfig s"
proof -
  let ?x0 = "\<lparr>shell = st, inFd = -1, waitList = [], backgroundList = [], sys = s\<rparr>"
  have loop: "session_loop cs (buildLinePlan cs st) (buildWaitability cs) [0..<length cs] ?x0 =
      exec_loop cs (buildLinePlan cs st) (buildWaitability cs) defaultConfig [0..<length cs] ?x0"
    using I B env by (intro session_loop_eq) simp_all
  have assoc: "bindR (bindR r g) h = bindR r (\<lambda>y. bindR (g y) h)"
    for r :: "exec_state result" and g :: "exec_state \<Rightarrow> (ShellState \<times> os) result"
      and h :: "ShellState \<times> os \<Rightarrow> (ShellState \<times> os) result"
    by (cases r) simp_all
  have assoc': "bindR (bindR r (\<lambda>s3. Inr (st', s3))) h = bindR r (\<lambda>s3. h (st', s3))"
    for r :: "os result" and st' and h :: "ShellState \<times> os \<Rightarrow> (ShellState \<times> os) result"
    by (cases r) simp_all
  show ?thesis
    unfolding session_executeExternalCommands_def executeExternalCommands_def Let_def loop assoc assoc' prod.case ..
qed

section \<open>Every line keeps the descriptors\<close>

lemma executeBuiltin_keeps:
  assumes "executeBuiltin c st s = (st', s')"
  shows "numberedPipes st' = numberedPipes st \<and> fdt s' = fdt s \<and> (env_ok (env st) \<longrightarrow> env_ok (env st'))"
  using assms by (auto simp: executeBuiltin_def Let_def os_simps env_ok_setenv split: if_splits option.splits)

lemma tryRunBuiltin_inv:
  assumes I: "shell_inv B st (-1) s" and env: "env_ok (env st)"
    and r: "tryRunBuiltin c st s = Inr (b, st', s')"
  shows "shell_inv B st' (-1) s' \<and> env_ok (env st')"
proof (cases "isBuiltin c")
  case True
  obtain st1 s1 where d: "discardIncomingPipe st (executedSegments st + 1) s = (st1, s1)" by fastforce
  obtain st2 s2 where e: "executeBuiltin c st1 s1 = (st2, s2)" by fastforce
  have "st' = st2\<lparr>executedSegments := executedSegments st2 + 1\<rparr>" "s' = s2"
    using r True d e by (auto simp: tryRunBuiltin_def split: if_splits)
  moreover have "shell_inv B st1 (-1) s1" using I d by (rule inv_discard)
  moreover have "env_ok (env st1)" using discard_state(2) [OF d] env by simp
  ultimately show ?thesis
    using executeBuiltin_keeps [OF e] shell_inv_fdt [of s2 s1] shell_inv_shell [of st' st1] by simp
qed (use assms in \<open>simp add: tryRunBuiltin_def\<close>)

lemma run_commands_inv:
  assumes I: "shell_inv B st (-1) s" and B: "{STDIN, STDOUT, STDERR} \<subseteq> B" and env: "env_ok (env st)"
    and r: "run_commands cs st s = Inr (st', s')"
  shows "shell_inv B st' (-1) s' \<and> env_ok (env st')"
proof (cases "cs = []")
  case True
  with r I env show ?thesis by (simp add: run_commands_def)
next
  case cs: False
  let ?builtin = "if length cs = 1 then tryRunBuiltin (cs ! 0) st s else Inr (False, st, s)"
  let ?rest = "\<lambda>(b, st1, s1). if b then Inr (st1, s1)
      else bindR (session_executeExternalCommands cs (buildLinePlan cs st1) st1 s1) (\<lambda>(st', s').
         Inr (st'\<lparr>executedSegments := executedSegments st' + segmentCount (buildLinePlan cs st1)\<rparr>, s'))"
  from r cs have "bindR ?builtin ?rest = Inr (st', s')"
    unfolding run_commands_def Let_def by (simp only: if_False)
  then obtain x where x: "?builtin = Inr x" "?rest x = Inr (st', s')"
    unfolding bindR_eq_Inr by blast
  obtain b st1 s1 where xs: "x = (b, st1, s1)" by (cases x)
  note b = x(1) [unfolded xs] and rest = x(2) [unfolded xs prod.case]
  have J: "shell_inv B st1 (-1) s1 \<and> env_ok (env st1)"
  proof (cases "length cs = 1")
    case True
    with b have "tryRunBuiltin (cs ! 0) st s = Inr (b, st1, s1)" by (simp only: if_True refl)
    then show ?thesis by (rule tryRunBuiltin_inv [OF I env])
  next
    case False
    with b have "st1 = st" "s1 = s" by (simp_all only: if_False sum.inject prod.inject)
    with I env show ?thesis by simp
  qed
  show ?thesis
  proof (cases b)
    case True
    with rest have "st' = st1" "s' = s1" by (simp_all only: if_True sum.inject prod.inject)
    with J show ?thesis by simp
  next
    case False
    from J have "shell_inv B st1 (-1) s1" "env_ok (env st1)" by blast+
    from rest [unfolded session_execute_eq [OF this(1) B this(2)]] False
    have run: "executeExternalCommands cs st1 defaultConfig s1 = Inr (st', s')"
      by (simp only: if_False)
    have "shell_inv B st' (-1) s'"
      by (rule executeExternalCommands_inv [OF _ _ cs _ run]) (use J in \<open>simp_all add: defaultConfig_def\<close>)
    with executeExternalCommands_env [OF run] J show ?thesis by simp
  qed
qed

lemma run_line_inv:
  assumes "shell_inv B st (-1) s" and "{STDIN, STDOUT, STDERR} \<subseteq> B" and "env_ok (env st)"
    and "run_line input st s = Inr (st', s') \<or> run_line2 input st s = Inr (st', s')"
  shows "shell_inv B st' (-1) s' \<and> env_ok (env st')"
proof (cases "trimTrailingCarriageReturn input = []")
  case True
  with assms show ?thesis by (auto simp: run_line_def run_line2_def Let_def)
next
  case False
  with assms(4) obtain cs where "run_commands cs st s = Inr (st', s')"
    by (auto simp: run_line_def run_line2_def Let_def)
  then show ?thesis by (rule run_commands_inv [OF assms(1-3)])
qed

lemma prompt_inv: "shell_inv B st f s \<Longrightarrow> shell_inv B st f (sys_write STDOUT msg s)"
  using shell_inv_fdt [of "sys_write STDOUT msg s" s] by (simp add: os_simps)

lemma run_loop_inv:
  assumes "shell_inv B st (-1) s" and "{STDIN, STDOUT, STDERR} \<subseteq> B" and "env_ok (env st)"
    and "run_loop lines st s = Inr (st', s')"
  shows "shell_inv B st' (-1) s' \<and> env_ok (env st')"
  using assms
proof (induction lines arbitrary: st s)
  case (Cons line lines)
  then obtain st1 s1 where "run_line line st (sys_write STDOUT ''% '' s) = Inr (st1, s1)"
    and "run_loop lines st1 s1 = Inr (st', s')" by auto
  with Cons.IH run_line_inv [OF prompt_inv [OF Cons.prems(1)] Cons.prems(2,3)] Cons.prems(2)
  show ?case by blast
qed (auto intro: prompt_inv)

lemma run_loop2_inv:
  assumes "shell_inv B st (-1) s" and "{STDIN, STDOUT, STDERR} \<subseteq> B" and "env_ok (env st)"
    and "run_loop2 lines st s = Inr (st', s')"
  shows "shell_inv B st' (-1) s' \<and> env_ok (env st')"
  using assms
proof (induction lines arbitrary: st s)
  case (Cons line lines)
  then obtain st1 s1 where "run_line2 line st (sys_write STDOUT ''% '' s) = Inr (st1, s1)"
    and "run_loop2 lines st1 s1 = Inr (st', s')" by auto
  with Cons.IH run_line_inv [OF prompt_inv [OF Cons.prems(1)] Cons.prems(2,3)] Cons.prems(2)
  show ?case by blast
qed (auto intro: prompt_inv)

end
