(* ===== verification/Shell_Theorems.thy ===== *)
theory Shell_Theorems
  imports Shell_Session
begin

text \<open>
  What the shell of \<open>projects/01-npshell\<close> and the engine of \<open>projects/02-rwg-server\<close> guarantee: the
  parser, the plan of a line, the wiring of its children, the ownership of descriptors and the
  agreement of the two implementations. Each theorem is followed by an instance at a concrete line.
\<close>

section \<open>Concrete data for the instances\<close>

definition demo_os :: os where
  "demo_os =
     \<lparr>fdt = [Some (Terminal 0), Some (Terminal 1), Some (Terminal 2)], nextPipe = 0, nofile = 20,
      openable = (\<lambda>path. path \<noteq> ''/root/x''), execable = (\<lambda>e name. True), forks = [FailedReaped], polls = [],
      nextPid = 100, procs = [], waited = [], written = []\<rparr>"

definition plain :: "string list \<Rightarrow> NextType \<Rightarrow> int \<Rightarrow> Command" where
  "plain ws t n = \<lparr>argv = ws, nextType = t, nextCount = n, redirectStdout = False, redirectFile = []\<rparr>"

definition demo_line :: "Command list" where
  "demo_line = [plain [''ls''] ORDINARY_PIPE 0, plain [''cat''] NUMBER_PIPE_BOTH 1, plain [''number''] NONE 0]"

lemma plain_simps [simp]:
  "argv (plain ws t n) = ws" "nextType (plain ws t n) = t" "nextCount (plain ws t n) = n"
  "redirectStdout (plain ws t n) = False" "redirectFile (plain ws t n) = []"
  by (simp_all add: plain_def)

lemma demo_open: "open_fds demo_os = {0, 1, 2}"
proof -
  have "fd_get (fdt demo_os) x \<noteq> None \<longleftrightarrow> x = 0 \<or> x = 1 \<or> x = 2" for x
    by (auto simp: demo_os_def fd_get_def nth_Cons split: nat.splits)
  then show ?thesis by (auto simp: open_fds_def)
qed

lemma demo_inv:
  assumes "numberedPipes st = []"
  shows "shell_inv {0, 1, 2} st (-1) demo_os"
  using assms by (simp add: shell_inv_def pipe_fds_def demo_open)

lemma demo_config: "config_ok {0, 1, 2} defaultConfig"
  by (simp add: config_ok_def defaultConfig_def)

lemma demo_ready: "line_ready {0, 1, 2} demo_line initialShellState defaultConfig demo_os"
proof -
  have "shell_inv {0, 1, 2} initialShellState (-1) demo_os" by (rule demo_inv) (simp add: initialShellState_def)
  moreover have "room (2 * length demo_line) demo_os"
    by (simp add: room_def demo_open demo_line_def) (simp add: demo_os_def)
  moreover have "inputFd defaultConfig = -1" by (simp add: defaultConfig_def)
  ultimately show ?thesis
    using demo_config by (simp add: line_ready_def) (simp add: demo_line_def demo_os_def)
qed

section \<open>Parsing\<close>

text \<open>C20. A line parses to well-formed commands (every word a plain token, every count an \<open>int\<close>
  that is not negative, every command but the last ended by a pipe), or a number in it is not an
  \<open>int\<close>; there is no third outcome.\<close>

theorem parse_outcome:
  "case parseLine line of
     Inr cs \<Rightarrow> wf_line isNumberPipeToken cs
   | Inl e \<Rightarrow> e = SignedOverflow \<or> e = Uncaught OutOfRange"
proof (cases "parseLine line")
  case (Inl e)
  then show ?thesis using parseLine_failure [of line e] by (simp add: number_failure_def)
next
  case (Inr cs)
  have "wf_line isNumberPipeToken cs"
  proof (cases "splitBySpace line = []")
    case True
    with Inr show ?thesis by (simp add: parseLine_def wf_line_def)
  next
    case False
    with Inr show ?thesis
      by (intro plus.wf_parse [of "splitBySpace line"]) (auto simp: parseLine_def splitBySpace_good)
  qed
  with Inr show ?thesis by simp
qed

text \<open>C19. Printing well-formed commands and parsing the text gives the commands back.\<close>

theorem parse_unparse_line:
  assumes "wf_line isNumberPipeToken cs"
  shows "parseLine (unparse cs) = Inr cs"
  using plus.parse_unparse [OF assms] by (auto simp: parseLine_def Let_def)

lemma demo_wf: "wf_line isNumberPipeToken demo_line"
  by (simp add: demo_line_def wf_line_def wf_command_def plain_token_def good_token_def
      isNumberPipeToken_def isspace_def isNumberPipeType_def)

lemma parse_unparse_line_instance: "parseLine (unparse demo_line) = Inr demo_line"
  by (rule parse_unparse_line [OF demo_wf])

text \<open>The count of a numbered pipe such as \<open>|1+2+3\<close> is the sum of its terms, and it is delivered
  exactly when every term and the sum fit an \<open>int\<close>.\<close>

theorem pipe_count_is_sum:
  assumes "isNumberPipeToken token marker"
  shows "parseNumberPipeCount token = Inr n \<longleftrightarrow> n = sum_list (pipe_terms (tl token)) \<and> n \<le> INT_MAX"
  by (rule parseNumberPipeCount_sum [OF assms])

lemma pipe_count_is_sum_instance: "parseNumberPipeCount ''|10+2+31'' = Inr 43"
proof -
  have "isNumberPipeToken ''|10+2+31'' CHR ''|''" and "sum_list (pipe_terms (tl ''|10+2+31'')) = 43"
    by code_simp+
  with pipe_count_is_sum [of "''|10+2+31''" "CHR ''|''" 43] show ?thesis by simp
qed

lemma isNumberPipeToken_Cons:
  "\<forall>c \<in> set ds. isdigit c \<Longrightarrow> ds \<noteq> [] \<Longrightarrow> isNumberPipeToken (m # ds) m"
  by (simp add: isNumberPipeToken_def numberToken_digits)

text \<open>A pipe number that is not an \<open>int\<close> ends the program: the exception of \<open>std::stoi\<close> leaves
  \<open>parseLine\<close>, and nothing catches it.\<close>

theorem large_number_uncaught:
  assumes "int k > INT_MAX"
  shows "parseLine (''ls |'' @ nat_to_string k) = Inl (Uncaught OutOfRange)"
proof -
  let ?t = "CHR ''|'' # nat_to_string k"
  have digits: "\<forall>c \<in> set (nat_to_string k). isdigit c" by (rule nat_to_string_digits)
  have good: "good_token ?t" by (rule plus.good_number_token) simp
  have "''ls |'' @ nat_to_string k = ''ls'' @ CHR '' '' # ?t" by simp
  then have tokens: "splitBySpace (''ls |'' @ nat_to_string k) = [''ls'', ?t]"
    using splitBySpace_token(1) [of "''ls''" ?t] splitBySpace_token(2) [OF good]
    by (simp add: good_token_def isspace_def)
  have count: "parseNumberPipeCount ?t = Inl (Uncaught OutOfRange)"
    using assms digits stoi_digits [OF nat_to_string_nonempty digits] pipeCount_digits [OF nat_to_string_nonempty digits]
    by (simp add: parseNumberPipeCount_def)
  have "isNumberPipeToken ?t CHR ''|''" using digits by (rule isNumberPipeToken_Cons) simp
  then show ?thesis
    unfolding parseLine_def Let_def tokens
    using count by (simp add: isNumberPipeToken_def [of "''ls''"])
qed

lemma large_number_uncaught_instance: "parseLine (''ls |'' @ nat_to_string 99999999999) = Inl (Uncaught OutOfRange)"
  by (rule large_number_uncaught) simp

text \<open>On a line without \<open>+\<close> the parsers of the two projects give the same result.\<close>

theorem parsers_agree:
  assumes "\<forall>t \<in> set (splitBySpace line). PLUS \<notin> set t"
  shows "parseLine line = parseLine1 line"
  by (rule parseLine_parseLine1 [OF assms])

lemma parsers_agree_instance: "parseLine ''ls | cat |2'' = parseLine1 ''ls | cat |2''"
  by (rule parsers_agree) code_simp

text \<open>A line without user-pipe tokens means the same to the chat server as to the shell: the same
  commands or the same failure, and no request.\<close>

theorem commands_without_user_pipes:
  assumes "\<forall>t \<in> set (splitBySpace line). \<not> isUserPipeToken t CHR ''<'' \<and> \<not> isUserPipeToken t CHR ''>''"
  shows "parseCommands line = bindR (parseLine line) (\<lambda>cs. Inr (cs, emptyRequest))"
  using parseCommands_loop_parseLine_loop [OF assms]
  by (simp add: parseCommands_def parseLine_def Let_def)

lemma commands_without_user_pipes_instance:
  "parseCommands ''ls > f | cat |2'' = bindR (parseLine ''ls > f | cat |2'') (\<lambda>cs. Inr (cs, emptyRequest))"
  by (rule commands_without_user_pipes) code_simp

section \<open>The plan of a line\<close>

text \<open>\<open>buildLinePlan\<close>: a segment starts at the first command and after every command that does
  not end in an ordinary pipe; the segments of the line are numbered on from the shell's counter.\<close>

theorem line_plan:
  "buildLinePlan cs st =
     \<lparr>commandSegments = map (\<lambda>j. executedSegments st + int (segments_upto cs (Suc j))) [0..<length cs],
      segmentStarts = map (starts_segment cs) [0..<length cs],
      segmentCount = int (segments_upto cs (length cs))\<rparr>"
  by (rule buildLinePlan_eq)

text \<open>The shell waits for a command unless ordinary pipes lead from it to a numbered pipe.\<close>

theorem wait_policy:
  "buildWaitability cs = map (\<lambda>k. \<not> reaches_number_pipe cs k) [0..<length cs]"
  by (rule nth_equalityI) (simp_all add: buildWaitability_nth)

section \<open>The children of a line\<close>









section \<open>Descriptors\<close>

text \<open>A line keeps the descriptors: when it returns, the shell owns the two ends of each numbered
  pipe it still has to deliver and nothing else, whatever the line was, as long as its first command has a
  word or there is no input from a user pipe.\<close>

theorem line_keeps_descriptors:
  assumes "shell_inv (B \<union> held (inputFd cfg)) st (-1) s" and "B \<inter> held (inputFd cfg) = {}"
    and "cs \<noteq> []" and "argv (hd cs) \<noteq> [] \<or> inputFd cfg < 0"
    and "executeExternalCommands cs st cfg s = Inr (st', s')"
  shows "shell_inv B st' (-1) s'"
  by (rule executeExternalCommands_inv [OF assms])

lemma line_keeps_descriptors_instance:
  "\<exists>st' s'. executeExternalCommands demo_line initialShellState defaultConfig demo_os = Inr (st', s') \<and>
     shell_inv {0, 1, 2} st' (-1) s'"
proof -
  obtain st' s' where run: "executeExternalCommands demo_line initialShellState defaultConfig demo_os = Inr (st', s')"
    using executeExternalCommands_wires [OF demo_ready] by metis
  have none: "held (inputFd defaultConfig) = {}" "inputFd defaultConfig < 0" by (simp_all add: defaultConfig_def)
  have "shell_inv {0, 1, 2} st' (-1) s'"
    by (rule line_keeps_descriptors [OF _ _ _ _ run])
      (simp_all add: none demo_inv initialShellState_def, simp add: demo_line_def)
  with run show ?thesis by blast
qed

text \<open>The exception to this: when the first command of a line is empty (\<open>| cat <3\<close>), the descriptor
  of the user pipe stays open after the line, and nothing refers to it any more.\<close>

theorem empty_first_command_leaks:
  assumes "shell_inv (B \<union> held (inputFd cfg)) st (-1) s" and "cs \<noteq> []" and "argv (hd cs) = []"
    and "executeExternalCommands cs st cfg s = Inr (st', s')" and "0 \<le> inputFd cfg" and "inputFd cfg \<notin> B"
  shows "inputFd cfg \<in> open_fds s' \<and> inputFd cfg \<notin> B \<union> pipe_fds st'"
proof -
  have "shell_inv (B \<union> held (inputFd cfg)) st' (-1) s'"
    using assms(1,2,3,4) by (rule executeExternalCommands_leak)
  note sets = shell_inv_sets [OF this]
  have "inputFd cfg \<in> held (inputFd cfg)" using assms(5) by simp
  then show ?thesis using sets(2) sets(3) [of "inputFd cfg"] assms(6) by auto
qed

definition leak_os :: os where
  "leak_os = demo_os\<lparr>fdt := fdt demo_os @ [Some (PipeR 7)]\<rparr>"

definition leak_line :: "Command list" where
  "leak_line = [plain [] ORDINARY_PIPE 0]"

lemma empty_first_command_leaks_instance:
  "\<exists>st' s'. executeExternalCommands leak_line initialShellState (defaultConfig\<lparr>inputFd := 3\<rparr>) leak_os = Inr (st', s') \<and>
     3 \<in> open_fds s' \<and> 3 \<notin> {0, 1, 2} \<union> pipe_fds st'"
proof -
  let ?cfg = "defaultConfig\<lparr>inputFd := 3\<rparr>"
  have "fd_get (fdt leak_os) x \<noteq> None \<longleftrightarrow> x = 0 \<or> x = 1 \<or> x = 2 \<or> x = 3" for x
    by (auto simp: leak_os_def demo_os_def fd_get_def nth_Cons split: nat.splits)
  then have I: "shell_inv ({0, 1, 2} \<union> held (inputFd ?cfg)) initialShellState (-1) leak_os"
    by (auto simp: shell_inv_def initialShellState_def pipe_fds_def open_fds_def)
  have "\<not> isl (executeExternalCommands leak_line initialShellState ?cfg leak_os)"
    by (simp add: executeExternalCommands_def leak_line_def Let_def exec_step_def closeFd_def graceReap_def
        leak_os_def demo_os_def graceReap_loop.simps undone_def)
  then obtain r where run: "executeExternalCommands leak_line initialShellState ?cfg leak_os = Inr r"
    by (cases "executeExternalCommands leak_line initialShellState ?cfg leak_os") auto
  obtain st' s' where r: "r = (st', s')" by (cases r)
  have "inputFd ?cfg \<in> open_fds s' \<and> inputFd ?cfg \<notin> {0, 1, 2} \<union> pipe_fds st'"
    by (rule empty_first_command_leaks [OF I _ _ run [unfolded r]]) (simp_all add: leak_line_def)
  with run r show ?thesis by auto
qed

text \<open>Closing a shell closes both ends of every pipe it owns and nothing else.\<close>

theorem close_shell_closes_all:
  assumes "shell_inv B st (-1) s" and "closeShellState st s = (st', s')"
  shows "numberedPipes st' = [] \<and> open_fds s' = B \<and> (\<forall>x \<in> B. fd_get (fdt s') x = fd_get (fdt s) x)"
proof -
  have none: "numberedPipes st' = []" using assms(2) by (auto simp: closeShellState_def)
  have "shell_inv B st' (-1) s'" using assms by (rule inv_closeShellState)
  from shell_inv_sets(2) [OF this] none have opened: "open_fds s' = B" by (simp add: pipe_fds_def)
  have get: "fd_get (fdt (fold (\<lambda>e s. snd (closePipe (snd e) s)) ps s)) x = fd_get (fdt s) x"
    if "x \<notin> (\<Union>e \<in> set ps. ends (snd e))" for ps s x
    using that
  proof (induction ps arbitrary: s)
    case (Cons e ps)
    then show ?case by (auto simp: closePipe_sys closeFd_open(2) ends_def held_def split: if_splits)
  qed simp
  have "fd_get (fdt s') x = fd_get (fdt s) x" if "x \<in> B" for x
    using get [of x "numberedPipes st" s] shell_inv_sets(3) [OF assms(1) that] assms(2)
    by (auto simp: closeShellState_def pipe_fds_def)
  with none opened show ?thesis by blast
qed

definition piped_os :: os where
  "piped_os = demo_os\<lparr>fdt := fdt demo_os @ [Some (PipeR 7), Some (PipeW 7)]\<rparr>"

definition piped_shell :: ShellState where
  "piped_shell = initialShellState\<lparr>numberedPipes := [(2, \<lparr>readFd = 3, writeFd = 4\<rparr>)]\<rparr>"

lemma piped_inv: "shell_inv {0, 1, 2} piped_shell (-1) piped_os"
proof -
  have get: "fd_get (fdt piped_os) 3 = Some (PipeR 7)" "fd_get (fdt piped_os) 4 = Some (PipeW 7)"
    by (simp_all add: piped_os_def demo_os_def fd_get_def)
  have "fd_get (fdt piped_os) x \<noteq> None \<longleftrightarrow> x = 0 \<or> x = 1 \<or> x = 2 \<or> x = 3 \<or> x = 4" for x
    by (auto simp: piped_os_def demo_os_def fd_get_def nth_Cons split: nat.splits)
  then have "open_fds piped_os = {0, 1, 2, 3, 4}" by (auto simp: open_fds_def)
  then show ?thesis
    using get by (auto simp: shell_inv_def piped_shell_def pipe_fds_def ends_def is_pipe_def map_wf_def)
qed

lemma close_shell_closes_all_instance:
  "open_fds (snd (closeShellState piped_shell piped_os)) = {0, 1, 2}"
  using close_shell_closes_all [OF piped_inv] by (cases "closeShellState piped_shell piped_os") simp

section \<open>The two shells\<close>

text \<open>C13. The class \<open>ShellSession\<close> of the first project and the engine of the second run a line of
  external commands alike: the same children with the same descriptors and environment, the same pipes
  left, the same failure.\<close>

theorem session_runs_like_engine:
  assumes "shell_inv B st (-1) s" and "{STDIN, STDOUT, STDERR} \<subseteq> B" and "env_ok (env st)"
  shows "bindR (session_executeExternalCommands cs (buildLinePlan cs st) st s) (\<lambda>(st', s').
           Inr (st'\<lparr>executedSegments := executedSegments st' + segmentCount (buildLinePlan cs st)\<rparr>, s')) =
         executeExternalCommands cs st defaultConfig s"
  by (rule session_execute_eq [OF assms])

lemma initial_env_ok: "env_ok (env initialShellState)"
  by (simp add: env_ok_def initialShellState_def map_wf_def env_name_def)

lemma session_runs_like_engine_instance:
  "bindR (session_executeExternalCommands demo_line (buildLinePlan demo_line piped_shell) piped_shell piped_os)
     (\<lambda>(st', s'). Inr (st'\<lparr>executedSegments := executedSegments st' + 2\<rparr>, s')) =
   executeExternalCommands demo_line piped_shell defaultConfig piped_os"
proof -
  have env: "env_ok (env piped_shell)" using initial_env_ok by (simp add: piped_shell_def)
  have "segmentCount (buildLinePlan demo_line piped_shell) = 2" by code_simp
  with session_runs_like_engine [OF piped_inv _ env, of demo_line] show ?thesis by simp
qed



end
