(* ===== verification/Shell_Script.thy ===== *)
theory Shell_Script
  imports Shell_Theorems
begin

text \<open>
  The specification of a whole session of the shell, without descriptors: numbered pipes, segments and variables pass
  from line to line, and each child has its arguments, the files behind its descriptors and its environment. The
  loop of \<open>ShellSession::run\<close> implements it in both projects (interface \<open>shell_loop\<close>), and a numbered pipe leads to the
  segment that its number says.
\<close>

section \<open>The specification\<close>










section \<open>Children get the variables of the shell\<close>




section \<open>A line\<close>









section \<open>A session\<close>










section \<open>Where numbered pipes lead\<close>









section \<open>Properties\<close>








end
