(* ===== verification/Listen.thy ===== *)
theory Listen
  imports Posix "HOL-Library.Word"
begin

text \<open>
  The listening sockets of the servers of the first two projects: \<open>createListenSocket\<close> of
  \<open>projects/01-npshell/np_simple.cpp\<close> and of the chat servers in \<open>projects/02-rwg-server\<close>. What the network
  answers to \<open>setsockopt\<close>, \<open>bind\<close> and \<open>listen\<close> is a record; \<open>bound_port\<close> gives the port that a socket has
  after \<open>bind\<close>, or \<open>None\<close> when \<open>bind\<close> fails. A failure leaves the state in which the process exits.
\<close>

section \<open>The network\<close>

record tcp_network =
  setsockopt_ok :: bool
  bound_port :: "nat \<Rightarrow> nat option"
  listen_ok :: bool
  errno_text :: string

text \<open>\<open>bind\<close> gives the port it is asked for; for port 0 the system chooses one.\<close>

definition binds_ports :: "tcp_network \<Rightarrow> bool" where
  "binds_ports net \<longleftrightarrow>
     (\<forall>p q. bound_port net p = Some q \<longrightarrow> 0 < q \<and> q < 65536 \<and> (p \<noteq> 0 \<longrightarrow> q = p))"

definition perror :: "tcp_network \<Rightarrow> string \<Rightarrow> os \<Rightarrow> os" where
  "perror net what s = sys_write STDERR (what @ '': '' @ errno_text net @ [NL]) s"

text \<open>\<open>static_cast<uint16_t>\<close>, with \<open>htons\<close> undone by the other side.\<close>

definition port_cast :: "int \<Rightarrow> nat" where
  "port_cast port = unat (word_of_int port :: 16 word)"

text \<open>A \<open>Listener\<close> with port 0 is a socket before \<open>bind\<close>.\<close>

definition sys_bind :: "fd \<Rightarrow> nat \<Rightarrow> os \<Rightarrow> os" where
  "sys_bind fd p s = s\<lparr>fdt := fd_put (fdt s) fd (Listener p)\<rparr>"

section \<open>The two versions\<close>

definition createListenSocket :: "tcp_network \<Rightarrow> int \<Rightarrow> os \<Rightarrow> os + (fd \<times> os)" where
  "createListenSocket net port s =
     (let (listenFd, s1) = sys_socket (Listener 0) s
      in if listenFd < 0 then Inl (perror net ''socket'' s1)
         else if \<not> setsockopt_ok net then Inl (sys_close listenFd (perror net ''setsockopt'' s1))
         else
           (case bound_port net (port_cast port) of
              None \<Rightarrow> Inl (sys_close listenFd (perror net ''bind'' s1))
            | Some p \<Rightarrow>
                (let s2 = sys_bind listenFd p s1
                 in if \<not> listen_ok net then Inl (sys_close listenFd (perror net ''listen'' s2))
                    else Inr (listenFd, s2))))"

text \<open>The version of the chat servers exits without a \<open>close\<close>.\<close>

definition createListenSocket_rwg :: "tcp_network \<Rightarrow> int \<Rightarrow> os \<Rightarrow> os + (fd \<times> os)" where
  "createListenSocket_rwg net port s =
     (let (fd, s1) = sys_socket (Listener 0) s
      in if fd < 0 then Inl (perror net ''socket'' s1)
         else if \<not> setsockopt_ok net then Inl (perror net ''setsockopt'' s1)
         else
           (case bound_port net (port_cast port) of
              None \<Rightarrow> Inl (perror net ''bind'' s1)
            | Some p \<Rightarrow>
                (let s2 = sys_bind fd p s1
                 in if \<not> listen_ok net then Inl (perror net ''listen'' s2) else Inr (fd, s2))))"

text \<open>\<open>main\<close> of a server up to its loop: the number of arguments, the port, the socket.\<close>

definition start_listening ::
  "(tcp_network \<Rightarrow> int \<Rightarrow> os \<Rightarrow> os + (fd \<times> os)) \<Rightarrow> tcp_network \<Rightarrow> string list \<Rightarrow> os \<Rightarrow> (fd \<times> os) result" where
  "start_listening create net args s =
     (if length args \<noteq> 2 then Inl (ExitProcess 1)
      else bindR (stoi (args ! 1)) (\<lambda>port.
        case create net port s of Inl _ \<Rightarrow> Inl (ExitProcess 1) | Inr r \<Rightarrow> Inr r))"

section \<open>Lemmas\<close>

lemma port_cast: "int (port_cast n) = n mod 65536" "port_cast n < 65536"
proof -
  have "int (unat (word_of_int n :: 16 word)) = n mod 65536"
    by (simp add: unsigned_of_int take_bit_eq_mod)
  then show "int (port_cast n) = n mod 65536" by (simp add: port_cast_def)
  then show "port_cast n < 65536"
    using pos_mod_bound [of 65536 n] by linarith
qed

lemma perror_fds [simp]: "open_fds (perror net what s) = open_fds s" "fdt (perror net what s) = fdt s"
  by (simp_all add: perror_def os_simps)

lemma sys_bind_fds:
  assumes "0 \<le> fd"
  shows "fd_get (fdt (sys_bind fd p s)) x = (if x = fd then Some (Listener p) else fd_get (fdt s) x)"
    and "open_fds (sys_bind fd p s) = insert fd (open_fds s)"
  using assms by (auto simp: sys_bind_def fd_get_put open_fds_def)

lemma listening_cases:
  assumes "create = createListenSocket \<or> create = createListenSocket_rwg" and "create net port s = Inr (fd, s')"
  obtains s1 p where "sys_socket (Listener 0) s = (fd, s1)" and "0 \<le> fd"
    and "bound_port net (port_cast port) = Some p" and "s' = sys_bind fd p s1"
proof -
  obtain f s1 where sock: "sys_socket (Listener 0) s = (f, s1)" by fastforce
  have "0 \<le> f \<and> f = fd \<and> (\<exists>p. bound_port net (port_cast port) = Some p \<and> s' = sys_bind fd p s1)"
    using assms sock
    by (auto simp: createListenSocket_def createListenSocket_rwg_def Let_def not_less split: if_splits option.splits)
  with sock that show thesis by blast
qed

lemma listening:
  assumes "create = createListenSocket \<or> create = createListenSocket_rwg" and "create net port s = Inr (fd, s')"
  shows "fd \<notin> open_fds s" and "0 \<le> fd" and "open_fds s' = insert fd (open_fds s)"
    and "fd_get (fdt s') x = (if x = fd then map_option Listener (bound_port net (port_cast port)) else fd_get (fdt s) x)"
proof -
  from assms obtain s1 p where s1: "sys_socket (Listener 0) s = (fd, s1)" and fd: "0 \<le> fd"
    and p: "bound_port net (port_cast port) = Some p" and s': "s' = sys_bind fd p s1"
    by (rule listening_cases)
  note S = sys_socket_fds [OF s1 fd]
  show "fd \<notin> open_fds s" "0 \<le> fd" by (fact S fd)+
  show "open_fds s' = insert fd (open_fds s)" using S(2) fd by (simp add: s' sys_bind_fds)
  show "fd_get (fdt s') x =
      (if x = fd then map_option Listener (bound_port net (port_cast port)) else fd_get (fdt s) x)"
    using S(3) fd p by (simp add: s' sys_bind_fds)
qed

lemma refused_closes:
  assumes "createListenSocket net port s = Inl s'"
  shows "open_fds s' = open_fds s"
proof -
  obtain f s1 where sock: "sys_socket (Listener 0) s = (f, s1)" by fastforce
  show ?thesis
  proof (cases "f < 0")
    case True
    then have "s1 = s" using sock by (auto simp: sys_socket_def Let_def fd_lowest_def split: if_splits)
    with True sock assms show ?thesis by (auto simp: createListenSocket_def)
  next
    case False
    then have fd: "0 \<le> f" by simp
    note S = sys_socket_fds [OF sock fd]
    from assms sock False obtain t where "s' = sys_close f t" and "open_fds t = insert f (open_fds s)"
      using S(2) fd
      by (auto simp: createListenSocket_def Let_def sys_bind_fds split: if_splits option.splits)
    with S(1) show ?thesis by (simp add: os_simps)
  qed
qed

lemma start_listening_Inr:
  assumes "start_listening create net args s = Inr r"
  obtains n where "stoi (args ! 1) = Inr n" and "create net n s = Inr r"
proof -
  from assms obtain n where n: "stoi (args ! 1) = Inr n"
    and c: "(case create net n s of Inl _ \<Rightarrow> Inl (ExitProcess 1) | Inr r \<Rightarrow> Inr r) = Inr r"
    by (auto simp: start_listening_def bindR_eq_Inr split: if_splits)
  from c have "create net n s = Inr r" by (cases "create net n s") auto
  with n show thesis by (rule that)
qed

section \<open>Properties\<close>

text \<open>C17. No server checks the range of its port: a server that starts listens, on a new descriptor, on the number
  of its argument modulo 65536 (on a port of the system's choice if that is 0), and the rest of the
  descriptor table is as before. If \<open>np_simple\<close> cannot listen, no descriptor stays open.\<close>

theorem listening_port:
  assumes "binds_ports net" and "create = createListenSocket \<or> create = createListenSocket_rwg"
    and "stoi a = Inr n"
  shows "(case start_listening create net [name, a] s of
            Inl e \<Rightarrow> e = ExitProcess 1
          | Inr (fd, s') \<Rightarrow>
              fd \<notin> open_fds s \<and>
              (\<exists>p. fd_get (fdt s') fd = Some (Listener p) \<and> 0 < p \<and> p < 65536 \<and>
                   (n mod 65536 \<noteq> 0 \<longrightarrow> int p = n mod 65536)) \<and>
              (\<forall>x. x \<noteq> fd \<longrightarrow> fd_get (fdt s') x = fd_get (fdt s) x)) \<and>
         (\<forall>s'. createListenSocket net n s = Inl s' \<longrightarrow> open_fds s' = open_fds s)"
proof (intro conjI allI impI)
  show "case start_listening create net [name, a] s of
           Inl e \<Rightarrow> e = ExitProcess 1
         | Inr (fd, s') \<Rightarrow>
             fd \<notin> open_fds s \<and>
             (\<exists>p. fd_get (fdt s') fd = Some (Listener p) \<and> 0 < p \<and> p < 65536 \<and>
                  (n mod 65536 \<noteq> 0 \<longrightarrow> int p = n mod 65536)) \<and>
             (\<forall>x. x \<noteq> fd \<longrightarrow> fd_get (fdt s') x = fd_get (fdt s) x)"
  proof (cases "create net n s")
    case (Inr r)
    obtain fd s' where r: "r = (fd, s')" by fastforce
    from listening_cases [OF assms(2) Inr [unfolded r]]
    obtain p where p: "bound_port net (port_cast n) = Some p" by blast
    then have "0 < p" "p < 65536" "port_cast n \<noteq> 0 \<longrightarrow> p = port_cast n"
      using assms(1) by (auto simp: binds_ports_def)
    then show ?thesis
      using assms(3) p r Inr listening(1,4) [OF assms(2) Inr [unfolded r]] port_cast(1) [of n]
      by (auto simp: start_listening_def)
  qed (use assms(3) in \<open>simp add: start_listening_def\<close>)
qed (rule refused_closes)

definition open_network :: tcp_network where
  "open_network =
     \<lparr>setsockopt_ok = True,
      bound_port = (\<lambda>p. if p = 0 then Some 40000 else if p < 65536 then Some p else None),
      listen_ok = True, errno_text = ''Address already in use''\<rparr>"

definition started_os :: os where
  "started_os =
     \<lparr>fdt = [Some (Terminal 0), Some (Terminal 1), Some (Terminal 2)], nextPipe = 0, nofile = 20,
      openable = (\<lambda>path. True), execable = (\<lambda>e name. True), forks = [], polls = [],
      nextPid = 100, procs = [], waited = [], written = []\<rparr>"

lemma started_open: "open_fds started_os = {0, 1, 2}"
proof -
  have "fd_get (fdt started_os) x \<noteq> None \<longleftrightarrow> x = 0 \<or> x = 1 \<or> x = 2" for x
    by (auto simp: started_os_def fd_get_def nth_Cons split: nat.splits)
  then show ?thesis by (auto simp: open_fds_def)
qed

lemma open_network_binds: "binds_ports open_network"
  by (simp add: binds_ports_def open_network_def)

definition listening_os :: "nat \<Rightarrow> os" where
  "listening_os p = started_os\<lparr>fdt := fdt started_os @ [Some (Listener p)]\<rparr>"

lemma open_network_listens:
  assumes "port mod 65536 \<noteq> 0"
  shows "createListenSocket open_network port started_os = Inr (3, listening_os (nat (port mod 65536)))"
    and "createListenSocket_rwg open_network port started_os = Inr (3, listening_os (nat (port mod 65536)))"
proof -
  have "sys_socket (Listener 0) started_os = (3, listening_os 0)"
    by (simp add: sys_socket_def started_os_def fd_lowest_def fd_put_def listening_os_def)
  moreover have "bound_port open_network (port_cast port) = Some (nat (port mod 65536))"
    using port_cast [of port] assms by (auto simp: open_network_def)
  moreover have "setsockopt_ok open_network" "listen_ok open_network"
    by (simp_all add: open_network_def)
  moreover have "sys_bind 3 p (listening_os 0) = listening_os p" for p
    by (simp add: sys_bind_def listening_os_def started_os_def fd_put_def numeral_3_eq_3)
  ultimately show "createListenSocket open_network port started_os = Inr (3, listening_os (nat (port mod 65536)))"
    and "createListenSocket_rwg open_network port started_os = Inr (3, listening_os (nat (port mod 65536)))"
    by (simp_all add: createListenSocket_def createListenSocket_rwg_def Let_def)
qed

lemma listening_port_instance:
  "\<exists>s'. start_listening createListenSocket open_network [''np_simple'', nat_to_string 65617] started_os = Inr (3, s') \<and>
        fd_get (fdt s') 3 = Some (Listener 81)"
proof -
  have port: "stoi (nat_to_string 65617) = Inr 65617"
    by (simp add: stoi_nat_to_string)
  from open_network_listens [of 65617] have
    "start_listening createListenSocket open_network [''np_simple'', nat_to_string 65617] started_os = Inr (3, listening_os 81)"
    by (simp add: start_listening_def port)
  with listening_port [OF open_network_binds disjI1 [OF refl] port, where name = "''np_simple''" and s = started_os]
  show ?thesis by auto
qed

end
