(* ===== verification/Shell_Server.thy ===== *)
theory Shell_Server
  imports Shell_Theorems Listen
begin

text \<open>
  The server with one process per connection, \<open>np_simple.cpp\<close> of the first project (the second project has the
  same file). \<open>run\<close> is \<open>ShellSession::run\<close> of the \<open>shell_core.h\<close> it is compiled with: \<^const>\<open>session_run\<close> in
  the first project and \<^const>\<open>session_run2\<close> in the second. A connection carries the whole input of its client, and
  the outcomes of \<open>fork\<close> and \<open>waitpid\<close> that its process will see.

  The properties: a session starts with its socket as its only standard descriptors, it never touches
  anything else, and the server itself never accumulates descriptors.
\<close>

section \<open>Definitions\<close>

record connection =
  c_id :: nat
  c_text :: string
  c_forks :: "fork_outcome list"
  c_polls :: "poll_outcome list"

record child =
  ch_pid :: nat
  ch_conn :: nat
  ch_os :: os
  ch_result :: "(ShellState \<times> os) result"

record simple_server =
  parent :: os
  children :: "child list"

type_synonym session_program = "string \<Rightarrow> os \<Rightarrow> (ShellState \<times> os) result"

text \<open>The descriptors that \<open>serveClient\<close> gives to the session.\<close>

definition serve_fds :: "fd \<Rightarrow> fd \<Rightarrow> fdtab \<Rightarrow> fdtab" where
  "serve_fds connFd listenFd t =
     (let t1 = fd_close t listenFd;
          t2 = fd_dup2 t1 connFd STDIN;
          t3 = fd_dup2 t2 connFd STDOUT;
          t4 = fd_dup2 t3 connFd STDERR
      in if connFd > STDERR then fd_close t4 connFd else t4)"

text \<open>The process after \<open>fork\<close>: its own children and its own record of what it writes begin empty.\<close>

definition serving_os :: "fd \<Rightarrow> fd \<Rightarrow> connection \<Rightarrow> os \<Rightarrow> os" where
  "serving_os connFd listenFd c s =
     s\<lparr>fdt := serve_fds connFd listenFd (fdt s), forks := c_forks c, polls := c_polls c,
       procs := [], waited := [], written := []\<rparr>"

text \<open>A session that returns is followed by \<open>_exit(0)\<close>.\<close>

definition exit_of :: "(ShellState \<times> os) result \<Rightarrow> failure" where
  "exit_of r = (case r of Inl e \<Rightarrow> e | Inr _ \<Rightarrow> ExitProcess 0)"

definition serveClient_simple :: "session_program \<Rightarrow> nat \<Rightarrow> fd \<Rightarrow> fd \<Rightarrow> connection \<Rightarrow> os \<Rightarrow> child" where
  "serveClient_simple run p connFd listenFd c s =
     (let s1 = serving_os connFd listenFd c s
      in \<lparr>ch_pid = p, ch_conn = c_id c, ch_os = s1, ch_result = run (c_text c) s1\<rparr>)"

text \<open>One round of the loop of \<open>main\<close>; \<open>None\<close> is an \<open>accept\<close> that fails.\<close>

definition accept_simple ::
  "session_program \<Rightarrow> fd \<Rightarrow> connection option \<Rightarrow> simple_server \<Rightarrow> simple_server result" where
  "accept_simple run listenFd event srv =
     (case event of
        None \<Rightarrow> Inr srv
      | Some c \<Rightarrow>
          (let (connFd, s1) = sys_accept (c_id c) (parent srv)
           in if connFd < 0 then Inr srv
              else
                bindR (forkOrReapUntilSuccess s1) (\<lambda>(childPid, s2).
                  Inr \<lparr>parent = sys_close connFd s2,
                       children = children srv @ [serveClient_simple run childPid connFd listenFd c s2]\<rparr>)))"

fun accept_loop ::
  "session_program \<Rightarrow> fd \<Rightarrow> connection option list \<Rightarrow> simple_server \<Rightarrow> simple_server result" where
  "accept_loop run listenFd [] srv = Inr srv"
| "accept_loop run listenFd (event # events) srv =
     bindR (accept_simple run listenFd event srv) (accept_loop run listenFd events)"

definition np_simple_main ::
  "session_program \<Rightarrow> tcp_network \<Rightarrow> string list \<Rightarrow> connection option list \<Rightarrow> os \<Rightarrow> simple_server result" where
  "np_simple_main run net args events s =
     bindR (start_listening createListenSocket net args s) (\<lambda>(listenFd, s1).
       accept_loop run listenFd events \<lparr>parent = s1, children = []\<rparr>)"

text \<open>\<open>npshell.cpp\<close>: the shell on the terminal it is started on.\<close>

definition npshell_main :: "session_program \<Rightarrow> string \<Rightarrow> os \<Rightarrow> failure" where
  "npshell_main run stdin s = exit_of (run stdin s)"

section \<open>Lemmas\<close>

lemma serve_fds_get:
  assumes "0 \<le> connFd" and "connFd \<noteq> listenFd" and "fd_get t connFd = Some f"
  shows "fd_get (serve_fds connFd listenFd t) fd =
     (if fd = STDIN \<or> fd = STDOUT \<or> fd = STDERR then Some f
      else if fd = listenFd \<or> fd = connFd then None else fd_get t fd)"
  using assms by (simp add: serve_fds_def Let_def fd_simps)

lemma fork_fields:
  assumes "forkOrReapUntilSuccess s = Inr (p, s')"
  shows "fdt s' = fdt s" and "p = nextPid s" and "nextPid s' = Suc (nextPid s)" and "nofile s' = nofile s"
  using assms by (auto simp: forkOrReapUntilSuccess_def bindR_eq_Inr)

lemma accept_simple_cases:
  assumes "accept_simple run l ev srv = Inr srv'"
  obtains "srv' = srv"
  | c connFd s1 s2 where "ev = Some c" and "sys_accept (c_id c) (parent srv) = (connFd, s1)" and "0 \<le> connFd"
      and "forkOrReapUntilSuccess s1 = Inr (nextPid s1, s2)"
      and "srv' = \<lparr>parent = sys_close connFd s2,
                   children = children srv @ [serveClient_simple run (nextPid s1) connFd l c s2]\<rparr>"
proof (cases ev)
  case (Some c)
  obtain connFd s1 where a: "sys_accept (c_id c) (parent srv) = (connFd, s1)" by fastforce
  show thesis
  proof (cases "connFd < 0")
    case False
    with assms Some a obtain p s2 where f: "forkOrReapUntilSuccess s1 = Inr (p, s2)"
      and srv': "srv' = \<lparr>parent = sys_close connFd s2,
                   children = children srv @ [serveClient_simple run p connFd l c s2]\<rparr>"
      by (auto simp: accept_simple_def bindR_eq_Inr)
    show thesis
      using that(2) [OF Some a _ _ srv' [unfolded fork_fields(2) [OF f]]] False f fork_fields(2) [OF f] by simp
  qed (use assms Some a that(1) in \<open>simp add: accept_simple_def\<close>)
qed (use assms that(1) in \<open>simp add: accept_simple_def\<close>)

text \<open>What holds of each process that serves a client, when the server's descriptors are \<open>get\<close>.\<close>

definition child_ok :: "session_program \<Rightarrow> fd \<Rightarrow> (fd \<Rightarrow> ofile option) \<Rightarrow> child \<Rightarrow> bool" where
  "child_ok run l get ch \<longleftrightarrow>
     (\<forall>fd. fd_get (fdt (ch_os ch)) fd =
        (if fd = STDIN \<or> fd = STDOUT \<or> fd = STDERR then Some (Socket (ch_conn ch))
         else if fd = l then None else get fd)) \<and>
     procs (ch_os ch) = [] \<and> (\<exists>text. ch_result ch = run text (ch_os ch))"

definition server_ok :: "session_program \<Rightarrow> fd \<Rightarrow> (fd \<Rightarrow> ofile option) \<Rightarrow> simple_server \<Rightarrow> bool" where
  "server_ok run l get srv \<longleftrightarrow>
     (\<forall>fd. fd_get (fdt (parent srv)) fd = get fd) \<and> get l \<noteq> None \<and>
     (\<forall>ch \<in> set (children srv). child_ok run l get ch \<and> ch_pid ch < nextPid (parent srv)) \<and>
     distinct (map ch_pid (children srv))"

lemma accept_simple_ok:
  assumes "server_ok run l get srv" and "accept_simple run l ev srv = Inr srv'"
  shows "server_ok run l get srv'"
  using assms(2)
proof (cases rule: accept_simple_cases)
  case (2 c connFd s1 s2)
  note parent = assms(1) [unfolded server_ok_def]
  note sock = sys_socket_fds [OF 2(2) [unfolded sys_accept_def] 2(3)]
  note fork = fork_fields [OF 2(4)]
  have new: "get connFd = None"
    using sock(1) parent by (simp add: open_fds_def)
  then have l: "connFd \<noteq> l" using parent by auto
  have fds: "fd_get (fdt s2) fd = (if fd = connFd then Some (Socket (c_id c)) else get fd)" for fd
    using sock(3) fork(1) parent by simp
  have "fd_get (serve_fds connFd l (fdt s2)) fd =
      (if fd = STDIN \<or> fd = STDOUT \<or> fd = STDERR then Some (Socket (c_id c))
       else if fd = l then None else get fd)" for fd
    using serve_fds_get [OF 2(3) l, of "fdt s2" "Socket (c_id c)" fd] fds new by auto
  then have child: "child_ok run l get (serveClient_simple run (nextPid s1) connFd l c s2)"
    by (auto simp: child_ok_def serveClient_simple_def serving_os_def Let_def)
  have pid0: "nextPid s1 = nextPid (parent srv)"
    using 2(2) by (auto simp: sys_accept_def sys_socket_def Let_def split: if_splits)
  have pid: "nextPid (sys_close connFd s2) = Suc (nextPid (parent srv))"
    "ch_pid (serveClient_simple run p connFd l c s2) = p" for p
    using fork(3) pid0 by (simp_all add: os_simps serveClient_simple_def Let_def)
  have "fd_get (fdt (sys_close connFd s2)) fd = get fd" for fd
    using fds new by (simp add: os_simps)
  with child parent show ?thesis
    unfolding 2(5) server_ok_def by (auto simp: pid pid0 less_Suc_eq)
qed (use assms(1) in simp)

lemma accept_loop_ok:
  "server_ok run l get srv \<Longrightarrow> accept_loop run l events srv = Inr srv' \<Longrightarrow> server_ok run l get srv'"
proof (induction events arbitrary: srv)
  case (Cons ev events)
  from Cons.prems(2) obtain srv1 where "accept_simple run l ev srv = Inr srv1" "accept_loop run l events srv1 = Inr srv'"
    by (auto simp: bindR_eq_Inr)
  with Cons.IH accept_simple_ok [OF Cons.prems(1)] show ?case by blast
qed simp

text \<open>A session that starts on its three descriptors keeps them.\<close>

lemma session_run_inv:
  assumes "run = session_run environ \<or> run = session_run2 environ" and "env_ok environ"
    and "open_fds s = B" and "{STDIN, STDOUT, STDERR} \<subseteq> B" and "run text s = Inr (st', s')"
  shows "shell_inv B st' (-1) s' \<and> env_ok (env st')"
proof -
  let ?st = "\<lparr>numberedPipes = [], executedSegments = 0, env = sys_setenv ''PATH'' ''bin:.'' environ\<rparr>"
  have inv: "shell_inv B ?st (-1) s"
    using assms(3) by (simp add: shell_inv_def pipe_fds_def)
  have env: "env_ok (env ?st)"
    using env_ok_setenv [OF assms(2)] by simp
  from assms(1,5) have "run_loop (split text NL) ?st s = Inr (st', s') \<or> run_loop2 (split text NL) ?st s = Inr (st', s')"
    by (auto simp: session_run_def session_run2_def)
  with run_loop_inv [OF inv assms(4) env] run_loop2_inv [OF inv assms(4) env] show ?thesis by blast
qed

section \<open>Properties\<close>

text \<open>C16. In a run of \<open>np_simple\<close>, over any connections and failures of \<open>accept\<close>: the server holds the descriptors
  it was started with and its listening socket, however many clients came; every process that serves a
  client has a process id of its own and begins with its client's socket as descriptors 0, 1 and 2 and
  no other descriptor; when its session ends, those three and the ends of its own numbered pipes are open.\<close>

theorem connections_isolated:
  assumes "open_fds s = {STDIN, STDOUT, STDERR}" and "env_ok environ"
    and "run = session_run environ \<or> run = session_run2 environ"
    and "np_simple_main run net args events s = Inr srv"
  shows "\<exists>listenFd. listenFd \<notin> {STDIN, STDOUT, STDERR} \<and> open_fds (parent srv) = {STDIN, STDOUT, STDERR, listenFd} \<and>
      distinct (map ch_pid (children srv)) \<and>
      (\<forall>ch \<in> set (children srv).
         open_fds (ch_os ch) = {STDIN, STDOUT, STDERR} \<and>
         (\<forall>fd \<in> {STDIN, STDOUT, STDERR}. fd_get (fdt (ch_os ch)) fd = Some (Socket (ch_conn ch))) \<and>
         (\<forall>st' s'. ch_result ch = Inr (st', s') \<longrightarrow> shell_inv {STDIN, STDOUT, STDERR} st' (-1) s'))"
proof -
  from assms(4) obtain l s1 where start: "start_listening createListenSocket net args s = Inr (l, s1)"
    and loop: "accept_loop run l events \<lparr>parent = s1, children = []\<rparr> = Inr srv"
    by (auto simp: np_simple_main_def bindR_eq_Inr)
  from start obtain n where "createListenSocket net n s = Inr (l, s1)"
    by (rule start_listening_Inr)
  note listen = listening [OF disjI1 [OF refl] this]
  let ?get = "fd_get (fdt s1)"
  have "?get l \<noteq> None" using listen(3) by (auto simp: open_fds_def)
  then have "server_ok run l ?get \<lparr>parent = s1, children = []\<rparr>" by (simp add: server_ok_def)
  from accept_loop_ok [OF this loop]
  have get: "\<And>fd. fd_get (fdt (parent srv)) fd = ?get fd" and pids: "distinct (map ch_pid (children srv))"
    and ch: "\<And>ch. ch \<in> set (children srv) \<Longrightarrow> child_ok run l ?get ch"
    by (auto simp: server_ok_def)
  have l: "l \<notin> {STDIN, STDOUT, STDERR}" using listen(1) assms(1) by auto
  have open1: "open_fds s1 = {STDIN, STDOUT, STDERR, l}" using listen(3) assms(1) by auto
  have "open_fds (parent srv) = open_fds s1" by (simp add: open_fds_def get)
  moreover have "open_fds (ch_os c) = {STDIN, STDOUT, STDERR} \<and>
      (\<forall>fd \<in> {STDIN, STDOUT, STDERR}. fd_get (fdt (ch_os c)) fd = Some (Socket (ch_conn c))) \<and>
      (\<forall>st' s'. ch_result c = Inr (st', s') \<longrightarrow> shell_inv {STDIN, STDOUT, STDERR} st' (-1) s')"
    if "c \<in> set (children srv)" for c
  proof -
    note C = ch [OF that, unfolded child_ok_def]
    have fds: "open_fds (ch_os c) = {STDIN, STDOUT, STDERR}"
    proof (rule set_eqI)
      fix fd
      have "fd \<in> open_fds s1 \<longleftrightarrow> fd = STDIN \<or> fd = STDOUT \<or> fd = STDERR \<or> fd = l" using open1 by auto
      then show "fd \<in> open_fds (ch_os c) \<longleftrightarrow> fd \<in> {STDIN, STDOUT, STDERR}"
        using C by (auto simp: open_fds_def)
    qed
    from C obtain input where "ch_result c = run input (ch_os c)" by blast
    with session_run_inv [OF assms(3,2) fds] C fds show ?thesis by auto
  qed
  ultimately show ?thesis using l open1 pids by blast
qed

definition two_clients :: "connection option list" where
  "two_clients = [Some \<lparr>c_id = 7, c_text = ''setenv A b'' @ [NL], c_forks = [], c_polls = []\<rparr>, None,
                  Some \<lparr>c_id = 8, c_text = [], c_forks = [], c_polls = []\<rparr>]"

lemma connections_isolated_instance:
  "\<exists>srv l. np_simple_main (session_run []) open_network [''np_simple'', nat_to_string 7001] two_clients started_os = Inr srv \<and>
     open_fds (parent srv) = {0, 1, 2, l} \<and> map ch_pid (children srv) = [100, 101] \<and>
     (\<forall>ch \<in> set (children srv). open_fds (ch_os ch) = {0, 1, 2})"
proof -
  let ?main = "np_simple_main (session_run []) open_network [''np_simple'', nat_to_string 7001] two_clients started_os"
  have env: "env_ok []" by (simp add: env_ok_def map_wf_def)
  have "stoi (nat_to_string 7001) = Inr 7001"
    by (simp add: stoi_nat_to_string)
  then have "?main = accept_loop (session_run []) 3 two_clients \<lparr>parent = listening_os 7001, children = []\<rparr>"
    using open_network_listens [of 7001] by (simp add: np_simple_main_def start_listening_def)
  moreover have "\<exists>srv. accept_loop (session_run []) 3 two_clients \<lparr>parent = listening_os 7001, children = []\<rparr> = Inr srv \<and>
      map ch_pid (children srv) = [100, 101]"
    by (simp add: two_clients_def accept_simple_def sys_accept_def sys_socket_def listening_os_def started_os_def
        fd_lowest_def fd_put_def forkOrReapUntilSuccess_def sys_close_def fd_close_def serveClient_simple_def Let_def
        numeral_nat)
  ultimately obtain srv where srv: "?main = Inr srv" "map ch_pid (children srv) = [100, 101]" by auto
  from connections_isolated [OF _ env _ srv(1)] started_open
  obtain l where l: "open_fds (parent srv) = {0, 1, 2, l}" "\<forall>ch \<in> set (children srv). open_fds (ch_os ch) = {0, 1, 2}"
    by auto
  from srv l show ?thesis by (intro exI [of _ srv] exI [of _ l] conjI)
qed

end
