(* ===== verification/Rwg_Single.thy ===== *)
theory Rwg_Single
  imports Shell_Wiring
begin

text \<open>
  The remote working ground in one process, \<open>projects/02-rwg-server/np_single_proc.cpp\<close>: clients with
  their own shell, messages, pipes between users, and the server's reaction to a new connection and to
  input. The global variables \<open>clients\<close> and \<open>userPipes\<close> and the process itself are the record
  \<open>server\<close>; a reference to a client is its key.

  \<open>std::stoi\<close> and \<open>std::exit\<close> make an operation fail; nothing in the program catches that.
\<close>

section \<open>State\<close>

record Client =
  online :: bool
  cl_id :: int
  cl_fd :: fd
  cl_name :: string
  cl_ip :: string
  cl_port :: nat
  inputBuffer :: string
  cl_shell :: ShellState

text \<open>The key of a user pipe, a \<open>std::pair\<close> in its lexicographic order: from whom to whom.\<close>

datatype pipe_key = From_To (pipe_from: int) (pipe_to: int)

instantiation pipe_key :: linorder
begin

definition less_eq_pipe_key :: "pipe_key \<Rightarrow> pipe_key \<Rightarrow> bool" where
  "a \<le> b \<longleftrightarrow> pipe_from a < pipe_from b \<or> pipe_from a = pipe_from b \<and> pipe_to a \<le> pipe_to b"

definition less_pipe_key :: "pipe_key \<Rightarrow> pipe_key \<Rightarrow> bool" where
  "(a :: pipe_key) < b \<longleftrightarrow> pipe_from a < pipe_from b \<or> pipe_from a = pipe_from b \<and> pipe_to a < pipe_to b"

instance
  by standard (auto simp: less_eq_pipe_key_def less_pipe_key_def intro: pipe_key.expand)

end

record server =
  clients :: "(int \<times> Client) list"
  userPipes :: "(pipe_key \<times> PipeFD) list"
  world :: os

record UserPipeResolution =
  r_inputFd :: fd
  r_outputFd :: fd
  devNullInFd :: fd
  devNullOutFd :: fd

definition noResolution :: UserPipeResolution where
  "noResolution = \<lparr>r_inputFd = -1, r_outputFd = -1, devNullInFd = -1, devNullOutFd = -1\<rparr>"

abbreviation (input) kMaxUsers :: int where "kMaxUsers \<equiv> 30"

definition kDefaultName :: string where
  "kDefaultName = ''(no name)''"

definition kWelcome :: string where
  "kWelcome = ''****************************************'' @ [NL] @
              ''** Welcome to the information server. **'' @ [NL] @
              ''****************************************'' @ [NL]"

section \<open>Messages\<close>

definition findClientById :: "int \<Rightarrow> server \<Rightarrow> Client option" where
  "findClientById i sv =
     (case map_of (clients sv) i of
        None \<Rightarrow> None
      | Some c \<Rightarrow> if online c then Some c else None)"

definition client_at :: "int \<Rightarrow> server \<Rightarrow> Client" where
  "client_at i sv = the (map_of (clients sv) i)"

definition set_client :: "int \<Rightarrow> Client \<Rightarrow> server \<Rightarrow> server" where
  "set_client i c sv = sv\<lparr>clients := map_insert i c (clients sv)\<rparr>"

definition sendTo :: "Client \<Rightarrow> string \<Rightarrow> server \<Rightarrow> server" where
  "sendTo c msg sv = (if online c then sv\<lparr>world := sys_write (cl_fd c) msg (world sv)\<rparr> else sv)"

definition sendPrompt :: "Client \<Rightarrow> server \<Rightarrow> server" where
  "sendPrompt c sv = sendTo c ''% '' sv"

definition broadcast :: "string \<Rightarrow> server \<Rightarrow> server" where
  "broadcast msg sv = fold (\<lambda>e sv. if online (snd e) then sendTo (snd e) msg sv else sv) (clients sv) sv"

definition endpoint :: "Client \<Rightarrow> string" where
  "endpoint c = cl_ip c @ '':'' @ nat_to_string (cl_port c)"

fun joinWords :: "string list \<Rightarrow> string" where
  "joinWords [] = []"
| "joinWords [t] = t"
| "joinWords (t # ts) = t @ '' '' @ joinWords ts"

definition joinMessage :: "string list \<Rightarrow> nat \<Rightarrow> string" where
  "joinMessage tokens start = joinWords (drop start tokens)"

definition tab :: string where
  "tab = [TAB]"

definition who_row :: "int \<Rightarrow> Client \<Rightarrow> string" where
  "who_row me target =
     to_string (cl_id target) @ tab @ to_string (cl_fd target) @ tab @ cl_name target @ tab @
     endpoint target @ (if cl_id target = me then tab @ ''<-me'' else []) @ [NL]"

definition who_header :: string where
  "who_header = ''<ID>'' @ tab @ ''<fd>'' @ tab @ ''<nickname>'' @ tab @ ''<IP:port>'' @ tab @
     ''<indicate me>'' @ [NL]"

section \<open>Built-in commands of the server\<close>

text \<open>Every built-in ends like this: the pipe to its segment is dropped, and the segment is counted.\<close>

definition builtin_done :: "int \<Rightarrow> server \<Rightarrow> server" where
  "builtin_done i sv =
     (let c = client_at i sv;
          (st, s) = discardIncomingPipe (cl_shell c) (executedSegments (cl_shell c) + 1) (world sv)
      in set_client i (c\<lparr>cl_shell := st\<lparr>executedSegments := executedSegments st + 1\<rparr>\<rparr>) (sv\<lparr>world := s\<rparr>))"

definition who_command :: "int \<Rightarrow> server \<Rightarrow> server" where
  "who_command i sv =
     (let me = client_at i sv
      in fold (\<lambda>k sv. case findClientById k sv of
                        None \<Rightarrow> sv
                      | Some target \<Rightarrow> sendTo me (who_row (cl_id me) target) sv)
           [1..kMaxUsers] (sendTo me who_header sv))"

definition name_command :: "int \<Rightarrow> string \<Rightarrow> server \<Rightarrow> server" where
  "name_command i newName sv =
     (let me = client_at i sv
      in if list_ex (\<lambda>e. online (snd e) \<and> cl_name (snd e) = newName) (clients sv)
         then sendTo me (''*** User '' @ [CHR 0x27] @ newName @ [CHR 0x27] @ '' already exists. ***'' @ [NL]) sv
         else
           broadcast (''*** User from '' @ endpoint me @ '' is named '' @ [CHR 0x27] @ newName @ [CHR 0x27] @
                      ''. ***'' @ [NL])
             (set_client i (me\<lparr>cl_name := newName\<rparr>) sv))"

definition tell_command :: "int \<Rightarrow> int \<Rightarrow> string \<Rightarrow> server \<Rightarrow> server" where
  "tell_command i targetId text sv =
     (let me = client_at i sv
      in case findClientById targetId sv of
           None \<Rightarrow> sendTo me (''*** Error: user #'' @ to_string targetId @ '' does not exist yet. ***'' @ [NL]) sv
         | Some target \<Rightarrow> sendTo target (''*** '' @ cl_name me @ '' told you ***: '' @ text @ [NL]) sv)"

definition handleRwgBuiltin :: "int \<Rightarrow> string \<Rightarrow> server \<Rightarrow> (bool \<times> server) result" where
  "handleRwgBuiltin i line sv =
     (let tokens = splitBySpace line
      in case tokens of
           [] \<Rightarrow> Inr (True, sv)
         | name # _ \<Rightarrow>
             if name = ''who'' then Inr (True, builtin_done i (who_command i sv))
             else if name = ''name'' then
               Inr (True, builtin_done i (if length tokens \<ge> 2 then name_command i (tokens ! 1) sv else sv))
             else if name = ''tell'' then
               bindR (if length tokens \<ge> 3
                      then bindR (stoi (tokens ! 1))
                             (\<lambda>targetId. Inr (tell_command i targetId (joinMessage tokens 2) sv))
                      else Inr sv)
                 (\<lambda>sv1. Inr (True, builtin_done i sv1))
             else if name = ''yell'' then
               Inr (True, builtin_done i
                 (broadcast (''*** '' @ cl_name (client_at i sv) @ '' yelled ***: '' @ joinMessage tokens 1 @ [NL]) sv))
             else Inr (False, sv))"

section \<open>User pipes\<close>

definition user_number :: "int \<Rightarrow> string" where
  "user_number i = ''#'' @ to_string i"

definition open_devnull :: "server \<Rightarrow> fd \<times> server" where
  "open_devnull sv =
     (let (fd, s) = sys_open ''/dev/null'' DevNull (world sv) in (fd, sv\<lparr>world := s\<rparr>))"

definition no_user_message :: "int \<Rightarrow> string" where
  "no_user_message k = ''*** Error: user '' @ user_number k @ '' does not exist yet. ***'' @ [NL]"

definition resolve_input ::
  "int \<Rightarrow> int \<Rightarrow> string \<Rightarrow> UserPipeResolution \<Rightarrow> server \<Rightarrow> UserPipeResolution \<times> server" where
  "resolve_input i source line r sv =
     (let me = client_at i sv
      in case findClientById source sv of
           None \<Rightarrow>
             (let (fd, sv1) = open_devnull (sendTo me (no_user_message source) sv)
              in (r\<lparr>devNullInFd := fd, r_inputFd := fd\<rparr>, sv1))
         | Some sender \<Rightarrow>
             (case map_of (userPipes sv) (From_To source i) of
                None \<Rightarrow>
                  (let (fd, sv1) = open_devnull (sendTo me
                         (''*** Error: the pipe '' @ user_number source @ ''->'' @ user_number i @
                          '' does not exist yet. ***'' @ [NL]) sv)
                   in (r\<lparr>devNullInFd := fd, r_inputFd := fd\<rparr>, sv1))
              | Some p \<Rightarrow>
                  (let sv1 = sv\<lparr>world := snd (closeFd (writeFd p) (world sv))\<rparr>;
                       sv2 = broadcast (''*** '' @ cl_name me @ '' ('' @ user_number i @ '') just received from '' @
                               cl_name sender @ '' ('' @ user_number (cl_id sender) @ '') by '' @ [CHR 0x27] @ line @
                               [CHR 0x27] @ '' ***'' @ [NL]) sv1
                   in (r\<lparr>r_inputFd := readFd p\<rparr>,
                       sv2\<lparr>userPipes := map_erase (From_To source i) (userPipes sv2)\<rparr>))))"

definition resolve_output ::
  "int \<Rightarrow> int \<Rightarrow> string \<Rightarrow> UserPipeResolution \<Rightarrow> server \<Rightarrow> (UserPipeResolution \<times> server) result" where
  "resolve_output i dest line r sv =
     (let me = client_at i sv
      in case findClientById dest sv of
           None \<Rightarrow>
             (let (fd, sv1) = open_devnull (sendTo me (no_user_message dest) sv)
              in Inr (r\<lparr>devNullOutFd := fd, r_outputFd := fd\<rparr>, sv1))
         | Some receiver \<Rightarrow>
             (case map_of (userPipes sv) (From_To i dest) of
                Some _ \<Rightarrow>
                  (let (fd, sv1) = open_devnull (sendTo me
                         (''*** Error: the pipe '' @ user_number i @ ''->'' @ user_number dest @
                          '' already exists. ***'' @ [NL]) sv)
                   in Inr (r\<lparr>devNullOutFd := fd, r_outputFd := fd\<rparr>, sv1))
              | None \<Rightarrow>
                  bindR (createPipeOrDie (world sv)) (\<lambda>(p, s1).
                    (let sv1 = sv\<lparr>world := s1, userPipes := map_insert (From_To i dest) p (userPipes sv)\<rparr>;
                         sv2 = broadcast (''*** '' @ cl_name me @ '' ('' @ user_number i @ '') just piped '' @
                                 [CHR 0x27] @ line @ [CHR 0x27] @ '' to '' @ cl_name receiver @ '' ('' @
                                 user_number (cl_id receiver) @ '') ***'' @ [NL]) sv1
                     in Inr (r\<lparr>r_outputFd := writeFd p\<rparr>, sv2)))))"

definition resolveUserPipes ::
  "int \<Rightarrow> UserPipeRequest \<Rightarrow> string \<Rightarrow> server \<Rightarrow> (UserPipeResolution \<times> server) result" where
  "resolveUserPipes i request line sv =
     (let (r1, sv1) = (if inputFrom request \<ge> 0 then resolve_input i (inputFrom request) line noResolution sv
                       else (noResolution, sv))
      in if outputTo request \<ge> 0 then resolve_output i (outputTo request) line r1 sv1
         else Inr (r1, sv1))"

definition closeUserPipeResolution :: "UserPipeResolution \<Rightarrow> os \<Rightarrow> os" where
  "closeUserPipeResolution r s = snd (closeFd (devNullOutFd r) (snd (closeFd (devNullInFd r) s)))"

definition collectUserPipeFds :: "server \<Rightarrow> fd list" where
  "collectUserPipeFds sv = concat (map (\<lambda>e. [readFd (snd e), writeFd (snd e)]) (userPipes sv))"

section \<open>A line of a client\<close>

definition line_config :: "int \<Rightarrow> UserPipeResolution \<Rightarrow> server \<Rightarrow> ExecutionConfig" where
  "line_config i r sv =
     \<lparr>inputFd = r_inputFd r,
      outputFd = (if r_outputFd r \<ge> 0 then r_outputFd r else cl_fd (client_at i sv)),
      errorFd = cl_fd (client_at i sv),
      forceLastOutput = (r_outputFd r \<ge> 0),
      closeInChild = collectUserPipeFds sv\<rparr>"

definition execute_commands :: "int \<Rightarrow> Command list \<Rightarrow> UserPipeResolution \<Rightarrow> server \<Rightarrow> server result" where
  "execute_commands i cs r sv =
     bindR (executeExternalCommands cs (cl_shell (client_at i sv)) (line_config i r sv) (world sv)) (\<lambda>(st, s).
       Inr ((set_client i ((client_at i sv)\<lparr>cl_shell := st\<rparr>) sv)\<lparr>world := closeUserPipeResolution r s\<rparr>))"

text \<open>The result tells whether the client stays.\<close>

definition executeLine :: "int \<Rightarrow> string \<Rightarrow> server \<Rightarrow> (bool \<times> server) result" where
  "executeLine i input sv =
     (let line = (if input \<noteq> [] \<and> last input = CR then butlast input else input);
          tokens = splitBySpace line
      in if line = [] then Inr (True, sv)
         else if tokens \<noteq> [] \<and> hd tokens = ''exit'' then Inr (False, sv)
         else
           bindR (handleRwgBuiltin i line sv) (\<lambda>(handled, sv1).
             if handled then Inr (True, sv1)
             else
               bindR (parseCommands line) (\<lambda>(cs, request).
                 if cs = [] then Inr (True, sv1)
                 else
                   (let c = client_at i sv1;
                        (builtin, st, s) =
                          (if length cs = 1 then executeShellBuiltin (cs ! 0) (cl_shell c) (cl_fd c) (world sv1)
                           else (False, cl_shell c, world sv1))
                    in if builtin then Inr (True, (set_client i (c\<lparr>cl_shell := st\<rparr>) sv1)\<lparr>world := s\<rparr>)
                       else
                         bindR (resolveUserPipes i request line sv1) (\<lambda>(r, sv2).
                           bindR (execute_commands i cs r sv2) (\<lambda>sv3. Inr (True, sv3)))))))"

section \<open>Connections\<close>

definition smallestUnusedId :: "server \<Rightarrow> int" where
  "smallestUnusedId sv =
     (case find (\<lambda>k. findClientById k sv = None) [1..kMaxUsers] of None \<Rightarrow> -1 | Some k \<Rightarrow> k)"

definition cleanupClientUserPipes :: "int \<Rightarrow> server \<Rightarrow> server" where
  "cleanupClientUserPipes i sv =
     (let mine = (\<lambda>e. pipe_from (fst e) = i \<or> pipe_to (fst e) = i)
      in sv\<lparr>world := fold (\<lambda>e s. snd (closePipe (snd e) s)) (filter mine (userPipes sv)) (world sv),
            userPipes := filter (\<lambda>e. \<not> mine e) (userPipes sv)\<rparr>)"

definition cleanupClient :: "int \<Rightarrow> bool \<Rightarrow> server \<Rightarrow> server" where
  "cleanupClient i announce sv =
     (case findClientById i sv of
        None \<Rightarrow> sv
      | Some c \<Rightarrow>
          (let (fd', s1) = closeFd (cl_fd c) (world sv);
               (st, s2) = closeShellState (cl_shell c) s1;
               sv1 = cleanupClientUserPipes i (sv\<lparr>world := s2\<rparr>);
               sv2 = set_client i (c\<lparr>cl_fd := fd', cl_shell := st, online := False\<rparr>) sv1;
               sv3 = (if announce
                      then broadcast (''*** User '' @ [CHR 0x27] @ cl_name c @ [CHR 0x27] @ '' left. ***'' @ [NL]) sv2
                      else sv2)
           in sv3\<lparr>clients := map_erase i (clients sv3)\<rparr>))"

definition new_client :: "int \<Rightarrow> fd \<Rightarrow> string \<Rightarrow> nat \<Rightarrow> Client" where
  "new_client i connFd ip port =
     \<lparr>online = True, cl_id = i, cl_fd = connFd, cl_name = kDefaultName, cl_ip = ip, cl_port = port,
      inputBuffer = [], cl_shell = initialShellState\<rparr>"

definition acceptClient :: "nat \<Rightarrow> string \<Rightarrow> nat \<Rightarrow> server \<Rightarrow> server" where
  "acceptClient n ip port sv =
     (let (connFd, s) = sys_accept n (world sv);
          i = smallestUnusedId sv
      in if connFd < 0 then sv
         else if i < 0 then sv\<lparr>world := sys_close connFd s\<rparr>
         else
           (let c = new_client i connFd ip port;
                sv1 = set_client i c (sv\<lparr>world := s\<rparr>);
                sv2 = sendTo c kWelcome sv1;
                sv3 = broadcast (''*** User '' @ [CHR 0x27] @ cl_name c @ [CHR 0x27] @ '' entered from '' @
                        endpoint c @ ''. ***'' @ [NL]) sv2
            in sendPrompt c sv3))"

datatype read_result = ReadInterrupted | ReadClosed | ReadData string

text \<open>
  The loop over the complete lines of the input buffer. The buffer is the argument; it is stored in the
  client before each line, where nothing that a line does changes it.
\<close>

definition set_buffer :: "int \<Rightarrow> string \<Rightarrow> server \<Rightarrow> server" where
  "set_buffer i buffer sv = set_client i ((client_at i sv)\<lparr>inputBuffer := buffer\<rparr>) sv"

function input_loop :: "int \<Rightarrow> string \<Rightarrow> server \<Rightarrow> server result" where
  "input_loop i buffer sv =
     (case dropWhile (\<lambda>c. c \<noteq> NL) buffer of
        [] \<Rightarrow> Inr sv
      | _ # rest \<Rightarrow>
          bindR (executeLine i (takeWhile (\<lambda>c. c \<noteq> NL) buffer) (set_buffer i rest sv)) (\<lambda>(keepRunning, sv1).
            if \<not> keepRunning then Inr (cleanupClient i True sv1)
            else input_loop i rest (sendPrompt (client_at i sv1) sv1)))"
  by pat_completeness auto
termination
proof (relation "measure (\<lambda>(i, b, sv). length b)", goal_cases)
  case (2 i buffer sv x rest r keep sv1)
  then show ?case using length_dropWhile_le [of "\<lambda>c. c \<noteq> NL" buffer] by simp
qed simp

declare input_loop.simps [simp del]

definition handleClientInput :: "int \<Rightarrow> read_result \<Rightarrow> server \<Rightarrow> server result" where
  "handleClientInput i result sv =
     (case result of
        ReadInterrupted \<Rightarrow> Inr sv
      | ReadClosed \<Rightarrow> Inr (cleanupClient i True sv)
      | ReadData text \<Rightarrow>
          (let buffer = inputBuffer (client_at i sv) @ text
           in input_loop i buffer (set_buffer i buffer sv)))"

text \<open>
  One event of the loop of \<open>runServer\<close>: a connection, or input for a client that is still there.
\<close>

datatype server_event = Connection nat string nat | ClientInput int read_result

definition server_step :: "server_event \<Rightarrow> server \<Rightarrow> server result" where
  "server_step ev sv =
     (case ev of
        Connection n ip port \<Rightarrow> Inr (acceptClient n ip port sv)
      | ClientInput i result \<Rightarrow>
          (case findClientById i sv of None \<Rightarrow> Inr sv | Some _ \<Rightarrow> handleClientInput i result sv))"

inductive reachable_server :: "os \<Rightarrow> server \<Rightarrow> bool" for s0 where
  start: "reachable_server s0 \<lparr>clients = [], userPipes = [], world = s0\<rparr>"
| step: "reachable_server s0 sv \<Longrightarrow> server_step ev sv = Inr sv' \<Longrightarrow> reachable_server s0 sv'"

end
