(* ===== verification/Rwg_Theorems.thy ===== *)
theory Rwg_Theorems
  imports Rwg_Single
begin

text \<open>
  What the chat server of \<open>np_single_proc.cpp\<close> guarantees: its invariant over every sequence of
  connections and inputs, who receives a message, the smallest free user number, and the life of a
  user pipe.
\<close>

section \<open>The invariant\<close>

definition client_ok :: "int \<Rightarrow> Client \<Rightarrow> bool" where
  "client_ok k c \<longleftrightarrow> cl_id c = k \<and> online c \<and> 1 \<le> k \<and> k \<le> kMaxUsers"

definition names_ok :: "(int \<times> Client) list \<Rightarrow> bool" where
  "names_ok cs \<longleftrightarrow> (\<forall>i c j d. (i, c) \<in> set cs \<longrightarrow> (j, d) \<in> set cs \<longrightarrow> i \<noteq> j \<longrightarrow>
     cl_name c = cl_name d \<longrightarrow> cl_name c = kDefaultName)"

definition users :: "server \<Rightarrow> int set" where
  "users sv = fst ` set (clients sv)"

definition server_inv :: "server \<Rightarrow> bool" where
  "server_inv sv \<longleftrightarrow> map_wf (clients sv) \<and> (\<forall>(k, c) \<in> set (clients sv). client_ok k c) \<and>
     names_ok (clients sv) \<and> map_wf (userPipes sv) \<and>
     (\<forall>e \<in> set (userPipes sv). pipe_from (fst e) \<in> users sv \<and> pipe_to (fst e) \<in> users sv)"

text \<open>What a step that neither adds nor removes a client keeps.\<close>

definition keeps :: "server \<Rightarrow> server \<Rightarrow> bool" where
  "keeps sv sv' \<longleftrightarrow> (server_inv sv \<longrightarrow> server_inv sv') \<and> users sv' = users sv"

lemma keeps_refl [simp]: "keeps sv sv"
  by (simp add: keeps_def)

lemma keeps_trans [trans]: "keeps sv sv' \<Longrightarrow> keeps sv' sv'' \<Longrightarrow> keeps sv sv''"
  by (simp add: keeps_def)

lemma keeps_world: "clients sv' = clients sv \<Longrightarrow> userPipes sv' = userPipes sv \<Longrightarrow> keeps sv sv'"
  by (simp add: keeps_def server_inv_def users_def)

lemma lookup_client:
  assumes "map_wf (clients sv)"
  shows "(k, c) \<in> set (clients sv) \<longleftrightarrow> map_of (clients sv) k = Some c"
  using omap.lookup_entries [OF assms] .

lemma users_lookup: "i \<in> users sv \<Longrightarrow> map_of (clients sv) i = Some (client_at i sv)"
  by (auto simp: users_def client_at_def dest: weak_map_of_SomeI)

lemma users_set_client: "users (set_client i c sv) = insert i (users sv)"
  using keys_insert [of i c "clients sv"] by (simp add: users_def set_client_def)

lemma set_clients: "map_wf (clients sv) \<Longrightarrow>
    e \<in> set (clients (set_client i c sv)) \<longleftrightarrow> e = (i, c) \<or> e \<in> set (clients sv) \<and> fst e \<noteq> i"
  by (simp add: set_client_def omap.mem_insert)

text \<open>A client stored again under its number, with a name nobody else has.\<close>

lemma keeps_set_client:
  assumes "i \<in> users sv" and "cl_id c = cl_id (client_at i sv)" and "online c = online (client_at i sv)"
    and name: "cl_name c = cl_name (client_at i sv) \<or>
      (\<forall>(j, d) \<in> set (clients sv). j \<noteq> i \<longrightarrow> cl_name d \<noteq> cl_name c)"
  shows "keeps sv (set_client i c sv)"
proof -
  have users: "users (set_client i c sv) = users sv"
    using assms(1) by (auto simp: users_set_client)
  have "server_inv (set_client i c sv)" if inv: "server_inv sv"
  proof -
    have wf: "map_wf (clients sv)" using inv by (simp add: server_inv_def)
    note mem = set_clients [OF wf, of _ i c]
    have at: "(i, client_at i sv) \<in> set (clients sv)"
      using users_lookup [OF assms(1)] lookup_client [OF wf] by blast
    have "client_ok i c" using inv at assms(2,3) by (auto simp: server_inv_def client_ok_def)
    then have "\<forall>(k, d) \<in> set (clients (set_client i c sv)). client_ok k d"
      using inv by (auto simp: mem server_inv_def)
    moreover have "names_ok (clients (set_client i c sv))"
    proof -
      have old: "(k, d) \<in> set (clients sv) \<Longrightarrow> (l, e) \<in> set (clients sv) \<Longrightarrow> k \<noteq> l \<Longrightarrow>
          cl_name d = cl_name e \<Longrightarrow> cl_name d = kDefaultName" for k d l e
        using inv by (simp add: server_inv_def names_ok_def)
      have new: "cl_name d = cl_name c \<Longrightarrow> cl_name c = kDefaultName"
        if "(l, d) \<in> set (clients sv)" "l \<noteq> i" for l d
        using name old [OF at that(1)] that by fastforce
      show ?thesis
        unfolding names_ok_def mem using old new by (metis fst_conv prod.inject)
    qed
    ultimately show ?thesis
      using inv users wf by (simp add: server_inv_def set_client_def map_wf_insert)
  qed
  with users show ?thesis by (simp add: keeps_def)
qed

lemma keeps_shell: "i \<in> users sv \<Longrightarrow> keeps sv (set_client i ((client_at i sv)\<lparr>cl_shell := st\<rparr>) sv)"
  by (rule keeps_set_client) simp_all

lemma keeps_buffer: "i \<in> users sv \<Longrightarrow> keeps sv (set_buffer i b sv)"
  unfolding set_buffer_def by (rule keeps_set_client) simp_all

section \<open>Messages\<close>

lemma sendTo_keeps [simp]:
  "clients (sendTo c msg sv) = clients sv" "userPipes (sendTo c msg sv) = userPipes sv"
  by (simp_all add: sendTo_def)

lemma fold_sendTo:
  assumes "\<And>e sv. clients (f e sv) = clients sv \<and> userPipes (f e sv) = userPipes sv"
  shows "clients (fold f es sv) = clients sv \<and> userPipes (fold f es sv) = userPipes sv"
  using assms by (induction es arbitrary: sv) simp_all

lemma broadcast_keeps [simp]:
  "clients (broadcast msg sv) = clients sv" "userPipes (broadcast msg sv) = userPipes sv"
  unfolding broadcast_def
  using fold_sendTo [of "\<lambda>e sv. if online (snd e) then sendTo (snd e) msg sv else sv" "clients sv" sv] by simp_all

lemma who_keeps [simp]:
  "clients (who_command i sv) = clients sv" "userPipes (who_command i sv) = userPipes sv"
proof -
  let ?f = "\<lambda>k sv'. case findClientById k sv' of None \<Rightarrow> sv'
    | Some target \<Rightarrow> sendTo (client_at i sv) (who_row (cl_id (client_at i sv)) target) sv'"
  have "clients (?f k sv') = clients sv' \<and> userPipes (?f k sv') = userPipes sv'" for k sv'
    by (simp split: option.split)
  from fold_sendTo [of ?f, OF this]
  show "clients (who_command i sv) = clients sv" "userPipes (who_command i sv) = userPipes sv"
    by (simp_all add: who_command_def Let_def)
qed

lemma tell_keeps [simp]:
  "clients (tell_command i k text sv) = clients sv" "userPipes (tell_command i k text sv) = userPipes sv"
  by (simp_all add: tell_command_def Let_def split: option.split)

lemma find_none: "list_ex P xs \<longleftrightarrow> (\<exists>x \<in> set xs. P x)"
  by (simp add: list_ex_iff)

lemma name_keeps:
  assumes "i \<in> users sv"
  shows "keeps sv (name_command i n sv)"
proof (cases "list_ex (\<lambda>e. online (snd e) \<and> cl_name (snd e) = n) (clients sv)")
  case True
  then show ?thesis by (simp add: name_command_def Let_def keeps_world)
next
  case False
  let ?c = "(client_at i sv)\<lparr>cl_name := n\<rparr>"
  have "keeps sv (set_client i ?c sv)"
  proof (cases "server_inv sv")
    case True
    then have "\<forall>(j, d) \<in> set (clients sv). cl_name d \<noteq> n"
      using False by (fastforce simp: find_none server_inv_def client_ok_def)
    with assms show ?thesis by (intro keeps_set_client) auto
  next
    case no: False
    then show ?thesis using assms by (auto simp: keeps_def users_set_client)
  qed
  also have "keeps \<dots> (broadcast msg (set_client i ?c sv))" for msg by (rule keeps_world) simp_all
  finally show ?thesis using False by (simp add: name_command_def Let_def)
qed

lemma builtin_done_keeps: "i \<in> users sv \<Longrightarrow> keeps sv (builtin_done i sv)"
proof -
  assume i: "i \<in> users sv"
  have "keeps (sv\<lparr>world := s\<rparr>) (set_client i ((client_at i sv)\<lparr>cl_shell := st\<rparr>) (sv\<lparr>world := s\<rparr>))" for st s
    using keeps_shell [of i "sv\<lparr>world := s\<rparr>" st] i by (simp add: users_def client_at_def)
  moreover have "keeps sv (sv\<lparr>world := s\<rparr>)" for s by (rule keeps_world) simp_all
  ultimately show ?thesis
    unfolding builtin_done_def Let_def by (auto intro: keeps_trans split: prod.split)
qed

lemma keeps_users: "keeps sv sv' \<Longrightarrow> users sv' = users sv"
  by (simp add: keeps_def)

lemma handleRwgBuiltin_keeps:
  assumes "i \<in> users sv" and "handleRwgBuiltin i line sv = Inr (b, sv')"
  shows "keeps sv sv'"
proof -
  have finish: "keeps sv (builtin_done i sv1)" if "keeps sv sv1" for sv1
    using keeps_trans [OF that builtin_done_keeps] keeps_users [OF that] assms(1) by simp
  have "keeps sv (who_command i sv)" "keeps sv (broadcast msg sv)" "keeps sv (tell_command i k t sv)" for msg k t
    by (rule keeps_world; simp)+
  with finish name_keeps [OF assms(1)] show ?thesis
    using assms(2) unfolding handleRwgBuiltin_def Let_def
    by (auto split: list.splits if_splits)
qed

section \<open>User pipes and lines\<close>

lemma keeps_pipes:
  assumes "clients sv' = clients sv"
    and "map_wf (userPipes sv) \<Longrightarrow> map_wf (userPipes sv')"
    and "\<And>e. e \<in> set (userPipes sv') \<Longrightarrow> map_wf (userPipes sv) \<Longrightarrow>
      e \<in> set (userPipes sv) \<or> pipe_from (fst e) \<in> users sv \<and> pipe_to (fst e) \<in> users sv"
  shows "keeps sv sv'"
proof -
  have users: "users sv' = users sv" using assms(1) by (simp add: users_def)
  have "server_inv sv'" if inv: "server_inv sv"
  proof -
    have wf: "map_wf (userPipes sv)" using inv by (simp add: server_inv_def)
    have "pipe_from (fst e) \<in> users sv \<and> pipe_to (fst e) \<in> users sv" if "e \<in> set (userPipes sv')" for e
      using assms(3) [OF that wf] inv by (auto simp: server_inv_def)
    then show ?thesis
      using inv assms(2) [OF wf] unfolding server_inv_def users assms(1) by blast
  qed
  with users show ?thesis by (simp add: keeps_def)
qed

lemma findClient_user: "findClientById i sv = Some c \<Longrightarrow> i \<in> users sv \<and> client_at i sv = c \<and> online c"
  by (auto simp: findClientById_def users_def client_at_def split: option.splits if_splits
      intro: map_of_SomeD rev_image_eqI)

lemma findClient_cong: "clients sv' = clients sv \<Longrightarrow> findClientById i sv' = findClientById i sv"
  by (simp add: findClientById_def)

lemma open_devnull_keeps [simp]:
  "clients (snd (open_devnull sv)) = clients sv" "userPipes (snd (open_devnull sv)) = userPipes sv"
  by (simp_all add: open_devnull_def Let_def split: prod.split)

lemma resolve_input_keeps:
  assumes "resolve_input i source line r sv = (r', sv')"
  shows "keeps sv sv'"
proof -
  have null: "keeps sv sv1" if "open_devnull (sendTo me msg sv) = (fd, sv1)" for me msg fd sv1
    using open_devnull_keeps [of "sendTo me msg sv"] that by (intro keeps_world) simp_all
  have taken: "keeps sv (sv2\<lparr>userPipes := map_erase k (userPipes sv2)\<rparr>)"
    if "clients sv2 = clients sv" "userPipes sv2 = userPipes sv" for sv2 k
    by (rule keeps_pipes) (auto simp: that map_wf_erase omap.mem_erase)
  show ?thesis
    using assms null taken unfolding resolve_input_def Let_def
    by (auto split: option.splits prod.splits)
qed

lemma resolve_output_keeps:
  assumes "i \<in> users sv" and "resolve_output i dest line r sv = Inr (r', sv')"
  shows "keeps sv sv'"
proof -
  have null: "keeps sv sv1" if "open_devnull (sendTo me msg sv) = (fd, sv1)" for me msg fd sv1
    using open_devnull_keeps [of "sendTo me msg sv"] that by (intro keeps_world) simp_all
  have made: "keeps sv sv2"
    if "clients sv2 = clients sv" "userPipes sv2 = map_insert (From_To i dest) p (userPipes sv)"
      "findClientById dest sv = Some c" for sv2 p c
    by (rule keeps_pipes)
      (use that assms(1) findClient_user [OF that(3)] in \<open>auto simp: map_wf_insert omap.mem_insert\<close>)
  show ?thesis
    using assms(2) null made unfolding resolve_output_def Let_def
    by (auto split: option.splits prod.splits)
qed

lemma resolveUserPipes_keeps:
  assumes "i \<in> users sv" and "resolveUserPipes i request line sv = Inr (r, sv')"
  shows "keeps sv sv'"
proof -
  obtain r1 sv1 where one: "(if inputFrom request \<ge> 0 then resolve_input i (inputFrom request) line noResolution sv
       else (noResolution, sv)) = (r1, sv1)" by fastforce
  then have k: "keeps sv sv1" using resolve_input_keeps by (cases "inputFrom request \<ge> 0") auto
  then have "i \<in> users sv1" using assms(1) by (simp add: keeps_users)
  from resolve_output_keeps [OF this] have "keeps sv1 sv'"
    using assms(2) unfolding resolveUserPipes_def Let_def one prod.case by (auto split: if_splits)
  with k show ?thesis by (rule keeps_trans)
qed

lemma keeps_stored:
  assumes "i \<in> users sv"
  shows "keeps sv ((set_client i ((client_at i sv)\<lparr>cl_shell := st\<rparr>) sv)\<lparr>world := s\<rparr>)"
  using keeps_shell [OF assms] by (rule keeps_trans) (rule keeps_world; simp)

lemma execute_commands_keeps:
  assumes "i \<in> users sv" and "execute_commands i cs r sv = Inr sv'"
  shows "keeps sv sv'"
  using assms keeps_stored [OF assms(1)] by (auto simp: execute_commands_def)

lemma executeLine_keeps:
  assumes "i \<in> users sv" and "executeLine i input sv = Inr (b, sv')"
  shows "keeps sv sv'"
proof -
  define line where "line = (if input \<noteq> [] \<and> last input = CR then butlast input else input)"
  show ?thesis
  proof (cases "line = [] \<or> splitBySpace line \<noteq> [] \<and> hd (splitBySpace line) = ''exit''")
    case True
    then show ?thesis using assms(2) by (auto simp: executeLine_def line_def [symmetric] Let_def split: if_splits)
  next
    case False
    then obtain handled sv1 where h: "handleRwgBuiltin i line sv = Inr (handled, sv1)"
      using assms(2) by (auto simp: executeLine_def line_def [symmetric] Let_def)
    have k: "keeps sv sv1" using handleRwgBuiltin_keeps [OF assms(1) h] .
    then have i: "i \<in> users sv1" using assms(1) by (simp add: keeps_users)
    have commands: "keeps sv1 sv'"
      if run: "resolveUserPipes i request line sv1 = Inr (r, sv2)" "execute_commands i cs r sv2 = Inr sv'" for request r sv2 cs
    proof -
      have two: "keeps sv1 sv2" using resolveUserPipes_keeps [OF i run(1)] .
      then have "i \<in> users sv2" using i by (simp add: keeps_users)
      from keeps_trans [OF two execute_commands_keeps [OF this run(2)]] show ?thesis .
    qed
    have line_run: "executeLine i input sv = bindR (Inr (handled, sv1)) (\<lambda>(handled, sv1).
             if handled then Inr (True, sv1)
             else
               bindR (parseCommands line) (\<lambda>(cs, request).
                 if cs = [] then Inr (True, sv1)
                 else
                   (let c = client_at i sv1;
                        (builtin, st, s) =
                          (if length cs = 1 then executeShellBuiltin (cs ! 0) (cl_shell c) (cl_fd c) (world sv1)
                           else (False, cl_shell c, world sv1))
                    in if builtin then Inr (True, (set_client i (c\<lparr>cl_shell := st\<rparr>) sv1)\<lparr>world := s\<rparr>)
                       else
                         bindR (resolveUserPipes i request line sv1) (\<lambda>(r, sv2).
                           bindR (execute_commands i cs r sv2) (\<lambda>sv3. Inr (True, sv3))))))"
      unfolding executeLine_def line_def [symmetric] Let_def h [symmetric] using False by auto
    have "keeps sv1 sv'"
    proof (cases handled)
      case True
      then show ?thesis using assms(2) line_run by simp
    next
      case go: False
      then obtain cs request where cs: "parseCommands line = Inr (cs, request)"
        using assms(2) line_run by auto
      obtain builtin st s where b: "(if length cs = 1
          then executeShellBuiltin (cs ! 0) (cl_shell (client_at i sv1)) (cl_fd (client_at i sv1)) (world sv1)
          else (False, cl_shell (client_at i sv1), world sv1)) = (builtin, st, s)" by (metis prod_cases3)
      show ?thesis
        using assms(2) go keeps_stored [OF i] commands
        unfolding line_run cs bindR_simps prod.case Let_def b by (auto split: if_splits)
    qed
    with k show ?thesis by (rule keeps_trans)
  qed
qed

section \<open>Coming and going\<close>

lemma users_erase: "fst ` set (map_erase i m) = fst ` set m - {i}"
  by (auto simp: map_erase_def)

lemma map_wf_filter: "map_wf m \<Longrightarrow> map_wf (filter P m)"
  unfolding map_wf_def by (induction m) auto

lemma cleanupClient_inv:
  assumes inv: "server_inv sv"
  shows "server_inv (cleanupClient i b sv) \<and> users (cleanupClient i b sv) = users sv - {i}"
proof (cases "findClientById i sv")
  case None
  have "i \<notin> users sv"
  proof
    assume "i \<in> users sv"
    then have "map_of (clients sv) i = Some (client_at i sv)" by (rule users_lookup)
    moreover from this have "online (client_at i sv)"
      using inv lookup_client [of sv i] by (fastforce simp: server_inv_def client_ok_def)
    ultimately show False using None by (simp add: findClientById_def)
  qed
  with None inv show ?thesis by (simp add: cleanupClient_def)
next
  case (Some c)
  let ?mine = "\<lambda>e. pipe_from (fst e) = i \<or> pipe_to (fst e) = i"
  have wf: "map_wf (clients sv)" using inv by (simp add: server_inv_def)
  obtain fd' s1 where close: "closeFd (cl_fd c) (world sv) = (fd', s1)" by fastforce
  obtain st s2 where shell: "closeShellState (cl_shell c) s1 = (st, s2)" by fastforce
  let ?c = "c\<lparr>cl_fd := fd', cl_shell := st, online := False\<rparr>"
  have clients: "clients (cleanupClient i b sv) = map_erase i (map_insert i ?c (clients sv))"
    and pipes: "userPipes (cleanupClient i b sv) = filter (\<lambda>e. \<not> ?mine e) (userPipes sv)"
    unfolding cleanupClient_def Some option.case Let_def close shell prod.case
    by (cases b; simp add: cleanupClientUserPipes_def set_client_def Let_def)+
  from clients have mem: "e \<in> set (clients (cleanupClient i b sv)) \<longleftrightarrow> e \<in> set (clients sv) \<and> fst e \<noteq> i" for e
    using omap.mem_erase [OF map_wf_insert [OF wf]] omap.mem_insert [OF wf] by auto
  have "map_wf (clients (cleanupClient i b sv))"
    using clients wf by (simp add: map_wf_insert map_wf_erase)
  moreover have "map_wf (userPipes (cleanupClient i b sv))"
    using inv unfolding pipes by (simp add: server_inv_def map_wf_filter)
  moreover have users: "users (cleanupClient i b sv) = users sv - {i}"
    unfolding users_def by (force simp: mem)
  ultimately show ?thesis
    using inv users unfolding server_inv_def names_ok_def pipes by (auto simp: mem)
qed

lemma smallestUnusedId_free:
  assumes "smallestUnusedId sv = k" and "0 \<le> k"
  shows "1 \<le> k \<and> k \<le> kMaxUsers \<and> findClientById k sv = None"
  using assms by (auto simp: smallestUnusedId_def find_Some_iff split: option.splits)

lemma findClient_user_iff:
  assumes "server_inv sv"
  shows "findClientById k sv = None \<longleftrightarrow> k \<notin> users sv"
proof
  assume none: "findClientById k sv = None"
  show "k \<notin> users sv"
  proof
    assume "k \<in> users sv"
    then have "map_of (clients sv) k = Some (client_at k sv)" by (rule users_lookup)
    moreover from this have "online (client_at k sv)"
      using assms lookup_client [of sv k] by (fastforce simp: server_inv_def client_ok_def)
    ultimately show False using none by (simp add: findClientById_def)
  qed
next
  assume "k \<notin> users sv"
  then show "findClientById k sv = None" using findClient_user by (cases "findClientById k sv") auto
qed

lemma acceptClient_inv:
  assumes inv: "server_inv sv"
  shows "server_inv (acceptClient n host port sv)"
proof -
  obtain connFd s where acc: "sys_accept n (world sv) = (connFd, s)" by fastforce
  let ?i = "smallestUnusedId sv"
  have world: "server_inv (sv\<lparr>world := s'\<rparr>)" for s'
    using inv keeps_world [of "sv\<lparr>world := s'\<rparr>" sv] by (simp add: keeps_def)
  show ?thesis
  proof (cases "connFd < 0 \<or> ?i < 0")
    case True
    then show ?thesis
      using inv world unfolding acceptClient_def Let_def acc prod.case by auto
  next
    case False
    let ?c = "new_client ?i connFd host port"
    let ?sv1 = "set_client ?i ?c (sv\<lparr>world := s\<rparr>)"
    have i: "1 \<le> ?i" "?i \<le> kMaxUsers" "?i \<notin> users sv"
      using smallestUnusedId_free [of sv ?i] False findClient_user_iff [OF inv] by auto
    have wf: "map_wf (clients (sv\<lparr>world := s\<rparr>))" using inv by (simp add: server_inv_def)
    note mem = set_clients [OF wf, of _ ?i ?c]
    have c: "cl_id ?c = ?i" "online ?c" "cl_name ?c = kDefaultName" by (simp_all add: new_client_def)
    have pipes: "userPipes ?sv1 = userPipes sv" by (simp add: set_client_def)
    have "server_inv ?sv1"
      unfolding server_inv_def users_set_client names_ok_def pipes
    proof (intro conjI allI impI ballI)
      show "map_wf (clients ?sv1)" using wf by (simp add: set_client_def map_wf_insert)
    next
      fix e assume "e \<in> set (clients ?sv1)"
      then show "case e of (k, d) \<Rightarrow> client_ok k d"
        using inv i c by (auto simp: mem server_inv_def client_ok_def)
    next
      fix k d l e assume "(k, d) \<in> set (clients ?sv1)" "(l, e) \<in> set (clients ?sv1)" "k \<noteq> l" "cl_name d = cl_name e"
      then show "cl_name d = kDefaultName"
        using inv c(3) unfolding mem server_inv_def names_ok_def by (cases "k = ?i"; cases "l = ?i") auto
    qed (use inv in \<open>auto simp: server_inv_def users_def\<close>)
    moreover have "clients (acceptClient n host port sv) = clients ?sv1"
      "userPipes (acceptClient n host port sv) = userPipes ?sv1"
      using False unfolding acceptClient_def Let_def acc prod.case by (simp_all add: sendPrompt_def)
    ultimately show ?thesis using keeps_world by (simp add: keeps_def)
  qed
qed

section \<open>The server\<close>

lemma sendPrompt_keeps [simp]: "keeps sv (sendPrompt c sv)"
  by (rule keeps_world) (simp_all add: sendPrompt_def)

lemma input_loop_inv:
  assumes "server_inv sv" and "i \<in> users sv" and "input_loop i buffer sv = Inr sv'"
  shows "server_inv sv'"
  using assms
proof (induction i buffer sv rule: input_loop.induct)
  case (1 i buffer sv)
  show ?case
  proof (cases "dropWhile (\<lambda>c. c \<noteq> NL) buffer")
    case Nil
    with "1.prems" show ?thesis by (simp add: input_loop.simps [of i buffer] del: dropWhile_eq_Nil_conv)
  next
    case (Cons nl rest)
    let ?sv = "set_buffer i rest sv" and ?line = "takeWhile (\<lambda>c. c \<noteq> NL) buffer"
    obtain b sv1 where line: "executeLine i ?line ?sv = Inr (b, sv1)"
      and step: "(if \<not> b then Inr (cleanupClient i True sv1)
        else input_loop i rest (sendPrompt (client_at i sv1) sv1)) = Inr sv'"
      using "1.prems"(3) by (auto simp: input_loop.simps [of i buffer] Cons)
    have k0: "keeps sv ?sv" using "1.prems"(2) by (rule keeps_buffer)
    then have "i \<in> users ?sv" using "1.prems"(2) by (simp add: keeps_users)
    from keeps_trans [OF k0 executeLine_keeps [OF this line]] have k: "keeps sv sv1" .
    then have sv1: "server_inv sv1" "i \<in> users sv1" using "1.prems" by (simp_all add: keeps_def)
    show ?thesis
    proof (cases b)
      case False
      with step cleanupClient_inv [OF sv1(1), of i True] show ?thesis by auto
    next
      case True
      have "keeps sv1 (sendPrompt (client_at i sv1) sv1)" by simp
      then have "server_inv (sendPrompt (client_at i sv1) sv1)" "i \<in> users (sendPrompt (client_at i sv1) sv1)"
        using sv1 by (simp_all add: keeps_def)
      with "1.IH" [OF Cons, of "(b, sv1)" b sv1] True step line show ?thesis by simp
    qed
  qed
qed

lemma handleClientInput_inv:
  assumes "server_inv sv" and "i \<in> users sv" and "handleClientInput i result sv = Inr sv'"
  shows "server_inv sv'"
proof (cases result)
  case (ReadData t)
  let ?b = "inputBuffer (client_at i sv) @ t"
  have "keeps sv (set_buffer i ?b sv)" using assms(2) by (rule keeps_buffer)
  then have "server_inv (set_buffer i ?b sv)" "i \<in> users (set_buffer i ?b sv)"
    using assms by (simp_all add: keeps_def)
  from input_loop_inv [OF this] assms(3) ReadData show ?thesis by (simp add: handleClientInput_def Let_def)
qed (use assms cleanupClient_inv [OF assms(1)] in \<open>auto simp: handleClientInput_def\<close>)

lemma server_step_inv:
  assumes "server_inv sv" and "server_step ev sv = Inr sv'"
  shows "server_inv sv'"
proof (cases ev)
  case (Connection n host port)
  with assms acceptClient_inv show ?thesis by (auto simp: server_step_def)
next
  case (ClientInput i result)
  with assms handleClientInput_inv findClient_user show ?thesis
    by (fastforce simp: server_step_def split: option.splits)
qed

text \<open>C5. Whatever clients connect and whatever bytes they send: users are stored under their numbers,
  which lie between 1 and 30, all stored users are online, no two have the same name unless it is the
  default one, and every user pipe leads from a user that is there to a user that is there.\<close>

theorem server_invariant:
  assumes "reachable_server s0 sv"
  shows "server_inv sv"
  using assms
proof induction
  case start
  then show ?case by (simp add: server_inv_def names_ok_def)
next
  case (step sv ev sv')
  then show ?case using server_step_inv by blast
qed

definition chat_os :: os where
  "chat_os =
     \<lparr>fdt = [Some (Terminal 0), Some (Terminal 1), Some (Terminal 2), Some (Socket 0)], nextPipe = 0, nofile = 30,
      openable = (\<lambda>path. True), execable = (\<lambda>e name. True), forks = [], polls = [],
      nextPid = 100, procs = [], waited = [], written = []\<rparr>"

definition empty_server :: server where
  "empty_server = \<lparr>clients = [], userPipes = [], world = chat_os\<rparr>"

text \<open>Two users have come.\<close>

definition chat_server :: server where
  "chat_server = acceptClient 2 ''10.0.0.2'' 81 (acceptClient 1 ''10.0.0.1'' 80 empty_server)"

lemma chat_clients: "map fst (clients chat_server) = [1, 2]"
  by code_simp

lemma chat_users: "users chat_server = {1, 2}"
  using arg_cong [OF chat_clients, of set] by (simp add: users_def)

lemma chat_reachable: "reachable_server chat_os chat_server"
proof -
  have "reachable_server chat_os empty_server"
    unfolding empty_server_def by (rule reachable_server.start)
  then have "reachable_server chat_os (acceptClient 1 ''10.0.0.1'' 80 empty_server)"
    by (rule reachable_server.step [where ev = "Connection 1 ''10.0.0.1'' 80"]) (simp add: server_step_def)
  then show ?thesis
    unfolding chat_server_def
    by (rule reachable_server.step [where ev = "Connection 2 ''10.0.0.2'' 81"]) (simp add: server_step_def)
qed

lemma chat_inv: "server_inv chat_server"
proof -
  have "server_inv empty_server" by (simp add: empty_server_def server_inv_def names_ok_def)
  then show ?thesis unfolding chat_server_def by (intro acceptClient_inv)
qed

lemma server_invariant_instance: "server_inv chat_server \<and> users chat_server = {1, 2}"
  using server_invariant [OF chat_reachable] chat_users by blast

section \<open>Messages and numbers\<close>

text \<open>A broadcast reaches every user that is online and whose connection is open, each once and in
  the order of the user numbers, and nobody else; it changes nothing but what has been written.\<close>

theorem broadcast_reaches_all:
  "broadcast msg sv = sv\<lparr>world := (world sv)\<lparr>written := written (world sv) @
     concat (map (\<lambda>(k, c). if online c then
                             (case fd_get (fdt (world sv)) (cl_fd c) of None \<Rightarrow> [] | Some f \<Rightarrow> [(f, msg)])
                           else []) (clients sv))\<rparr>\<rparr>"
proof -
  let ?f = "\<lambda>e sv. if online (snd e) then sendTo (snd e) msg sv else sv"
  let ?out = "\<lambda>t (k, c). if online c then (case fd_get t (cl_fd c) of None \<Rightarrow> [] | Some f \<Rightarrow> [(f, msg)]) else []"
  have "fold ?f es sv = sv\<lparr>world := (world sv)\<lparr>written := written (world sv) @ concat (map (?out t) es)\<rparr>\<rparr>"
    if "fdt (world sv) = t" for es t
    using that
  proof (induction es arbitrary: sv)
    case (Cons e es)
    obtain k c where e: "e = (k, c)" by fastforce
    show ?case
    proof (cases "online c")
      case True
      with Cons show ?thesis
        by (cases "fd_get t (cl_fd c)") (simp_all add: e sendTo_def sys_write_def)
    next
      case False
      with Cons show ?thesis by (simp add: e)
    qed
  qed simp
  from this [OF refl, of "clients sv"] show ?thesis unfolding broadcast_def .
qed

text \<open>The number of a new user is the smallest one that no user has, and there is none exactly when
  all thirty are taken.\<close>

theorem smallest_unused_id:
  assumes "server_inv sv"
  shows "smallestUnusedId sv = k \<longleftrightarrow>
    (1 \<le> k \<and> k \<le> kMaxUsers \<and> k \<notin> users sv \<and> {1..<k} \<subseteq> users sv) \<or> (k = -1 \<and> {1..kMaxUsers} \<subseteq> users sv)"
proof (cases "find (\<lambda>k. findClientById k sv = None) [1..kMaxUsers]")
  case None
  then have "{1..kMaxUsers} \<subseteq> users sv"
    using findClient_user_iff [OF assms] by (auto simp: find_None_iff)
  then show ?thesis using None by (auto simp: smallestUnusedId_def)
next
  case (Some m)
  then obtain n where n: "n < length [1..kMaxUsers]" "m = [1..kMaxUsers] ! n" "findClientById m sv = None"
    and before: "\<forall>j < n. findClientById ([1..kMaxUsers] ! j) sv \<noteq> None"
    by (auto simp: find_Some_iff)
  have m: "m = 1 + int n" "1 \<le> m" "m \<le> kMaxUsers" using n by simp_all
  have "x \<in> users sv" if "1 \<le> x" "x < m" for x
  proof -
    have "nat (x - 1) < n" "[1..kMaxUsers] ! nat (x - 1) = x" using that m n(1) by auto
    with before show ?thesis using findClient_user_iff [OF assms] by metis
  qed
  moreover have "m \<notin> users sv" using n(3) findClient_user_iff [OF assms] by blast
  moreover have "smallestUnusedId sv = m" using Some by (simp add: smallestUnusedId_def)
  ultimately have small: "smallestUnusedId sv = m" "m \<notin> users sv" "{1..<m} \<subseteq> users sv" by auto
  show ?thesis
  proof
    assume "smallestUnusedId sv = k"
    then show "(1 \<le> k \<and> k \<le> kMaxUsers \<and> k \<notin> users sv \<and> {1..<k} \<subseteq> users sv) \<or>
        (k = -1 \<and> {1..kMaxUsers} \<subseteq> users sv)" using small m by simp
  next
    assume k: "(1 \<le> k \<and> k \<le> kMaxUsers \<and> k \<notin> users sv \<and> {1..<k} \<subseteq> users sv) \<or>
        (k = -1 \<and> {1..kMaxUsers} \<subseteq> users sv)"
    have "\<not> {1..kMaxUsers} \<subseteq> users sv" using small(2) m(2,3) by (metis atLeastAtMost_iff subsetD)
    with k have r: "1 \<le> k" "k \<notin> users sv" "{1..<k} \<subseteq> users sv" by auto
    have "\<not> k < m" using r(1,2) small(3) by (metis atLeastLessThan_iff subsetD)
    moreover have "\<not> m < k" using r(3) small(2) m(2) by (metis atLeastLessThan_iff subsetD)
    ultimately show "smallestUnusedId sv = k" using small(1) by simp
  qed
qed

lemma smallest_unused_id_instance: "smallestUnusedId chat_server = 3"
proof -
  have "{1..<3 :: int} \<subseteq> {1, 2}" by auto
  then show ?thesis using smallest_unused_id [OF chat_inv, of 3] chat_users by simp
qed

section \<open>The life of a user pipe\<close>

lemma broadcast_fdt [simp]: "fdt (world (broadcast msg sv)) = fdt (world sv)"
proof -
  have "fdt (world (fold (\<lambda>e sv. if online (snd e) then sendTo (snd e) msg sv else sv) es sv)) = fdt (world sv)" for es
    by (induction es arbitrary: sv) (simp_all add: sendTo_def os_simps)
  then show ?thesis by (simp add: broadcast_def)
qed

text \<open>Sending to a user who is there, over a pipe that does not exist yet, makes a pipe under the two
  numbers: the line writes into its write end, and the read end waits for the receiver.\<close>

theorem user_pipe_created:
  assumes "findClientById i sv = Some a" and "findClientById j sv = Some b" and "0 \<le> j"
    and "map_of (userPipes sv) (From_To i j) = None" and "createPipeOrDie (world sv) = Inr (p, s1)"
  shows "\<exists>r sv'. resolveUserPipes i \<lparr>inputFrom = -1, outputTo = j\<rparr> line sv = Inr (r, sv') \<and>
    r_outputFd r = writeFd p \<and> r_inputFd r = -1 \<and> devNullOutFd r = -1 \<and>
    map_of (userPipes sv') = (map_of (userPipes sv))(From_To i j \<mapsto> p) \<and> is_pipe (world sv') p"
proof -
  let ?sv1 = "sv\<lparr>world := s1, userPipes := map_insert (From_To i j) p (userPipes sv)\<rparr>"
  obtain msg where run: "resolveUserPipes i \<lparr>inputFrom = -1, outputTo = j\<rparr> line sv =
      Inr (noResolution\<lparr>r_outputFd := writeFd p\<rparr>, broadcast msg ?sv1)"
    using assms by (simp add: resolveUserPipes_def resolve_output_def Let_def)
  have "is_pipe (world (broadcast msg ?sv1)) p"
    using createPipe_facts(3) [OF assms(5)] by (simp add: is_pipe_def)
  with run show ?thesis by (simp add: noResolution_def map_of_insert)
qed

lemma user_pipe_created_instance:
  "\<exists>r sv'. resolveUserPipes 1 \<lparr>inputFrom = -1, outputTo = 2\<rparr> ''ls >2'' chat_server = Inr (r, sv') \<and>
    map_of (userPipes sv') (From_To 1 2) \<noteq> None"
proof -
  have found: "\<exists>c. findClientById k chat_server = Some c" if "k \<in> {1, 2}" for k
    using findClient_user_iff [OF chat_inv, of k] chat_users that by (cases "findClientById k chat_server") auto
  then obtain a b where ab: "findClientById 1 chat_server = Some a" "findClientById 2 chat_server = Some b" by blast
  have "\<not> isl (createPipeOrDie (world chat_server))" "userPipes chat_server = []" by code_simp+
  moreover from this(1) obtain p s1 where "createPipeOrDie (world chat_server) = Inr (p, s1)"
    by (cases "createPipeOrDie (world chat_server)") auto
  ultimately show ?thesis
    using user_pipe_created [OF ab, of p s1 "''ls >2''"] by auto
qed

text \<open>Receiving from a user who has sent: the line reads the read end of the pipe of the two numbers, the
  server gives up the write end, so that the reader sees the end of the input, and the pipe is gone: it is
  received once.\<close>

theorem user_pipe_received:
  assumes "findClientById j sv = Some b" and "0 \<le> j"
    and "map_of (userPipes sv) (From_To j i) = Some p" and "is_pipe (world sv) p"
  shows "\<exists>r sv'. resolveUserPipes i \<lparr>inputFrom = j, outputTo = -1\<rparr> line sv = Inr (r, sv') \<and>
    r_inputFd r = readFd p \<and> r_outputFd r = -1 \<and> devNullInFd r = -1 \<and>
    fd_get (fdt (world sv')) (readFd p) = fd_get (fdt (world sv)) (readFd p) \<and>
    fd_get (fdt (world sv')) (writeFd p) = None \<and>
    map_of (userPipes sv') = (map_of (userPipes sv))(From_To j i := None)"
proof -
  let ?sv1 = "sv\<lparr>world := snd (closeFd (writeFd p) (world sv))\<rparr>"
  obtain msg where run: "resolveUserPipes i \<lparr>inputFrom = j, outputTo = -1\<rparr> line sv =
      Inr (noResolution\<lparr>r_inputFd := readFd p\<rparr>,
        (broadcast msg ?sv1)\<lparr>userPipes := map_erase (From_To j i) (userPipes (broadcast msg ?sv1))\<rparr>)"
    using assms by (simp add: resolveUserPipes_def resolve_input_def Let_def)
  have "readFd p \<noteq> writeFd p" "0 \<le> writeFd p" using is_pipe_distinct [OF assms(4)] by auto
  then show ?thesis using run by (simp add: noResolution_def map_of_erase closeFd_open held_def)
qed

definition piped_server :: server where
  "piped_server =
     \<lparr>clients = [(1, new_client 1 4 ''10.0.0.1'' 80), (2, new_client 2 5 ''10.0.0.2'' 81)],
      userPipes = [(From_To 1 2, \<lparr>readFd = 6, writeFd = 7\<rparr>)],
      world = chat_os\<lparr>fdt := fdt chat_os @ [Some (Socket 1), Some (Socket 2), Some (PipeR 0), Some (PipeW 0)]\<rparr>\<rparr>"

lemma user_pipe_received_instance:
  "\<exists>r sv'. resolveUserPipes 2 \<lparr>inputFrom = 1, outputTo = -1\<rparr> ''cat <1'' piped_server = Inr (r, sv') \<and>
    fd_get (fdt (world sv')) (r_inputFd r) = Some (PipeR 0) \<and> fd_get (fdt (world sv')) 7 = None"
proof -
  have one: "findClientById 1 piped_server = Some (new_client 1 4 ''10.0.0.1'' 80)"
    by (simp add: findClientById_def piped_server_def new_client_def)
  have "map_of (userPipes piped_server) (From_To 1 2) = Some \<lparr>readFd = 6, writeFd = 7\<rparr>"
    and ends: "fd_get (fdt (world piped_server)) 6 = Some (PipeR 0)" "fd_get (fdt (world piped_server)) 7 = Some (PipeW 0)"
    by (simp_all add: piped_server_def chat_os_def fd_get_def)
  moreover have "is_pipe (world piped_server) \<lparr>readFd = 6, writeFd = 7\<rparr>" using ends by (simp add: is_pipe_def)
  ultimately show ?thesis using user_pipe_received [OF one, of 2 "\<lparr>readFd = 6, writeFd = 7\<rparr>" "''cat <1''"] by auto
qed

text \<open>A line that names a pipe it cannot have (a user who is not there, a pipe nobody has sent, a pipe
  that is already there) gets \<open>/dev/null\<close> on this side and changes neither users nor user pipes.\<close>

theorem user_pipe_refused:
  assumes "openable (world sv) ''/dev/null''" and "fd_lowest (fdt (world sv)) < int (nofile (world sv))"
    and "0 \<le> j"
    and "(request = \<lparr>inputFrom = j, outputTo = -1\<rparr> \<and>
           (findClientById j sv = None \<or> map_of (userPipes sv) (From_To j i) = None)) \<or>
         (request = \<lparr>inputFrom = -1, outputTo = j\<rparr> \<and>
           (findClientById j sv = None \<or> map_of (userPipes sv) (From_To i j) \<noteq> None))"
  shows "\<exists>r sv'. resolveUserPipes i request line sv = Inr (r, sv') \<and>
    clients sv' = clients sv \<and> userPipes sv' = userPipes sv \<and>
    fd_get (fdt (world sv')) (if inputFrom request = j then r_inputFd r else r_outputFd r) = Some DevNull \<and>
    (if inputFrom request = j then devNullInFd r = r_inputFd r else devNullOutFd r = r_outputFd r)"
proof -
  have null: "\<exists>fd sv1. open_devnull (sendTo me msg sv) = (fd, sv1) \<and> clients sv1 = clients sv \<and>
      userPipes sv1 = userPipes sv \<and> fd_get (fdt (world sv1)) fd = Some DevNull" for me msg
  proof -
    have keep: "fdt (world (sendTo me msg sv)) = fdt (world sv)"
      "openable (world (sendTo me msg sv)) = openable (world sv)" "nofile (world (sendTo me msg sv)) = nofile (world sv)"
      by (simp_all add: sendTo_def os_simps) (simp add: sys_write_def split: option.split)
    show ?thesis
      using assms(1,2) by (simp add: open_devnull_def sys_open_def Let_def keep fdt.get_put_lowest)
  qed
  consider (input_user) "request = \<lparr>inputFrom = j, outputTo = -1\<rparr>" "findClientById j sv = None"
    | (input_pipe) c where "request = \<lparr>inputFrom = j, outputTo = -1\<rparr>" "findClientById j sv = Some c"
        "map_of (userPipes sv) (From_To j i) = None"
    | (output_user) "request = \<lparr>inputFrom = -1, outputTo = j\<rparr>" "findClientById j sv = None"
    | (output_pipe) c p where "request = \<lparr>inputFrom = -1, outputTo = j\<rparr>" "findClientById j sv = Some c"
        "map_of (userPipes sv) (From_To i j) = Some p"
    using assms(4) by (metis not_None_eq)
  then show ?thesis
  proof cases
    case input_user
    with null [of "client_at i sv" "no_user_message j"] assms(3) show ?thesis
      by (auto simp: resolveUserPipes_def resolve_input_def Let_def)
  next
    case input_pipe
    with null [of "client_at i sv" "''*** Error: the pipe '' @ user_number j @ ''->'' @ user_number i @
        '' does not exist yet. ***'' @ [NL]"] assms(3) show ?thesis
      by (auto simp: resolveUserPipes_def resolve_input_def Let_def)
  next
    case output_user
    with null [of "client_at i sv" "no_user_message j"] assms(3) show ?thesis
      by (auto simp: resolveUserPipes_def resolve_output_def Let_def)
  next
    case output_pipe
    with null [of "client_at i sv" "''*** Error: the pipe '' @ user_number i @ ''->'' @ user_number j @
        '' already exists. ***'' @ [NL]"] assms(3) show ?thesis
      by (auto simp: resolveUserPipes_def resolve_output_def Let_def)
  qed
qed

lemma user_pipe_refused_instance:
  "\<exists>r sv'. resolveUserPipes 1 \<lparr>inputFrom = -1, outputTo = 2\<rparr> ''ls >2'' piped_server = Inr (r, sv') \<and>
    userPipes sv' = userPipes piped_server \<and> fd_get (fdt (world sv')) (r_outputFd r) = Some DevNull"
proof -
  have facts: "openable (world piped_server) ''/dev/null''"
    "fd_lowest (fdt (world piped_server)) < int (nofile (world piped_server))"
    "map_of (userPipes piped_server) (From_To 1 2) \<noteq> None"
    by (simp_all add: piped_server_def chat_os_def fd_lowest_def)
  from user_pipe_refused [OF facts(1,2), of 2 "\<lparr>inputFrom = -1, outputTo = 2\<rparr>" 1 "''ls >2''"] facts(3)
  show ?thesis by auto
qed

section \<open>Leaving and failing\<close>

text \<open>When a user leaves, the user and every pipe from or to this user are gone, the other users and
  the pipes among them stay, and the invariant is kept.\<close>

theorem leaving_cleans_up:
  assumes "server_inv sv"
  shows "server_inv (cleanupClient i announce sv) \<and> users (cleanupClient i announce sv) = users sv - {i} \<and>
    userPipes (cleanupClient i announce sv) =
      filter (\<lambda>e. pipe_from (fst e) \<noteq> i \<and> pipe_to (fst e) \<noteq> i) (userPipes sv)"
proof (cases "findClientById i sv")
  case None
  then have "\<forall>e \<in> set (userPipes sv). pipe_from (fst e) \<noteq> i \<and> pipe_to (fst e) \<noteq> i"
    using assms findClient_user_iff [OF assms] by (auto simp: server_inv_def)
  then have "filter (\<lambda>e. pipe_from (fst e) \<noteq> i \<and> pipe_to (fst e) \<noteq> i) (userPipes sv) = userPipes sv"
    by (simp add: filter_id_conv)
  moreover have "cleanupClient i announce sv = sv" using None by (simp add: cleanupClient_def)
  ultimately show ?thesis using cleanupClient_inv [OF assms, of i announce] by simp
next
  case (Some c)
  obtain fd' s1 where close: "closeFd (cl_fd c) (world sv) = (fd', s1)" by fastforce
  obtain st s2 where shell: "closeShellState (cl_shell c) s1 = (st, s2)" by fastforce
  have "userPipes (cleanupClient i announce sv) =
      filter (\<lambda>e. pipe_from (fst e) \<noteq> i \<and> pipe_to (fst e) \<noteq> i) (userPipes sv)"
    unfolding cleanupClient_def Some option.case Let_def close shell prod.case
    by (cases announce) (simp_all add: cleanupClientUserPipes_def set_client_def Let_def)
  with cleanupClient_inv [OF assms, of i announce] show ?thesis by blast
qed

lemma piped_server_inv: "server_inv piped_server"
  by (simp add: server_inv_def piped_server_def map_wf_def client_ok_def names_ok_def users_def new_client_def)

lemma leaving_cleans_up_instance:
  "users (cleanupClient 2 True piped_server) = {1} \<and> userPipes (cleanupClient 2 True piped_server) = []"
proof -
  have "users piped_server = {1, 2}" by (auto simp: users_def piped_server_def)
  moreover have "filter (\<lambda>e. pipe_from (fst e) \<noteq> 2 \<and> pipe_to (fst e) \<noteq> 2) (userPipes piped_server) = []"
    by (simp add: piped_server_def)
  ultimately show ?thesis using leaving_cleans_up [OF piped_server_inv, of 2 True] by auto
qed

text \<open>C35. One user can end the server for all: \<open>tell\<close> to something that is no number throws out of
  \<open>std::stoi\<close>, and nothing on the way to \<open>main\<close> catches it.\<close>

theorem tell_ends_server:
  assumes "findClientById i sv = Some c" and "inputBuffer c = []" and "good_token w" and "stoi w = Inl e"
  shows "server_step (ClientInput i (ReadData (''tell '' @ w @ '' hi'' @ [NL]))) sv = Inl e"
proof -
  let ?line = "''tell '' @ w @ '' hi''"
  have hi: "splitBySpace ''hi'' = [''hi'']"
    by (rule splitBySpace_token(2)) (simp add: good_token_def isspace_def)
  have "splitBySpace (w @ CHR '' '' # ''hi'') = w # splitBySpace ''hi''"
    using assms(3) by (rule splitBySpace_token(1))
  moreover have "splitBySpace (''tell'' @ CHR '' '' # w @ '' hi'') = ''tell'' # splitBySpace (w @ '' hi'')"
    by (rule splitBySpace_token(1)) (simp add: good_token_def isspace_def)
  ultimately have tokens: "splitBySpace ?line = [''tell'', w, ''hi'']" using hi by simp
  have fresh: "NL \<notin> set ?line" using assms(3) by (auto simp: good_token_def isspace_def)
  have handle: "handleRwgBuiltin i ?line s = Inl e" for s
    unfolding handleRwgBuiltin_def Let_def tokens using assms(4) by simp
  have line: "executeLine i l s = Inl e" if "l = ?line" for l s
  proof -
    have "l \<noteq> []" "last l \<noteq> CR" "splitBySpace l = [''tell'', w, ''hi'']" "handleRwgBuiltin i l s = Inl e"
      unfolding that using tokens handle by simp_all
    then show ?thesis by (simp add: executeLine_def Let_def)
  qed
  have at: "client_at i sv = c" using findClient_user [OF assms(1)] by blast
  have "input_loop i (?line @ [NL]) s = Inl e" for s
    using takeWhile_neq_append [OF fresh, of "[]"] dropWhile_neq_append [OF fresh, of "[]"] line [OF refl]
    by (subst input_loop.simps) (simp del: append_Cons)
  then have loop: "input_loop i (''tell '' @ w @ '' hi'' @ [NL]) s = Inl e" for s by simp
  show ?thesis
    using assms(1,2) at loop [simplified] by (simp add: server_step_def handleClientInput_def Let_def)
qed

lemma tell_ends_server_instance:
  "server_step (ClientInput 1 (ReadData (''tell bob hi'' @ [NL]))) piped_server = Inl (Uncaught InvalidArgument)"
proof -
  have one: "findClientById 1 piped_server = Some (new_client 1 4 ''10.0.0.1'' 80)"
    by (simp add: findClientById_def piped_server_def new_client_def)
  have bad: "stoi ''bob'' = Inl (Uncaught InvalidArgument)" by code_simp
  from tell_ends_server [OF one _ _ bad] show ?thesis
    by (simp add: new_client_def good_token_def isspace_def)
qed








end
