(* ===== verification/Rwg_Pipes.thy ===== *)
theory Rwg_Pipes
  imports Rwg_Theorems
begin

text \<open>
  A user pipe from end to end in \<open>np_single_proc.cpp\<close>: the line of the sender, the server's table, and the line of the
  receiver, with the engine that runs both. What the lines' children read and write is taken from the specification
  \<^const>\<open>wire_line\<close>.
\<close>

section \<open>Lines of external commands\<close>








section \<open>Users whose descriptors are in order\<close>




section \<open>The sender\<close>


section \<open>The receiver\<close>



section \<open>Properties\<close>






end
