(* ===== verification/Rwg_Select.thy ===== *)
theory Rwg_Select
  imports Rwg_Theorems Listen
begin

text \<open>
  The loop of \<open>runServer\<close> of \<open>np_single_proc.cpp\<close>: one round handles what \<open>select\<close> has reported, a connection first
  and then the clients that have input. A round is shown to be a sequence of the steps of \<^const>\<open>server_step\<close>, so
  that the invariant of the server holds after every round.
\<close>

section \<open>Rounds\<close>

text \<open>
  What \<open>select\<close> reports: a connection, and for each readable descriptor what \<open>read\<close> will deliver. A failing
  \<open>select\<close> is \<open>None\<close> in the list of rounds.
\<close>

record selected =
  arrival :: "(nat \<times> string \<times> nat) option"
  readable :: "fd \<Rightarrow> read_result option"

text \<open>\<open>FD_SET\<close> for the clients that are online.\<close>

definition registered :: "server \<Rightarrow> fd set" where
  "registered sv = {cl_fd (snd e) | e. e \<in> set (clients sv) \<and> online (snd e)}"

definition ready_clients :: "fd set \<Rightarrow> (fd \<Rightarrow> read_result option) \<Rightarrow> server \<Rightarrow> (int \<times> read_result) list" where
  "ready_clients readSet input sv =
     concat (map (\<lambda>(i, c). case input (cl_fd c) of
                     Some r \<Rightarrow> if online c \<and> cl_fd c \<in> readSet then [(i, r)] else []
                   | None \<Rightarrow> [])
               (clients sv))"

fun handle_ready :: "(int \<times> read_result) list \<Rightarrow> server \<Rightarrow> server result" where
  "handle_ready [] sv = Inr sv"
| "handle_ready ((i, r) # rs) sv =
     bindR (case findClientById i sv of None \<Rightarrow> Inr sv | Some _ \<Rightarrow> handleClientInput i r sv) (handle_ready rs)"

definition select_round :: "selected option \<Rightarrow> server \<Rightarrow> server result" where
  "select_round result sv =
     (case result of
        None \<Rightarrow> Inr sv
      | Some x \<Rightarrow>
          (let readSet = registered sv;
               sv1 = (case arrival x of None \<Rightarrow> sv | Some (n, ip, port) \<Rightarrow> acceptClient n ip port sv)
           in handle_ready (ready_clients readSet (readable x) sv1) sv1))"

fun server_loop :: "selected option list \<Rightarrow> server \<Rightarrow> server result" where
  "server_loop [] sv = Inr sv"
| "server_loop (x # xs) sv = bindR (select_round x sv) (server_loop xs)"

definition np_single_main :: "tcp_network \<Rightarrow> string list \<Rightarrow> selected option list \<Rightarrow> os \<Rightarrow> server result" where
  "np_single_main net args rounds s =
     bindR (start_listening createListenSocket_rwg net args s) (\<lambda>(listenFd, s1).
       server_loop rounds \<lparr>clients = [], userPipes = [], world = s1\<rparr>)"

section \<open>Rounds as events\<close>

fun run_events :: "server_event list \<Rightarrow> server \<Rightarrow> server result" where
  "run_events [] sv = Inr sv"
| "run_events (ev # evs) sv = bindR (server_step ev sv) (run_events evs)"


lemma handle_ready_events: "handle_ready rs sv = run_events (map (\<lambda>(i, r). ClientInput i r) rs) sv"
  by (induction rs sv rule: handle_ready.induct) (simp_all add: server_step_def fun_eq_iff bindR_def split: sum.split)

definition accepted :: "(nat \<times> string \<times> nat) option \<Rightarrow> server \<Rightarrow> server" where
  "accepted a sv = (case a of None \<Rightarrow> sv | Some (n, ip, port) \<Rightarrow> acceptClient n ip port sv)"

definition round_events :: "selected \<Rightarrow> server \<Rightarrow> server_event list" where
  "round_events x sv =
     (case arrival x of None \<Rightarrow> [] | Some (n, ip, port) \<Rightarrow> [Connection n ip port]) @
     map (\<lambda>(i, r). ClientInput i r) (ready_clients (registered sv) (readable x) (accepted (arrival x) sv))"

lemma select_round_events: "select_round (Some x) sv = run_events (round_events x sv) sv"
  by (auto simp: select_round_def round_events_def accepted_def handle_ready_events server_step_def Let_def
      split: option.split)






lemma run_events_reachable:
  "reachable_server s0 sv \<Longrightarrow> run_events evs sv = Inr sv' \<Longrightarrow> reachable_server s0 sv'"
proof (induction evs arbitrary: sv)
  case (Cons ev evs)
  from Cons.prems(2) obtain sv1 where "server_step ev sv = Inr sv1" and "run_events evs sv1 = Inr sv'"
    by (auto simp: bindR_eq_Inr)
  with Cons.IH reachable_server.step [OF Cons.prems(1)] show ?case by blast
qed simp

lemma server_loop_reachable:
  "reachable_server s0 sv \<Longrightarrow> server_loop rounds sv = Inr sv' \<Longrightarrow> reachable_server s0 sv'"
proof (induction rounds arbitrary: sv)
  case (Cons x rounds)
  from Cons.prems(2) obtain sv1 where round: "select_round x sv = Inr sv1" and rest: "server_loop rounds sv1 = Inr sv'"
    by (auto simp: bindR_eq_Inr)
  have "reachable_server s0 sv1"
  proof (cases x)
    case (Some y)
    with round run_events_reachable [OF Cons.prems(1)] show ?thesis by (simp add: select_round_events)
  qed (use round Cons.prems(1) in \<open>simp add: select_round_def\<close>)
  with Cons.IH rest show ?case by blast
qed simp

section \<open>Properties\<close>




lemma main_invariant: "np_single_main net args rounds s = Inr sv \<Longrightarrow> server_inv sv"
proof -
  assume "np_single_main net args rounds s = Inr sv"
  then obtain s1 where loop: "server_loop rounds \<lparr>clients = [], userPipes = [], world = s1\<rparr> = Inr sv"
    by (auto simp: np_single_main_def bindR_eq_Inr)
  show ?thesis
    by (rule server_invariant [OF server_loop_reachable [OF reachable_server.start loop]])
qed

end
