(* ===== verification/Rwg_Chunks.thy ===== *)
theory Rwg_Chunks
  imports Rwg_Select
begin

text \<open>
  How the input of a client is cut into the pieces that \<open>read\<close> returns makes no difference to \<open>np_single_proc.cpp\<close>. The input buffer is a field of the client, and the proof shows that no function of the server
  depends on it: each commutes with \<open>with_buffer\<close>, which replaces the field.
\<close>

section \<open>Replacing the buffer\<close>

definition new_buffer :: "int \<Rightarrow> string \<Rightarrow> int \<times> Client \<Rightarrow> int \<times> Client" where
  "new_buffer i b e = (if fst e = i then (fst e, (snd e)\<lparr>inputBuffer := b\<rparr>) else e)"

definition with_buffer :: "int \<Rightarrow> string \<Rightarrow> server \<Rightarrow> server" where
  "with_buffer i b sv = sv\<lparr>clients := map (new_buffer i b) (clients sv)\<rparr>"

lemma with_buffer_simps [simp]:
  "userPipes (with_buffer i b sv) = userPipes sv" "world (with_buffer i b sv) = world sv"
  "(with_buffer i b sv)\<lparr>world := s\<rparr> = with_buffer i b (sv\<lparr>world := s\<rparr>)"
  "(with_buffer i b sv)\<lparr>userPipes := ps\<rparr> = with_buffer i b (sv\<lparr>userPipes := ps\<rparr>)"
  "(with_buffer i b sv)\<lparr>world := s, userPipes := ps\<rparr> = with_buffer i b (sv\<lparr>world := s, userPipes := ps\<rparr>)"
  "users (with_buffer i b sv) = users sv"
proof -
  have "fst \<circ> new_buffer i b = fst" by (simp add: fun_eq_iff new_buffer_def)
  then show "users (with_buffer i b sv) = users sv" by (simp add: with_buffer_def users_def image_comp)
qed (simp_all add: with_buffer_def)

lemma map_of_new_buffer:
  "map_of (map (new_buffer i b) m) k = map_option (\<lambda>c. snd (new_buffer i b (k, c))) (map_of m k)"
  by (induction m) (auto simp: new_buffer_def)

lemma map_insert_new_buffer:
  "map_insert k (snd (new_buffer i b (k, c))) (map (new_buffer i b) m) = map (new_buffer i b) (map_insert k c m)"
  by (induction k c m rule: map_insert.induct) (auto simp: new_buffer_def)

lemma find_with_buffer: "findClientById k (with_buffer i b sv) = map_option (\<lambda>c. snd (new_buffer i b (k, c))) (findClientById k sv)"
  by (auto simp: findClientById_def with_buffer_def map_of_new_buffer new_buffer_def split: option.split)

lemma client_with_buffer: "i \<in> users sv \<Longrightarrow> client_at i (with_buffer i b sv) = (client_at i sv)\<lparr>inputBuffer := b\<rparr>"
proof -
  assume "i \<in> users sv"
  then obtain c where "map_of (clients sv) i = Some c" using users_lookup by blast
  then show ?thesis by (simp add: client_at_def with_buffer_def map_of_new_buffer new_buffer_def)
qed

lemma set_client_with_buffer:
  "set_client i (c\<lparr>inputBuffer := b\<rparr>) (with_buffer i b sv) = with_buffer i b (set_client i c sv)"
  using map_insert_new_buffer [of i i b c "clients sv"] by (simp add: set_client_def with_buffer_def new_buffer_def)

lemma set_fields_with_buffer:
  "set_client i (c\<lparr>inputBuffer := b, cl_shell := st\<rparr>) (with_buffer i b sv) = with_buffer i b (set_client i (c\<lparr>cl_shell := st\<rparr>) sv)"
  "set_client i (c\<lparr>inputBuffer := b, cl_name := n\<rparr>) (with_buffer i b sv) = with_buffer i b (set_client i (c\<lparr>cl_name := n\<rparr>) sv)"
  unfolding set_client_with_buffer [symmetric] by (cases c; simp)+

lemma sendTo_with_buffer [simp]:
  "sendTo (c\<lparr>inputBuffer := b'\<rparr>) msg sv = sendTo c msg sv"
  "sendTo c msg (with_buffer i b sv) = with_buffer i b (sendTo c msg sv)"
  by (simp_all add: sendTo_def)

lemma fold_with_buffer:
  assumes "\<And>e sv. f' (g e) (with_buffer i b sv) = with_buffer i b (f e sv)"
  shows "fold f' (map g es) (with_buffer i b sv) = with_buffer i b (fold f es sv)"
  by (induction es arbitrary: sv) (simp_all add: assms)

lemma broadcast_with_buffer [simp]: "broadcast msg (with_buffer i b sv) = with_buffer i b (broadcast msg sv)"
proof -
  let ?f = "\<lambda>e sv. if online (snd e) then sendTo (snd e) msg sv else sv"
  have "?f (new_buffer i b e) (with_buffer i b sv) = with_buffer i b (?f e sv)" for e sv
    by (simp add: new_buffer_def)
  from fold_with_buffer [of ?f "new_buffer i b" i b ?f, OF this]
  show ?thesis by (simp add: broadcast_def with_buffer_def)
qed

lemma who_with_buffer:
  assumes "i \<in> users sv"
  shows "who_command i (with_buffer i b sv) = with_buffer i b (who_command i sv)"
proof -
  let ?me = "client_at i sv"
  let ?f = "\<lambda>k sv. case findClientById k sv of None \<Rightarrow> sv | Some t \<Rightarrow> sendTo ?me (who_row (cl_id ?me) t) sv"
  have row: "who_row n (snd (new_buffer i b (k, t))) = who_row n t" for n k t
    by (simp add: who_row_def endpoint_def new_buffer_def)
  have "?f k (with_buffer i b sv) = with_buffer i b (?f k sv)" for k sv
    by (simp add: find_with_buffer row split: option.split)
  from fold_with_buffer [of ?f "\<lambda>k. k" i b ?f, OF this]
  have folds: "fold ?f ks (with_buffer i b sv) = with_buffer i b (fold ?f ks sv)" for ks sv by simp
  have "(\<lambda>k sv. case findClientById k sv of None \<Rightarrow> sv
      | Some t \<Rightarrow> sendTo (?me\<lparr>inputBuffer := b\<rparr>) (who_row (cl_id (?me\<lparr>inputBuffer := b\<rparr>)) t) sv) = ?f"
    by (intro ext) (simp split: option.split)
  with folds show ?thesis
    unfolding who_command_def Let_def client_with_buffer [OF assms] by simp
qed

lemma builtin_with_buffer:
  assumes "i \<in> users sv"
  shows "builtin_done i (with_buffer i b sv) = with_buffer i b (builtin_done i sv)"
proof -
  obtain st s where d: "discardIncomingPipe (cl_shell (client_at i sv))
      (executedSegments (cl_shell (client_at i sv)) + 1) (world sv) = (st, s)" by fastforce
  note stored = set_fields_with_buffer [where i = i and c = "client_at i sv" and b = b and sv = "sv\<lparr>world := s\<rparr>"]
  from d show ?thesis by (simp add: builtin_done_def Let_def client_with_buffer [OF assms] stored [simplified])
qed

lemma name_with_buffer:
  assumes "i \<in> users sv"
  shows "name_command i n (with_buffer i b sv) = with_buffer i b (name_command i n sv)"
proof -
  have same: "online (snd (new_buffer i b e)) = online (snd e) \<and> cl_name (snd (new_buffer i b e)) = cl_name (snd e)" for e
    by (simp add: new_buffer_def)
  have "list_ex (\<lambda>e. online (snd e) \<and> cl_name (snd e) = n) (clients (with_buffer i b sv)) =
      list_ex (\<lambda>e. online (snd e) \<and> cl_name (snd e) = n) (clients sv)"
    by (simp add: with_buffer_def list_ex_iff same)
  then show ?thesis
    by (simp add: name_command_def Let_def client_with_buffer [OF assms] endpoint_def set_fields_with_buffer)
qed

lemma tell_with_buffer:
  assumes "i \<in> users sv"
  shows "tell_command i k t (with_buffer i b sv) = with_buffer i b (tell_command i k t sv)"
  by (simp add: tell_command_def Let_def client_with_buffer [OF assms] find_with_buffer new_buffer_def split: option.split)

section \<open>Lines\<close>

lemma bindR_map: "bindR (map_sum id f r) k = bindR r (\<lambda>x. k (f x))"
  by (cases r) simp_all

lemma map_bindR: "map_sum id f (bindR r k) = bindR r (\<lambda>x. map_sum id f (k x))"
  by (cases r) simp_all

lemma users_cong: "clients sv' = clients sv \<Longrightarrow> users sv' = users sv"
  by (simp add: users_def)

lemma handleRwgBuiltin_with_buffer:
  assumes "i \<in> users sv"
  shows "handleRwgBuiltin i line (with_buffer i b sv) =
    map_sum id (map_prod id (with_buffer i b)) (handleRwgBuiltin i line sv)"
proof -
  have name: "i \<in> users (name_command i n sv)" for n using name_keeps [OF assms, of n] assms by (simp add: keeps_users)
  have others: "i \<in> users (who_command i sv)" "i \<in> users (tell_command i k t sv)" "i \<in> users (broadcast msg sv)" for k t msg
    using assms users_cong [OF who_keeps(1)] users_cong [OF tell_keeps(1)] users_cong [OF broadcast_keeps(1)] by simp_all
  note commute = builtin_with_buffer [OF assms] builtin_with_buffer [OF name] others [THEN builtin_with_buffer]
    who_with_buffer [OF assms] name_with_buffer [OF assms] tell_with_buffer [OF assms]
  let ?over = "map_sum id (map_prod id (with_buffer i b)) :: (bool \<times> server) result \<Rightarrow> (bool \<times> server) result"
  have named: "builtin_done i (if c then with_buffer i b (name_command i n sv) else with_buffer i b sv) =
      with_buffer i b (builtin_done i (if c then name_command i n sv else sv))" for c n
    by (simp add: commute)
  have told: "bindR (if c then bindR r (\<lambda>k. Inr (with_buffer i b (tell_command i k t sv))) else Inr (with_buffer i b sv))
        (\<lambda>sv1. Inr (True, builtin_done i sv1)) =
      ?over (bindR (if c then bindR r (\<lambda>k. Inr (tell_command i k t sv)) else Inr sv) (\<lambda>sv1. Inr (True, builtin_done i sv1)))"
    for c r t
    by (cases r) (simp_all add: commute)
  have name_kept: "cl_name ((client_at i sv)\<lparr>inputBuffer := b\<rparr>) = cl_name (client_at i sv)" by simp
  show ?thesis
    unfolding handleRwgBuiltin_def Let_def client_with_buffer [OF assms] name_kept
    by (cases "splitBySpace line")
      (simp_all only: list.case if_distrib [where f = ?over] map_sum.simps map_prod_simp id_apply told named commute
        broadcast_with_buffer)
qed

lemma open_devnull_with_buffer: "open_devnull (with_buffer i b sv) = map_prod id (with_buffer i b) (open_devnull sv)"
  by (simp add: open_devnull_def Let_def split: prod.split)

lemma resolve_input_with_buffer:
  assumes "i \<in> users sv"
  shows "resolve_input i k line r (with_buffer i b sv) = map_prod id (with_buffer i b) (resolve_input i k line r sv)"
  unfolding resolve_input_def Let_def client_with_buffer [OF assms] find_with_buffer with_buffer_simps
  by (auto simp: open_devnull_with_buffer case_prod_beta new_buffer_def Let_def split: option.split)

lemma resolve_output_with_buffer:
  assumes "i \<in> users sv"
  shows "resolve_output i k line r (with_buffer i b sv) =
    map_sum id (map_prod id (with_buffer i b)) (resolve_output i k line r sv)"
  unfolding resolve_output_def Let_def client_with_buffer [OF assms] find_with_buffer with_buffer_simps
  by (cases "createPipeOrDie (world sv)")
    (auto simp: open_devnull_with_buffer case_prod_beta new_buffer_def Let_def split: option.split)

lemma resolveUserPipes_with_buffer:
  assumes "i \<in> users sv"
  shows "resolveUserPipes i request line (with_buffer i b sv) =
    map_sum id (map_prod id (with_buffer i b)) (resolveUserPipes i request line sv)"
proof -
  obtain r1 sv1 where r1: "(if inputFrom request \<ge> 0 then resolve_input i (inputFrom request) line noResolution sv
      else (noResolution, sv)) = (r1, sv1)" by fastforce
  then have "keeps sv sv1" using resolve_input_keeps by (cases "inputFrom request \<ge> 0") auto
  then have "i \<in> users sv1" using assms by (simp add: keeps_users)
  moreover have "(if inputFrom request \<ge> 0 then resolve_input i (inputFrom request) line noResolution (with_buffer i b sv)
      else (noResolution, with_buffer i b sv)) = (r1, with_buffer i b sv1)"
    using r1 by (auto simp: resolve_input_with_buffer [OF assms] split: if_splits)
  ultimately show ?thesis
    unfolding resolveUserPipes_def Let_def r1 by (simp add: resolve_output_with_buffer)
qed

lemma execute_commands_with_buffer:
  assumes "i \<in> users sv"
  shows "execute_commands i cs r (with_buffer i b sv) = map_sum id (with_buffer i b) (execute_commands i cs r sv)"
proof -
  have "line_config i r (with_buffer i b sv) = line_config i r sv"
    by (simp add: line_config_def client_with_buffer [OF assms] collectUserPipeFds_def)
  then show ?thesis
    by (cases "executeExternalCommands cs (cl_shell (client_at i sv)) (line_config i r sv) (world sv)")
      (simp_all add: execute_commands_def client_with_buffer [OF assms] case_prod_beta set_fields_with_buffer)
qed

lemma executeLine_with_buffer:
  assumes "i \<in> users sv"
  shows "executeLine i input (with_buffer i b sv) = map_sum id (map_prod id (with_buffer i b)) (executeLine i input sv)"
proof -
  define line where "line = (if input \<noteq> [] \<and> last input = CR then butlast input else input)"
  define pipes where "pipes cs request sv = bindR (resolveUserPipes i request line sv) (\<lambda>(r, sv2).
      bindR (execute_commands i cs r sv2) (\<lambda>sv3. Inr (True, sv3)))" for cs request sv
  define commands where "commands cs request sv =
     (let c = client_at i sv;
          (builtin, st, s) =
            (if length cs = 1 then executeShellBuiltin (cs ! 0) (cl_shell c) (cl_fd c) (world sv)
             else (False, cl_shell c, world sv))
      in if builtin then Inr (True, (set_client i (c\<lparr>cl_shell := st\<rparr>) sv)\<lparr>world := s\<rparr>)
         else pipes cs request sv)" for cs request sv
  let ?over = "map_sum id (map_prod id (with_buffer i b)) :: (bool \<times> server) result \<Rightarrow> (bool \<times> server) result"
  have pipes: "pipes cs request (with_buffer i b sv) = ?over (pipes cs request sv)" if "i \<in> users sv" for cs request sv
  proof (cases "resolveUserPipes i request line sv")
    case (Inr x)
    then have "i \<in> users (snd x)"
      using resolveUserPipes_keeps [OF that, of request line "fst x" "snd x"] that by (simp add: keeps_users)
    from execute_commands_with_buffer [OF this]
    have "execute_commands i cs (fst x) (with_buffer i b (snd x)) =
        map_sum id (with_buffer i b) (execute_commands i cs (fst x) (snd x))" .
    with Inr show ?thesis
      unfolding pipes_def resolveUserPipes_with_buffer [OF that] by (simp add: case_prod_beta bindR_map map_bindR)
  qed (simp add: pipes_def resolveUserPipes_with_buffer [OF that])
  have commands: "commands cs request (with_buffer i b sv) = ?over (commands cs request sv)" if "i \<in> users sv" for cs request sv
    unfolding commands_def Let_def client_with_buffer [OF that]
    by (simp add: pipes [OF that] set_fields_with_buffer case_prod_beta)
  have step: "executeLine i input sv =
      (if line = [] then Inr (True, sv)
       else if splitBySpace line \<noteq> [] \<and> hd (splitBySpace line) = ''exit'' then Inr (False, sv)
       else bindR (handleRwgBuiltin i line sv) (\<lambda>(handled, sv1).
         if handled then Inr (True, sv1)
         else bindR (parseCommands line) (\<lambda>(cs, request).
           if cs = [] then Inr (True, sv1) else commands cs request sv1)))" for sv
    unfolding executeLine_def line_def [symmetric] Let_def commands_def pipes_def ..
  have parsed: "bindR p (\<lambda>(cs, request). if cs = [] then Inr (True, with_buffer i b sv1) else commands cs request (with_buffer i b sv1)) =
      ?over (bindR p (\<lambda>(cs, request). if cs = [] then Inr (True, sv1) else commands cs request sv1))"
    if "i \<in> users sv1" for p sv1
    by (cases p) (simp_all add: commands [OF that] case_prod_beta)
  show ?thesis
  proof (cases "handleRwgBuiltin i line sv")
    case (Inl e)
    then show ?thesis unfolding step handleRwgBuiltin_with_buffer [OF assms] by simp
  next
    case (Inr x)
    obtain handled sv1 where x: "x = (handled, sv1)" by fastforce
    have "i \<in> users sv1" using handleRwgBuiltin_keeps [OF assms, of line handled sv1] Inr x assms by (simp add: keeps_users)
    note parsed = parsed [OF this]
    show ?thesis
      unfolding step handleRwgBuiltin_with_buffer [OF assms] Inr x by (simp add: parsed)
  qed
qed

section \<open>Input in pieces\<close>

lemma with_buffer_twice [simp]: "with_buffer i b (with_buffer i b' sv) = with_buffer i b sv"
  by (simp add: with_buffer_def new_buffer_def comp_def)

lemma map_insert_present:
  "map_wf m \<Longrightarrow> map_of m i = Some c \<Longrightarrow> map_insert i (c\<lparr>inputBuffer := b\<rparr>) m = map (new_buffer i b) m"
proof (induction i c m rule: map_insert.induct)
  case (2 i c k c' m)
  have above: "k < a" if "a \<in> fst ` set m" for a using "2.prems"(1) that by (auto simp: map_wf_def)
  consider "i = k" | "k < i" | "i < k" by fastforce
  then show ?case
  proof cases
    case 1
    have "map (new_buffer i b) m = m" using above 1 by (intro map_idI) (force simp: new_buffer_def)
    moreover have "new_buffer k b (k, c') = (k, c'\<lparr>inputBuffer := b\<rparr>)" by (simp add: new_buffer_def)
    ultimately show ?thesis using 1 "2.prems"(2) by simp
  next
    case 2
    moreover have "map_wf m" "map_of m i = Some c"
      using "2.prems" \<open>k < i\<close> by (simp_all add: map_wf_def split: if_splits)
    ultimately show ?thesis using "2.IH" by (simp add: new_buffer_def)
  next
    case 3
    then have "i \<in> fst ` set m" using "2.prems"(2) by (force dest: map_of_SomeD split: if_splits)
    with above 3 show ?thesis by (meson less_asym)
  qed
qed simp

lemma set_buffer_eq:
  assumes "map_wf (clients sv)" and "i \<in> users sv"
  shows "set_buffer i b sv = with_buffer i b sv"
  using map_insert_present [OF assms(1) users_lookup [OF assms(2)]]
  by (simp add: set_buffer_def set_client_def with_buffer_def)

lemma erase_with_buffer: "map_erase i (map (new_buffer i b) m) = map_erase i m"
  by (induction m) (auto simp: map_erase_def new_buffer_def)

lemma cleanup_with_buffer:
  assumes "findClientById i sv = Some c"
  shows "cleanupClient i announce (with_buffer i b sv) = cleanupClient i announce sv"
proof -
  have find: "findClientById i (with_buffer i b sv) = Some (c\<lparr>inputBuffer := b\<rparr>)"
    by (simp add: find_with_buffer assms new_buffer_def)
  have pipes: "cleanupClientUserPipes i (with_buffer i b sv) = with_buffer i b (cleanupClientUserPipes i sv)" for sv
    by (simp add: cleanupClientUserPipes_def Let_def)
  have store: "set_client i (c\<lparr>inputBuffer := b, cl_fd := fd, cl_shell := st, online := False\<rparr>) (with_buffer i b sv) =
      with_buffer i b (set_client i (c\<lparr>cl_fd := fd, cl_shell := st, online := False\<rparr>) sv)" for fd st sv
    unfolding set_client_with_buffer [symmetric] by (cases c) simp
  have erase: "(with_buffer i b sv)\<lparr>clients := map_erase i (clients (with_buffer i b sv))\<rparr> =
      sv\<lparr>clients := map_erase i (clients sv)\<rparr>" for sv
    by (simp add: with_buffer_def erase_with_buffer)
  show ?thesis
    unfolding cleanupClient_def Let_def find assms by (simp add: pipes store erase case_prod_beta)
qed

lemma findClient_present: "server_inv sv \<Longrightarrow> i \<in> users sv \<Longrightarrow> findClientById i sv = Some (client_at i sv)"
  using users_lookup [of i sv] lookup_client [of sv i] by (fastforce simp: server_inv_def client_ok_def findClientById_def)

lemma input_loop_append:
  assumes "server_inv sv" and "i \<in> users sv"
  shows "input_loop i (s @ t) (with_buffer i (s @ t) sv) =
    bindR (input_loop i s (with_buffer i s sv)) (server_step (ClientInput i (ReadData t)))"
  using assms
proof (induction "length s" arbitrary: s sv rule: less_induct)
  case less
  have wf: "map_wf (clients sv)" using less.prems(1) by (simp add: server_inv_def)
  have set: "set_buffer i b (with_buffer i b' sv) = with_buffer i b sv" for b b'
    using set_buffer_eq [of "with_buffer i b' sv" i b] set_buffer_eq [OF wf less.prems(2), of b']
      keeps_buffer [OF less.prems(2), of b'] less.prems by (simp add: keeps_def server_inv_def)
  note present = findClient_present [OF less.prems] find_with_buffer [of i i _ sv]
  show ?case
  proof (cases "dropWhile (\<lambda>c. c \<noteq> NL) s")
    case Nil
    then have "input_loop i s (with_buffer i s sv) = Inr (with_buffer i s sv)"
      by (simp only: input_loop.simps [of i s] list.case)
    then show ?thesis
      by (simp add: server_step_def present handleClientInput_def client_with_buffer [OF less.prems(2)] set Let_def)
  next
    case (Cons nl rest)
    then have split: "dropWhile (\<lambda>c. c \<noteq> NL) (s @ t) = nl # rest @ t"
        "takeWhile (\<lambda>c. c \<noteq> NL) (s @ t) = takeWhile (\<lambda>c. c \<noteq> NL) s"
      using dropWhile_append [of "\<lambda>c. c \<noteq> NL" s t] takeWhile_append [of "\<lambda>c. c \<noteq> NL" s t]
      by (auto simp: dropWhile_eq_Nil_conv [symmetric] simp del: dropWhile_eq_Nil_conv)
    have shorter: "length rest < length s"
      using Cons length_dropWhile_le [of "\<lambda>c. c \<noteq> NL" s] by simp
    let ?line = "takeWhile (\<lambda>c. c \<noteq> NL) s"
    show ?thesis
    proof (cases "executeLine i ?line sv")
      case (Inl e)
      then show ?thesis
        by (simp add: input_loop.simps [of i s] input_loop.simps [of i "s @ t"] split Cons set
            executeLine_with_buffer [OF less.prems(2)])
    next
      case (Inr x)
      obtain keep sv1 where x: "x = (keep, sv1)" by fastforce
      have "keeps sv sv1" using executeLine_keeps [OF less.prems(2)] Inr x by simp
      then have sv1: "server_inv sv1" "i \<in> users sv1" using less.prems by (simp_all add: keeps_def)
      note present1 = findClient_present [OF sv1]
      have prompt: "sendPrompt (client_at i (with_buffer i b sv1)) (with_buffer i b sv1) =
          with_buffer i b (sendPrompt (client_at i sv1) sv1)" for b
        by (simp add: sendPrompt_def client_with_buffer [OF sv1(2)])
      have one: "input_loop i s (with_buffer i s sv) =
          (if \<not> keep then Inr (cleanupClient i True sv1)
           else input_loop i rest (with_buffer i rest (sendPrompt (client_at i sv1) sv1)))"
        by (simp add: input_loop.simps [of i s] Cons set executeLine_with_buffer [OF less.prems(2)] Inr x prompt
            cleanup_with_buffer [OF present1])
      have two: "input_loop i (s @ t) (with_buffer i (s @ t) sv) =
          (if \<not> keep then Inr (cleanupClient i True sv1)
           else input_loop i (rest @ t) (with_buffer i (rest @ t) (sendPrompt (client_at i sv1) sv1)))"
        by (simp add: input_loop.simps [of i "s @ t"] split set executeLine_with_buffer [OF less.prems(2)] Inr x prompt
            cleanup_with_buffer [OF present1])
      show ?thesis
      proof (cases keep)
        case True
        have "keeps sv1 (sendPrompt (client_at i sv1) sv1)" by simp
        then have "server_inv (sendPrompt (client_at i sv1) sv1)" "i \<in> users (sendPrompt (client_at i sv1) sv1)"
          using sv1 by (simp_all add: keeps_def)
        from less.hyps [OF shorter this] True show ?thesis unfolding one two by simp
      next
        case False
        have "i \<notin> users (cleanupClient i True sv1)" using cleanupClient_inv [OF sv1(1)] by simp
        then have "findClientById i (cleanupClient i True sv1) = None"
          using findClient_user by (cases "findClientById i (cleanupClient i True sv1)") auto
        with False show ?thesis unfolding one two by (simp add: server_step_def)
      qed
    qed
  qed
qed

lemma two_pieces:
  assumes "server_inv sv" and "i \<in> users sv"
  shows "server_step (ClientInput i (ReadData (s @ t))) sv =
    bindR (server_step (ClientInput i (ReadData s)) sv) (server_step (ClientInput i (ReadData t)))"
proof -
  have wf: "map_wf (clients sv)" using assms(1) by (simp add: server_inv_def)
  show ?thesis
    using input_loop_append [OF assms, of "inputBuffer (client_at i sv) @ s" t]
    by (simp add: server_step_def findClient_present [OF assms] handleClientInput_def Let_def set_buffer_eq [OF wf assms(2)])
qed

section \<open>Properties\<close>

text \<open>C8. How the input of a client is cut into the pieces that \<open>read\<close> returns makes no difference: to handle the pieces
  one after the other gives the state, the replies included, that handling them as one piece gives, wherever the
  lines are cut, and also when a line makes the client leave or an exception ends the server.\<close>

theorem input_in_pieces:
  assumes "server_inv sv" and "i \<in> users sv"
  shows "run_events (map (\<lambda>t. ClientInput i (ReadData t)) (s # pieces)) sv =
    server_step (ClientInput i (ReadData (concat (s # pieces)))) sv"
proof (induction pieces arbitrary: s)
  case Nil
  show ?case by (cases "server_step (ClientInput i (ReadData s)) sv") simp_all
next
  case (Cons t pieces)
  have "run_events (map (\<lambda>t. ClientInput i (ReadData t)) (s # t # pieces)) sv =
      run_events (map (\<lambda>t. ClientInput i (ReadData t)) ((s @ t) # pieces)) sv"
    using two_pieces [OF assms, of s t] by (cases "server_step (ClientInput i (ReadData s)) sv") simp_all
  also have "\<dots> = server_step (ClientInput i (ReadData (concat ((s @ t) # pieces)))) sv" by (rule Cons.IH)
  finally show ?case by simp
qed

lemma input_in_pieces_instance:
  "run_events [ClientInput 1 (ReadData ''wh''), ClientInput 1 (ReadData ''o''), ClientInput 1 (ReadData [NL])] chat_server =
    server_step (ClientInput 1 (ReadData (''who'' @ [NL]))) chat_server"
  using input_in_pieces [OF chat_inv, of 1 "''wh''" "[''o'', [NL]]"] chat_users by simp

end
