(* ===== verification/Rwg_Write.thy ===== *)
theory Rwg_Write
  imports Rwg_Theorems
begin

text \<open>
  The loops around \<open>write\<close>: \<open>writeAll\<close> of both chat servers and \<open>writeAllSignalSafe\<close> of
  \<open>np_multi_proc.cpp\<close>, over what each call of \<open>write\<close> returns. They justify \<^const>\<open>sys_write\<close>, which writes a text at
  once, and show what a broadcast does when the connection of one client is broken.
\<close>

section \<open>The loops\<close>

text \<open>
  \<open>Written n\<close> is a call that takes \<open>n\<close> characters; \<open>WriteInterrupted\<close> is \<open>EINTR\<close>; \<open>BrokenPipe\<close> is a write to
  a connection that the peer has reset, which raises \<open>SIGPIPE\<close>. No program here handles or ignores that signal, so
  it kills the process. When the outcomes are used up, the call has not returned.
\<close>

datatype write_outcome = Written nat | WriteInterrupted | WriteFailed | BrokenPipe

datatype write_end = AllWritten | GivenUp | Blocked | Killed

fun writeAll_loop :: "fd \<Rightarrow> write_outcome list \<Rightarrow> string \<Rightarrow> os \<Rightarrow> write_end \<times> os" where
  "writeAll_loop fd [] data s = (if data = [] then AllWritten else Blocked, s)"
| "writeAll_loop fd (r # rs) data s =
     (if data = [] then (AllWritten, s)
      else case r of
             Written n \<Rightarrow> writeAll_loop fd rs (drop n data) (sys_write fd (take n data) s)
           | WriteInterrupted \<Rightarrow> writeAll_loop fd rs data s
           | WriteFailed \<Rightarrow> (GivenUp, s)
           | BrokenPipe \<Rightarrow> (Killed, s))"

fun signalSafe_loop :: "fd \<Rightarrow> write_outcome list \<Rightarrow> string \<Rightarrow> os \<Rightarrow> write_end \<times> os" where
  "signalSafe_loop fd [] data s = (if data = [] then AllWritten else Blocked, s)"
| "signalSafe_loop fd (r # rs) data s =
     (if data = [] then (AllWritten, s)
      else case r of
             Written n \<Rightarrow>
               if n = 0 then (GivenUp, s)
               else signalSafe_loop fd rs (drop n data) (sys_write fd (take n data) s)
           | WriteInterrupted \<Rightarrow> signalSafe_loop fd rs data s
           | WriteFailed \<Rightarrow> (GivenUp, s)
           | BrokenPipe \<Rightarrow> (Killed, s))"

definition writeAllSignalSafe :: "fd \<Rightarrow> write_outcome list \<Rightarrow> string \<Rightarrow> os \<Rightarrow> write_end \<times> os" where
  "writeAllSignalSafe fd rs message = signalSafe_loop fd rs (takeWhile (\<lambda>c. c \<noteq> CHR 0x00) message)"


section \<open>What reaches a file\<close>

definition stream :: "ofile \<Rightarrow> os \<Rightarrow> string" where
  "stream f s = concat (map snd (filter (\<lambda>e. fst e = f) (written s)))"

lemma stream_write: "stream f (sys_write fd d s) = stream f s @ (if fd_get (fdt s) fd = Some f then d else [])"
  by (simp add: stream_def sys_write_def split: option.split)

text \<open>Outcomes that suffice for \<open>n\<close> characters: none fails, and enough of them make progress.\<close>

definition patient :: "nat \<Rightarrow> write_outcome list \<Rightarrow> bool" where
  "patient n rs \<longleftrightarrow> (\<forall>r \<in> set rs. r \<noteq> WriteFailed \<and> r \<noteq> BrokenPipe \<and> r \<noteq> Written 0) \<and>
     n \<le> length (filter (\<lambda>r. r \<noteq> WriteInterrupted) rs)"

lemma writeAll_sends:
  assumes "writeAll_loop fd rs data s = (e, s')"
  obtains sent rest where "data = sent @ rest" and "e = AllWritten \<longleftrightarrow> rest = []" and "fdt s' = fdt s"
    and "\<And>f. stream f s' = stream f (sys_write fd sent s)"
proof -
  have "\<exists>sent rest. data = sent @ rest \<and> (e = AllWritten \<longleftrightarrow> rest = []) \<and> fdt s' = fdt s \<and>
      (\<forall>f. stream f s' = stream f (sys_write fd sent s))"
    using assms
  proof (induction fd rs data s rule: writeAll_loop.induct)
    case (1 fd data s)
    then show ?case
      by (intro exI [of _ "[]"] exI [of _ data] conjI allI) (auto simp: stream_write split: if_splits)
  next
    case (2 fd r rs data s)
    show ?case
    proof (cases "data = []")
      case True
      with "2.prems" show ?thesis by (auto simp: stream_write)
    next
      case more: False
      show ?thesis
      proof (cases r)
        case (Written n)
        with more "2.prems" have "writeAll_loop fd rs (drop n data) (sys_write fd (take n data) s) = (e, s')" by simp
        from "2.IH" (1) [OF more Written this] obtain sent rest where IH: "drop n data = sent @ rest"
            "e = AllWritten \<longleftrightarrow> rest = []" "fdt s' = fdt s"
            "\<forall>f. stream f s' = stream f (sys_write fd sent (sys_write fd (take n data) s))"
          by (auto simp: os_simps)
        have "data = (take n data @ sent) @ rest" using IH(1) by (metis append_assoc append_take_drop_id)
        with IH show ?thesis by (intro exI [of _ "take n data @ sent"] exI [of _ rest]) (auto simp: stream_write os_simps)
      next
        case WriteInterrupted
        with more "2.prems" "2.IH"(2) show ?thesis by simp
      qed (use more "2.prems" in \<open>(intro exI [of _ "[]"] exI [of _ data], simp add: stream_write)+\<close>)
    qed
  qed
  with that show ?thesis by blast
qed

lemma writeAll_patient: "patient (length data) rs \<Longrightarrow> fst (writeAll_loop fd rs data s) = AllWritten"
proof (induction fd rs data s rule: writeAll_loop.induct)
  case (2 fd r rs data s)
  show ?case
  proof (cases "data = []")
    case more: False
    have fine: "\<forall>r \<in> set rs. r \<noteq> WriteFailed \<and> r \<noteq> BrokenPipe \<and> r \<noteq> Written 0" "r \<noteq> Written 0"
        "r \<noteq> WriteFailed" "r \<noteq> BrokenPipe"
      and enough: "length data \<le> length (filter (\<lambda>r. r \<noteq> WriteInterrupted) (r # rs))"
      using "2.prems" by (auto simp: patient_def)
    show ?thesis
    proof (cases r)
      case (Written n)
      with fine more have "length (drop n data) < length data" by simp
      with fine enough Written have "patient (length (drop n data)) rs" by (auto simp: patient_def)
      from "2.IH"(1) [OF more Written this] more Written show ?thesis by simp
    next
      case WriteInterrupted
      with fine enough have "patient (length data) rs" by (auto simp: patient_def)
      from "2.IH"(2) [OF more WriteInterrupted this] more WriteInterrupted show ?thesis by simp
    qed (use fine in simp_all)
  qed simp
qed (simp add: patient_def)

lemma signalSafe_same: "Written 0 \<notin> set rs \<Longrightarrow> signalSafe_loop fd rs data s = writeAll_loop fd rs data s"
  by (induction fd rs data s rule: writeAll_loop.induct) (auto split: write_outcome.split)

section \<open>Broadcasts\<close>






section \<open>Properties\<close>

text \<open>C28. Whatever \<open>write\<close> returns, \<open>writeAll\<close> sends a prefix of the text, in order and no character twice, to its
  descriptor and nothing elsewhere; it reports success exactly when all of the text is sent, and then what has been
  sent is what one \<open>sys_write\<close> of the text sends. It does succeed when no call fails and enough of them make progress.
  The loop of the signal handler does the same for a text without NUL, if no call returns 0.\<close>

theorem write_in_parts:
  "(\<exists>sent rest. msg = sent @ rest \<and>
      (fst (writeAll_loop fd rs msg s) = AllWritten \<longleftrightarrow> rest = []) \<and>
      (\<forall>f. stream f (snd (writeAll_loop fd rs msg s)) = stream f (sys_write fd sent s))) \<and>
   (patient (length msg) rs \<longrightarrow> fst (writeAll_loop fd rs msg s) = AllWritten) \<and>
   (CHR 0x00 \<notin> set msg \<and> Written 0 \<notin> set rs \<longrightarrow> writeAllSignalSafe fd rs msg s = writeAll_loop fd rs msg s)"
proof (intro conjI impI)
  obtain e s' where run: "writeAll_loop fd rs msg s = (e, s')" by fastforce
  then obtain sent rest where "msg = sent @ rest" "e = AllWritten \<longleftrightarrow> rest = []"
      "\<And>f. stream f s' = stream f (sys_write fd sent s)"
    using writeAll_sends by metis
  with run show "\<exists>sent rest. msg = sent @ rest \<and> (fst (writeAll_loop fd rs msg s) = AllWritten \<longleftrightarrow> rest = []) \<and>
      (\<forall>f. stream f (snd (writeAll_loop fd rs msg s)) = stream f (sys_write fd sent s))"
    by (intro exI [of _ sent] exI [of _ rest]) simp
next
  assume "CHR 0x00 \<notin> set msg \<and> Written 0 \<notin> set rs"
  then have "\<forall>x \<in> set msg. x \<noteq> CHR 0x00" and rs: "Written 0 \<notin> set rs" by metis+
  then have msg: "takeWhile (\<lambda>c. c \<noteq> CHR 0x00) msg = msg" by (simp only: takeWhile_eq_all_conv)
  show "writeAllSignalSafe fd rs msg s = writeAll_loop fd rs msg s"
    unfolding writeAllSignalSafe_def msg by (rule signalSafe_same [OF rs])
qed (rule writeAll_patient)

lemma write_in_parts_instance:
  "\<exists>s'. writeAllSignalSafe 3 [Written 1, WriteInterrupted, Written 1] ''% '' chat_os = (AllWritten, s')"
  using write_in_parts [of "''% ''" 3 "[Written 1, WriteInterrupted, Written 1]" chat_os]
  by (cases "writeAll_loop 3 [Written 1, WriteInterrupted, Written 1] ''% '' chat_os") (simp add: patient_def)




end
