(* ===== verification/Rwg_Shared.thy ===== *)
theory Rwg_Shared
  imports Rwg_Single
begin

text \<open>
  The remote working ground with one process per client, \<open>projects/02-rwg-server/np_multi_proc.cpp\<close>.
  The clients' data is in shared memory behind a spin lock, messages for another client are put into
  its entry and announced with \<open>SIGUSR1\<close>, and pipes between users are FIFOs in a directory.

  What a process does is a value of the type \<open>prog\<close>: a tree of steps that can be run at once (\<open>run\<close>)
  or interleaved with the steps of other processes (theory \<open>Rwg_Processes\<close>). A step is one access to
  the shared memory inside the lock, or one system call (or run of calls) of the process. The shared
  memory and the kernel's view of signals and FIFOs are the record \<open>hub\<close>, the memory and the
  descriptors of one process are the record \<open>worker\<close>.

  Functions that have the same text in \<open>np_single_proc.cpp\<close> (\<open>parseCommands\<close>, \<open>joinMessage\<close> and what
  they call) use its definitions.
\<close>

section \<open>State\<close>

abbreviation (input) kMaxMessages :: nat where "kMaxMessages \<equiv> 64"
abbreviation (input) kMessageSize :: nat where "kMessageSize \<equiv> 2048"
abbreviation (input) kNameSize :: nat where "kNameSize \<equiv> 64"
abbreviation (input) kIpSize :: nat where "kIpSize \<equiv> 64"

text \<open>
  \<open>messages\<close> are the first \<open>messageCount\<close> entries of the array. The character arrays hold the text up
  to the terminating NUL.
\<close>

record SharedUser =
  m_online :: bool
  m_id :: int
  m_fd :: fd
  m_pid :: nat
  m_port :: nat
  m_name :: string
  m_ip :: string
  messages :: "string list"

text \<open>
  The shared memory, and what the kernel keeps for all processes: the FIFOs in the file system (a path
  and the FIFO it names), which paths \<open>mkfifo\<close> can create, and the processes for which a \<open>SIGUSR1\<close> is
  pending.
\<close>

record hub =
  locked :: bool
  users :: "int \<Rightarrow> SharedUser"
  userPipeExists :: "int \<Rightarrow> int \<Rightarrow> bool"
  fifos :: "string \<Rightarrow> nat option"
  nextFifo :: nat
  can_mkfifo :: "string \<Rightarrow> bool"
  pendingSignals :: "nat list"

text \<open>\<open>handlerSet\<close>: the process has installed its handler of \<open>SIGUSR1\<close>.\<close>

record worker =
  w_pid :: nat
  currentUserId :: int
  currentClientFd :: fd
  handlerSet :: bool
  w_shell :: ShellState
  w_os :: os

record SharedResolution = UserPipeResolution +
  holdFd :: fd

definition noSharedResolution :: SharedResolution where
  "noSharedResolution =
     \<lparr>r_inputFd = -1, r_outputFd = -1, devNullInFd = -1, devNullOutFd = -1, holdFd = -1\<rparr>"

section \<open>Programs\<close>

text \<open>
  \<open>Lock\<close> goes on once the lock is free, and takes it. \<open>Step u k\<close> changes the state by \<open>u\<close> and goes on
  with what \<open>k\<close> makes of the state before.
\<close>

datatype 'a prog =
    Return 'a
  | Fail failure
  | Lock "'a prog"
  | Unlock "'a prog"
  | Step "hub \<times> worker \<Rightarrow> hub \<times> worker" "hub \<times> worker \<Rightarrow> 'a prog"

primrec bindP :: "'a prog \<Rightarrow> ('a \<Rightarrow> 'b prog) \<Rightarrow> 'b prog" where
  "bindP (Return x) f = f x"
| "bindP (Fail e) f = Fail e"
| "bindP (Lock p) f = Lock (bindP p f)"
| "bindP (Unlock p) f = Unlock (bindP p f)"
| "bindP (Step u k) f = Step u (\<lambda>s. bindP (k s) f)"

abbreviation thenP :: "'a prog \<Rightarrow> 'b prog \<Rightarrow> 'b prog" where
  "thenP p q \<equiv> bindP p (\<lambda>_. q)"

text \<open>The program alone, nobody interfering: no result when it waits for a lock that is taken.\<close>

primrec run :: "'a prog \<Rightarrow> hub \<times> worker \<Rightarrow> ('a result \<times> hub \<times> worker) option" where
  "run (Return x) s = Some (Inr x, s)"
| "run (Fail e) s = Some (Inl e, s)"
| "run (Lock p) s = (if locked (fst s) then None else run p (apfst (locked_update (\<lambda>_. True)) s))"
| "run (Unlock p) s = run p (apfst (locked_update (\<lambda>_. False)) s)"
| "run (Step u k) s = run (k s) (u s)"

definition action :: "(hub \<times> worker \<Rightarrow> 'a \<times> hub \<times> worker) \<Rightarrow> 'a prog" where
  "action f = Step (\<lambda>s. snd (f s)) (\<lambda>s. Return (fst (f s)))"

text \<open>A function of the process that touches only its own memory and descriptors.\<close>

definition local :: "(worker \<Rightarrow> 'a \<times> worker) \<Rightarrow> 'a prog" where
  "local f = action (\<lambda>(h, w). let (x, w') = f w in (x, h, w'))"

definition asks :: "(worker \<Rightarrow> 'a) \<Rightarrow> 'a prog" where
  "asks f = local (\<lambda>w. (f w, w))"

text \<open>The text between \<open>lockShared\<close> and \<open>unlockShared\<close>.\<close>

definition lockShared :: "unit prog" where
  "lockShared = Lock (Return ())"

definition unlockShared :: "unit prog" where
  "unlockShared = Unlock (Return ())"

definition critical :: "(hub \<times> worker \<Rightarrow> 'a \<times> hub) \<Rightarrow> 'a prog" where
  "critical f =
     thenP lockShared
       (bindP (action (\<lambda>(h, w). let (x, h') = f (h, w) in (x, h', w))) (\<lambda>x.
          thenP unlockShared (Return x)))"

lemma bindP_assoc: "bindP (bindP p f) g = bindP p (\<lambda>x. bindP (f x) g)"
  by (induction p) simp_all

lemma bindP_Return [simp]: "bindP p Return = p"
  by (induction p) simp_all

lemma run_bindP:
  "run (bindP p f) s =
     (case run p s of
        None \<Rightarrow> None
      | Some (r, s') \<Rightarrow> (case r of Inl e \<Rightarrow> Some (Inl e, s') | Inr x \<Rightarrow> run (f x) s'))"
  by (induction p arbitrary: s) simp_all

lemma run_action [simp]: "run (action f) s = Some (Inr (fst (f s)), snd (f s))"
  by (simp add: action_def)

lemma run_local [simp]: "run (local f) (h, w) = Some (Inr (fst (f w)), h, snd (f w))"
  by (simp add: local_def case_prod_beta)

lemma run_asks [simp]: "run (asks f) (h, w) = Some (Inr (f w), h, w)"
  by (simp add: asks_def)

lemma run_critical:
  "run (critical f) (h, w) =
     (if locked h then None
      else (case f (h\<lparr>locked := True\<rparr>, w) of (x, h') \<Rightarrow> Some (Inr x, h'\<lparr>locked := False\<rparr>, w)))"
  by (simp add: critical_def lockShared_def unlockShared_def run_bindP case_prod_beta)

section \<open>Texts, descriptors and FIFOs\<close>

text \<open>\<open>snprintf\<close> with the format of a string: up to the first NUL, and no longer than the array.\<close>

definition copyString :: "nat \<Rightarrow> string \<Rightarrow> string" where
  "copyString n src = take (n - 1) (takeWhile (\<lambda>c. c \<noteq> CHR 0x00) src)"

definition writeAll :: "fd \<Rightarrow> string \<Rightarrow> worker \<Rightarrow> worker" where
  "writeAll fd message w = w\<lparr>w_os := sys_write fd message (w_os w)\<rparr>"

definition fifoPath :: "int \<Rightarrow> int \<Rightarrow> string" where
  "fifoPath senderId receiverId = ''user_pipe/'' @ to_string senderId @ ''_'' @ to_string receiverId"

definition endpoint_m :: "SharedUser \<Rightarrow> string" where
  "endpoint_m user = m_ip user @ '':'' @ nat_to_string (m_port user)"

definition sys_unlink :: "string \<Rightarrow> hub \<Rightarrow> hub" where
  "sys_unlink path h = h\<lparr>fifos := (fifos h)(path := None)\<rparr>"

datatype mkfifo_outcome = Created | Exists | NotCreated

definition sys_mkfifo :: "string \<Rightarrow> hub \<Rightarrow> mkfifo_outcome \<times> hub" where
  "sys_mkfifo path h =
     (if fifos h path \<noteq> None then (Exists, h)
      else if can_mkfifo h path
      then (Created, h\<lparr>fifos := (fifos h)(path := Some (nextFifo h)), nextFifo := Suc (nextFifo h)\<rparr>)
      else (NotCreated, h))"

text \<open>
  \<open>open\<close> of a FIFO for reading with \<open>O_NONBLOCK\<close>, and for writing. A writer waits until there is a
  reader; the program opens a reader of its own before, so it never waits.
\<close>

definition open_fifo :: "string \<Rightarrow> (nat \<Rightarrow> ofile) \<Rightarrow> hub \<times> worker \<Rightarrow> fd \<times> hub \<times> worker" where
  "open_fifo path kind s =
     (case fifos (fst s) path of
        None \<Rightarrow> (-1, s)
      | Some n \<Rightarrow>
          (let fd = fd_lowest (fdt (w_os (snd s)))
           in if fd < int (nofile (w_os (snd s)))
              then (fd, fst s, (snd s)\<lparr>w_os := (w_os (snd s))\<lparr>fdt := fd_put (fdt (w_os (snd s))) fd (kind n)\<rparr>\<rparr>)
              else (-1, s)))"

definition open_null :: "worker \<Rightarrow> fd \<times> worker" where
  "open_null w = (let (fd, s) = sys_open ''/dev/null'' DevNull (w_os w) in (fd, w\<lparr>w_os := s\<rparr>))"

definition tell_client :: "string \<Rightarrow> unit prog" where
  "tell_client message = local (\<lambda>w. ((), writeAll (currentClientFd w) message w))"

section \<open>Messages\<close>

definition currentName :: "string prog" where
  "currentName = critical (\<lambda>(h, w). (m_name (users h (currentUserId w)), h))"

text \<open>The handler of \<open>SIGUSR1\<close>. It writes while it holds the lock.\<close>

definition flush_write :: "hub \<times> worker \<Rightarrow> unit \<times> hub \<times> worker" where
  "flush_write = (\<lambda>(h, w).
     (let k = currentUserId w; self = users h k
      in ((), h\<lparr>users := (users h)(k := self\<lparr>messages := []\<rparr>)\<rparr>,
          fold (writeAll (currentClientFd w)) (messages self) w)))"

definition flushPendingMessages :: "unit prog" where
  "flushPendingMessages =
     bindP (asks (\<lambda>w. currentUserId w < 1 \<or> currentClientFd w < 0)) (\<lambda>unset.
       if unset then Return ()
       else thenP lockShared (thenP (action flush_write) unlockShared))"

definition post_message :: "int \<Rightarrow> string \<Rightarrow> hub \<Rightarrow> int \<times> hub" where
  "post_message targetId message h =
     (let target = users h targetId
      in if m_online target
         then (int (m_pid target),
               if length (messages target) < kMaxMessages
               then h\<lparr>users := (users h)(targetId :=
                      target\<lparr>messages := messages target @ [copyString kMessageSize message]\<rparr>)\<rparr>
               else h)
         else (-1, h))"

definition sys_kill :: "int \<Rightarrow> hub \<Rightarrow> hub" where
  "sys_kill target h = h\<lparr>pendingSignals := List.insert (nat target) (pendingSignals h)\<rparr>"

definition sendMessageToUser :: "int \<Rightarrow> string \<Rightarrow> unit prog" where
  "sendMessageToUser targetId message =
     bindP (asks currentUserId) (\<lambda>me.
       if targetId = me then tell_client message
       else
         bindP (critical (\<lambda>(h, w). post_message targetId message h)) (\<lambda>targetPid.
           if targetPid > 0 then action (\<lambda>(h, w). ((), sys_kill targetPid h, w))
           else Return ()))"

primrec send_each :: "int list \<Rightarrow> string \<Rightarrow> unit prog" where
  "send_each [] message = Return ()"
| "send_each (k # ks) message = thenP (sendMessageToUser k message) (send_each ks message)"

definition broadcastMessage :: "string \<Rightarrow> unit prog" where
  "broadcastMessage message =
     bindP (critical (\<lambda>(h, w). (filter (\<lambda>k. m_online (users h k)) [1..kMaxUsers], h))) (\<lambda>targetIds.
       send_each targetIds message)"

section \<open>Built-in commands of the server\<close>

definition advanceBuiltinSegment :: "unit prog" where
  "advanceBuiltinSegment =
     local (\<lambda>w. let (st, s) = discardIncomingPipe (w_shell w) (executedSegments (w_shell w) + 1) (w_os w)
                in ((), w\<lparr>w_shell := st\<lparr>executedSegments := executedSegments st + 1\<rparr>, w_os := s\<rparr>))"

definition who_row_m :: "int \<Rightarrow> int \<Rightarrow> SharedUser \<Rightarrow> string" where
  "who_row_m me k user =
     to_string (m_id user) @ tab @ to_string (m_fd user) @ tab @ m_name user @ tab @ endpoint_m user @
     (if k = me then tab @ ''<-me'' else []) @ [NL]"

definition who_m :: "unit prog" where
  "who_m =
     bindP (critical (\<lambda>(h, w).
              (who_header @ concat (map (\<lambda>k. if m_online (users h k)
                                             then who_row_m (currentUserId w) k (users h k) else [])
                                        [1..kMaxUsers]), h)))
       tell_client"

definition rename :: "string \<Rightarrow> hub \<times> worker \<Rightarrow> (bool \<times> string) \<times> hub" where
  "rename newName = (\<lambda>(h, w).
     (let me = currentUserId w
      in if list_ex (\<lambda>k. m_online (users h k) \<and> m_name (users h k) = newName) [1..kMaxUsers]
         then ((True, []), h)
         else
           (let self = (users h me)\<lparr>m_name := copyString kNameSize newName\<rparr>
            in ((False, endpoint_m self), h\<lparr>users := (users h)(me := self)\<rparr>))))"

definition name_m :: "string \<Rightarrow> unit prog" where
  "name_m newName =
     bindP (critical (rename newName)) (\<lambda>(duplicate, ipPort).
       if duplicate
       then tell_client (''*** User '' @ [CHR 0x27] @ newName @ [CHR 0x27] @ '' already exists. ***'' @ [NL])
       else broadcastMessage (''*** User from '' @ ipPort @ '' is named '' @ [CHR 0x27] @ newName @ [CHR 0x27] @
                              ''. ***'' @ [NL]))"

definition tell_m :: "int \<Rightarrow> string \<Rightarrow> unit prog" where
  "tell_m targetId message =
     bindP (critical (\<lambda>(h, w).
              ((targetId \<ge> 1 \<and> targetId \<le> kMaxUsers \<and> m_online (users h targetId),
                m_name (users h (currentUserId w))), h)))
       (\<lambda>(targetExists, senderName).
          if \<not> targetExists
          then tell_client (''*** Error: user #'' @ to_string targetId @ '' does not exist yet. ***'' @ [NL])
          else sendMessageToUser targetId (''*** '' @ senderName @ '' told you ***: '' @ message @ [NL]))"

text \<open>The result tells whether the line was one of these commands.\<close>

definition handleRwgBuiltin_m :: "string \<Rightarrow> bool prog" where
  "handleRwgBuiltin_m line =
     (let tokens = splitBySpace line
      in case tokens of
           [] \<Rightarrow> Return True
         | name # _ \<Rightarrow>
             if name = ''who'' then thenP who_m (thenP advanceBuiltinSegment (Return True))
             else if name = ''name'' then
               thenP (if length tokens \<ge> 2 then name_m (tokens ! 1) else Return ())
                 (thenP advanceBuiltinSegment (Return True))
             else if name = ''tell'' then
               thenP (if length tokens \<ge> 3
                      then (case stoi (tokens ! 1) of
                              Inl e \<Rightarrow> Fail e
                            | Inr targetId \<Rightarrow> tell_m targetId (joinMessage tokens 2))
                      else Return ())
                 (thenP advanceBuiltinSegment (Return True))
             else if name = ''yell'' then
               thenP (bindP currentName (\<lambda>me.
                        broadcastMessage (''*** '' @ me @ '' yelled ***: '' @ joinMessage tokens 1 @ [NL])))
                 (thenP advanceBuiltinSegment (Return True))
             else Return False)"

end
