(* ===== verification/Rwg_Worker.thy ===== *)
theory Rwg_Worker
  imports Rwg_Shared
begin

text \<open>
  The process that serves one client of \<open>np_multi_proc.cpp\<close>: the FIFOs of its user pipes, a line of its
  client, entering and leaving, and the loop that reads. The functions are programs of theory
  \<open>Rwg_Shared\<close>, in the order of the source.
\<close>

section \<open>User pipes\<close>

definition refuse_input :: "string \<Rightarrow> SharedResolution \<Rightarrow> SharedResolution prog" where
  "refuse_input message r =
     thenP (tell_client message)
       (bindP (local open_null) (\<lambda>fd. Return (r\<lparr>devNullInFd := fd, r_inputFd := fd\<rparr>)))"

definition refuse_output :: "string \<Rightarrow> SharedResolution \<Rightarrow> SharedResolution prog" where
  "refuse_output message r =
     thenP (tell_client message)
       (bindP (local open_null) (\<lambda>fd. Return (r\<lparr>devNullOutFd := fd, r_outputFd := fd\<rparr>)))"

definition no_pipe_message :: "int \<Rightarrow> int \<Rightarrow> string \<Rightarrow> string" where
  "no_pipe_message source dest reason =
     ''*** Error: the pipe '' @ user_number source @ ''->'' @ user_number dest @ reason @ '' ***'' @ [NL]"

text \<open>
  The access of a receiver, in the lock: does the sender exist, does the pipe, and the names of both.
  An existing pipe is taken.
\<close>

definition take_pipe :: "int \<Rightarrow> hub \<times> worker \<Rightarrow> (bool \<times> bool \<times> string \<times> string) \<times> hub" where
  "take_pipe source = (\<lambda>(h, w).
     (let me = currentUserId w
      in if source \<ge> 1 \<and> source \<le> kMaxUsers
         then ((m_online (users h source), userPipeExists h source me, m_name (users h source), m_name (users h me)),
               if m_online (users h source) \<and> userPipeExists h source me
               then h\<lparr>userPipeExists := (userPipeExists h)(source := (userPipeExists h source)(me := False))\<rparr>
               else h)
         else ((False, False, [], []), h)))"

definition resolve_input_m :: "int \<Rightarrow> string \<Rightarrow> SharedResolution \<Rightarrow> SharedResolution prog" where
  "resolve_input_m source line r =
     bindP (asks currentUserId) (\<lambda>me.
     bindP (critical (take_pipe source)) (\<lambda>(senderExists, pipeExists, senderName, receiverName).
       if \<not> senderExists then refuse_input (no_user_message source) r
       else if \<not> pipeExists then refuse_input (no_pipe_message source me '' does not exist yet.'') r
       else
         bindP (action (open_fifo (fifoPath source me) FifoR)) (\<lambda>fd.
         thenP (broadcastMessage (''*** '' @ receiverName @ '' ('' @ user_number me @ '') just received from '' @
                  senderName @ '' ('' @ user_number source @ '') by '' @ [CHR 0x27] @ line @ [CHR 0x27] @
                  '' ***'' @ [NL]))
         (thenP (action (\<lambda>(h, w). ((), sys_unlink (fifoPath source me) h, w)))
            (Return (r\<lparr>r_inputFd := fd\<rparr>))))))"

text \<open>The access of a sender: the pipe is entered when the receiver exists and there is none.\<close>

definition enter_pipe :: "int \<Rightarrow> hub \<times> worker \<Rightarrow> (bool \<times> bool \<times> string \<times> string) \<times> hub" where
  "enter_pipe dest = (\<lambda>(h, w).
     (let me = currentUserId w
      in if dest \<ge> 1 \<and> dest \<le> kMaxUsers
         then ((m_online (users h dest), userPipeExists h me dest, m_name (users h me), m_name (users h dest)),
               if m_online (users h dest) \<and> \<not> userPipeExists h me dest
               then h\<lparr>userPipeExists := (userPipeExists h)(me := (userPipeExists h me)(dest := True))\<rparr>
               else h)
         else ((False, False, [], []), h)))"

text \<open>\<open>shellcore::closeFd\<close> sets the descriptor it is given to -1.\<close>

definition open_null_output :: "SharedResolution \<Rightarrow> SharedResolution prog" where
  "open_null_output r = bindP (local open_null) (\<lambda>fd. Return (r\<lparr>devNullOutFd := fd, r_outputFd := fd\<rparr>))"

definition create_fifo :: "string \<Rightarrow> SharedResolution \<Rightarrow> SharedResolution prog" where
  "create_fifo path r =
     thenP (action (\<lambda>(h, w). ((), sys_unlink path h, w)))
       (bindP (action (\<lambda>(h, w). let (created, h') = sys_mkfifo path h in (created, h', w))) (\<lambda>created.
          if created = NotCreated then open_null_output r
          else
            bindP (action (open_fifo path FifoR)) (\<lambda>hold.
            bindP (action (open_fifo path FifoW)) (\<lambda>out.
              if out < 0
              then bindP (local (\<lambda>w. let (fd, s) = closeFd hold (w_os w) in (fd, w\<lparr>w_os := s\<rparr>))) (\<lambda>hold'.
                     open_null_output (r\<lparr>holdFd := hold'\<rparr>))
              else Return (r\<lparr>r_outputFd := out, holdFd := hold\<rparr>)))))"

definition resolve_output_m :: "int \<Rightarrow> string \<Rightarrow> SharedResolution \<Rightarrow> SharedResolution prog" where
  "resolve_output_m dest line r =
     bindP (asks currentUserId) (\<lambda>me.
     bindP (critical (enter_pipe dest)) (\<lambda>(receiverExists, pipeExists, senderName, receiverName).
       if \<not> receiverExists then refuse_output (no_user_message dest) r
       else if pipeExists then refuse_output (no_pipe_message me dest '' already exists.'') r
       else
         bindP (create_fifo (fifoPath me dest) r) (\<lambda>r1.
         thenP (broadcastMessage (''*** '' @ senderName @ '' ('' @ user_number me @ '') just piped '' @
                  [CHR 0x27] @ line @ [CHR 0x27] @ '' to '' @ receiverName @ '' ('' @ user_number dest @
                  '') ***'' @ [NL]))
           (Return r1))))"

definition resolveUserPipes_m :: "UserPipeRequest \<Rightarrow> string \<Rightarrow> SharedResolution prog" where
  "resolveUserPipes_m request line =
     bindP (if inputFrom request \<ge> 0 then resolve_input_m (inputFrom request) line noSharedResolution
            else Return noSharedResolution) (\<lambda>r.
       if outputTo request \<ge> 0 then resolve_output_m (outputTo request) line r else Return r)"

definition closeUserPipeResolution_m :: "SharedResolution \<Rightarrow> os \<Rightarrow> os" where
  "closeUserPipeResolution_m r s = snd (closeFd (r_outputFd r) s)"

section \<open>A line of the client\<close>

definition line_config_m :: "SharedResolution \<Rightarrow> worker \<Rightarrow> ExecutionConfig" where
  "line_config_m r w =
     \<lparr>inputFd = r_inputFd r,
      outputFd = (if r_outputFd r \<ge> 0 then r_outputFd r else currentClientFd w),
      errorFd = currentClientFd w,
      forceLastOutput = (r_outputFd r \<ge> 0),
      closeInChild = []\<rparr>"

definition execute_commands_m :: "Command list \<Rightarrow> SharedResolution \<Rightarrow> unit prog" where
  "execute_commands_m cs r =
     bindP (local (\<lambda>w. case executeExternalCommands cs (w_shell w) (line_config_m r w) (w_os w) of
                         Inl e \<Rightarrow> (Inl e, w)
                       | Inr (st, s) \<Rightarrow> (Inr (), w\<lparr>w_shell := st, w_os := closeUserPipeResolution_m r s\<rparr>)))
       (\<lambda>outcome. case outcome of Inl e \<Rightarrow> Fail e | Inr _ \<Rightarrow> Return ())"

definition shell_builtin :: "Command list \<Rightarrow> worker \<Rightarrow> bool \<times> worker" where
  "shell_builtin cs w =
     (if length cs = 1
      then (let (builtin, st, s) = executeShellBuiltin (cs ! 0) (w_shell w) (currentClientFd w) (w_os w)
            in (builtin, w\<lparr>w_shell := st, w_os := s\<rparr>))
      else (False, w))"

text \<open>The result tells whether the client stays.\<close>

definition executeLine_m :: "string \<Rightarrow> bool prog" where
  "executeLine_m input =
     (let line = (if input \<noteq> [] \<and> last input = CR then butlast input else input);
          tokens = splitBySpace line
      in if line = [] then Return True
         else if tokens \<noteq> [] \<and> hd tokens = ''exit'' then Return False
         else
           bindP (handleRwgBuiltin_m line) (\<lambda>handled.
             if handled then Return True
             else
               (case parseCommands line of
                  Inl e \<Rightarrow> Fail e
                | Inr (cs, request) \<Rightarrow>
                    if cs = [] then Return True
                    else
                      bindP (local (shell_builtin cs)) (\<lambda>builtin.
                        if builtin then Return True
                        else
                          bindP (resolveUserPipes_m request line) (\<lambda>r.
                            thenP (execute_commands_m cs r) (Return True))))))"

section \<open>Entering and leaving\<close>

definition new_user :: "int \<Rightarrow> fd \<Rightarrow> nat \<Rightarrow> string \<Rightarrow> nat \<Rightarrow> SharedUser" where
  "new_user k fd p ip port =
     \<lparr>m_online = True, m_id = k, m_fd = fd, m_pid = p, m_port = port,
      m_name = copyString kNameSize kDefaultName, m_ip = copyString kIpSize ip, messages = []\<rparr>"

definition assign_slot :: "fd \<Rightarrow> string \<Rightarrow> nat \<Rightarrow> hub \<times> worker \<Rightarrow> int \<times> hub" where
  "assign_slot fd ip port = (\<lambda>(h, w).
     (case find (\<lambda>k. \<not> m_online (users h k)) [1..kMaxUsers] of
        None \<Rightarrow> (-1, h)
      | Some k \<Rightarrow> (k, h\<lparr>users := (users h)(k := new_user k fd (w_pid w) ip port)\<rparr>)))"

definition assignUser :: "fd \<Rightarrow> string \<Rightarrow> nat \<Rightarrow> int prog" where
  "assignUser fd ip port = critical (assign_slot fd ip port)"

text \<open>Inside the lock: the name of the user that leaves, and the paths of its FIFOs.\<close>

definition vacate :: "int \<Rightarrow> hub \<times> worker \<Rightarrow> (string \<times> string list) \<times> hub" where
  "vacate k = (\<lambda>(h, w).
     (if k \<ge> 1 \<and> k \<le> kMaxUsers \<and> m_online (users h k)
      then
        ((m_name (users h k),
          concat (map (\<lambda>peer. (if userPipeExists h k peer then [fifoPath k peer] else []) @
                              (if userPipeExists h peer k \<and> peer \<noteq> k then [fifoPath peer k] else []))
                      [1..kMaxUsers])),
         h\<lparr>users := (users h)(k := (users h k)\<lparr>m_online := False, messages := []\<rparr>),
           userPipeExists := (\<lambda>a b. userPipeExists h a b \<and>
              \<not> (a = k \<and> 1 \<le> b \<and> b \<le> kMaxUsers \<or> b = k \<and> 1 \<le> a \<and> a \<le> kMaxUsers))\<rparr>)
      else (([], []), h)))"

definition cleanupUser :: "int \<Rightarrow> bool \<Rightarrow> unit prog" where
  "cleanupUser k announce =
     bindP (critical (vacate k)) (\<lambda>(name, paths).
     thenP (action (\<lambda>(h, w). ((), fold sys_unlink paths h, w)))
       (if announce \<and> name \<noteq> []
        then broadcastMessage (''*** User '' @ [CHR 0x27] @ name @ [CHR 0x27] @ '' left. ***'' @ [NL])
        else Return ()))"

definition sendPrompt_m :: "unit prog" where
  "sendPrompt_m = tell_client ''% ''"

section \<open>The loop of a process\<close>

text \<open>
  The lines of a buffer. The result is the rest without a newline, or nothing when the client has left.
\<close>

function serve_lines :: "string \<Rightarrow> string option prog" where
  "serve_lines buffer =
     (case dropWhile (\<lambda>c. c \<noteq> NL) buffer of
        [] \<Rightarrow> Return (Some buffer)
      | _ # rest \<Rightarrow>
          bindP (executeLine_m (takeWhile (\<lambda>c. c \<noteq> NL) buffer)) (\<lambda>keepRunning.
            if \<not> keepRunning then Return None
            else thenP sendPrompt_m (serve_lines rest)))"
  by pat_completeness auto
termination
proof (relation "measure length", goal_cases)
  case (2 buffer x rest keep)
  then show ?case using length_dropWhile_le [of "\<lambda>c. c \<noteq> NL" buffer] by simp
qed simp

declare serve_lines.simps [simp del]

text \<open>
  What \<open>read\<close> returns one call after the other; the client has closed the connection when the list
  is at its end. Both ways out of the loop go on with the same calls.
\<close>

primrec serve_loop :: "read_result list \<Rightarrow> string \<Rightarrow> unit prog" where
  "serve_loop [] buffer = Return ()"
| "serve_loop (r # rs) buffer =
     (case r of
        ReadInterrupted \<Rightarrow> serve_loop rs buffer
      | ReadClosed \<Rightarrow> Return ()
      | ReadData chunk \<Rightarrow>
          bindP (serve_lines (buffer @ chunk)) (\<lambda>rest.
            case rest of None \<Rightarrow> Return () | Some left \<Rightarrow> serve_loop rs left))"

definition leave :: "fd \<Rightarrow> unit prog" where
  "leave connFd =
     thenP (local (\<lambda>w. let (st, s) = closeShellState (w_shell w) (w_os w) in ((), w\<lparr>w_shell := st, w_os := s\<rparr>)))
       (bindP (asks currentUserId) (\<lambda>me.
          thenP (cleanupUser me True)
            (local (\<lambda>w. ((), w\<lparr>w_os := sys_close connFd (w_os w)\<rparr>)))))"

text \<open>\<open>endpoint\<close> of the own entry is read without the lock. \<open>_exit\<close> is the end of the program.\<close>

definition greet :: "unit prog" where
  "greet =
     thenP (local (\<lambda>w. ((), w\<lparr>handlerSet := True\<rparr>)))
       (thenP (tell_client kWelcome)
          (thenP (bindP (action (\<lambda>(h, w). (endpoint_m (users h (currentUserId w)), h, w))) (\<lambda>ipPort.
                    broadcastMessage (''*** User '' @ [CHR 0x27] @ kDefaultName @ [CHR 0x27] @ '' entered from '' @
                                      ipPort @ ''. ***'' @ [NL])))
             sendPrompt_m))"

definition serveClient :: "fd \<Rightarrow> fd \<Rightarrow> string \<Rightarrow> nat \<Rightarrow> read_result list \<Rightarrow> unit prog" where
  "serveClient connFd listenSocket ip port inputs =
     thenP (local (\<lambda>w. ((), w\<lparr>w_os := sys_close listenSocket (w_os w), currentClientFd := connFd\<rparr>)))
       (bindP (assignUser connFd ip port) (\<lambda>k.
          thenP (local (\<lambda>w. ((), w\<lparr>currentUserId := k\<rparr>)))
            (if k < 0 then local (\<lambda>w. ((), w\<lparr>w_os := sys_close connFd (w_os w)\<rparr>))
             else thenP greet (thenP (serve_loop inputs []) (leave connFd)))))"

end
