(* ===== verification/Rwg_Processes.thy ===== *)
theory Rwg_Processes
  imports Rwg_Worker
begin

text \<open>
  The processes of \<open>np_multi_proc.cpp\<close> together: the server that accepts connections and forks, one
  process for each client, and the signal that interrupts a process between any two of its steps. An
  event is a connection, a step of one process or the delivery of a signal; every order of events is a
  behaviour of the server.

  The second half is the proof rule for programs: \<open>safe\<close> says of a program that every step it makes
  keeps the shared tables well formed, leaves the entries of other processes to them and touches the
  tables only inside the lock.
\<close>

section \<open>Processes\<close>

text \<open>\<open>handler\<close> is what is left of the signal handler while it interrupts the process.\<close>

record process =
  memory :: worker
  main :: "unit prog"
  handler :: "unit prog option"

record system =
  shared :: hub
  processes :: "nat \<Rightarrow> process option"
  listenFd :: fd
  server_os :: os

text \<open>The shared memory is filled with zeros; every entry gets its number.\<close>

definition initial_user :: "int \<Rightarrow> SharedUser" where
  "initial_user k =
     \<lparr>m_online = False, m_id = (if 1 \<le> k \<and> k \<le> kMaxUsers then k else 0), m_fd = 0, m_pid = 0, m_port = 0,
      m_name = [], m_ip = [], messages = []\<rparr>"

definition initSharedMemory :: "(string \<Rightarrow> bool) \<Rightarrow> (string \<Rightarrow> nat option) \<Rightarrow> hub" where
  "initSharedMemory creatable existing =
     \<lparr>locked = False, users = initial_user, userPipeExists = (\<lambda>a b. False), fifos = existing,
      nextFifo = 0, can_mkfifo = creatable, pendingSignals = []\<rparr>"

datatype event =
    Accept nat string nat "read_result list"
  | Run nat
  | Deliver nat

definition new_process :: "nat \<Rightarrow> fd \<Rightarrow> fd \<Rightarrow> string \<Rightarrow> nat \<Rightarrow> read_result list \<Rightarrow> os \<Rightarrow> process" where
  "new_process p connFd listenSocket ip port inputs s =
     \<lparr>memory = \<lparr>w_pid = p, currentUserId = -1, currentClientFd = -1, handlerSet = False,
                w_shell = initialShellState, w_os = s\<rparr>,
      main = serveClient connFd listenSocket ip port inputs,
      handler = None\<rparr>"

text \<open>\<open>None\<close>: the server itself has ended.\<close>

definition accept_connection :: "nat \<Rightarrow> string \<Rightarrow> nat \<Rightarrow> read_result list \<Rightarrow> system \<Rightarrow> system option" where
  "accept_connection n ip port inputs c =
     (let (connFd, s) = sys_accept n (server_os c)
      in if connFd < 0 then Some c
         else
           (case forkOrReapUntilSuccess s of
              Inl e \<Rightarrow> None
            | Inr (p, s1) \<Rightarrow>
                Some (c\<lparr>processes := (processes c)(p \<mapsto> new_process p connFd (listenFd c) ip port inputs s1),
                        server_os := sys_close connFd s1\<rparr>)))"

text \<open>\<open>None\<close>: the program is at its end, or waits for the lock.\<close>

fun step_prog :: "unit prog \<Rightarrow> hub \<times> worker \<Rightarrow> (unit prog \<times> hub \<times> worker) option" where
  "step_prog (Return x) s = None"
| "step_prog (Fail e) s = None"
| "step_prog (Lock p) s =
     (if locked (fst s) then None else Some (p, apfst (locked_update (\<lambda>_. True)) s))"
| "step_prog (Unlock p) s = Some (p, apfst (locked_update (\<lambda>_. False)) s)"
| "step_prog (Step u k) s = Some (k s, u s)"

fun finished :: "unit prog \<Rightarrow> bool" where
  "finished (Return x) = True"
| "finished (Fail e) = True"
| "finished _ = False"

fun failed :: "unit prog \<Rightarrow> bool" where
  "failed (Fail e) = True"
| "failed _ = False"

definition put_process :: "nat \<Rightarrow> process option \<Rightarrow> hub \<Rightarrow> system \<Rightarrow> system" where
  "put_process p pr h c = c\<lparr>shared := h, processes := (processes c)(p := pr)\<rparr>"

text \<open>A process that is at its end, or has thrown an exception, is gone after its next step.\<close>

definition run_process :: "nat \<Rightarrow> system \<Rightarrow> system option" where
  "run_process p c =
     (case processes c p of
        None \<Rightarrow> None
      | Some pr \<Rightarrow>
          (case handler pr of
             None \<Rightarrow>
               if finished (main pr) then Some (put_process p None (shared c) c)
               else
                 (case step_prog (main pr) (shared c, memory pr) of
                    None \<Rightarrow> None
                  | Some (m, h, w) \<Rightarrow> Some (put_process p (Some (pr\<lparr>main := m, memory := w\<rparr>)) h c))
           | Some q \<Rightarrow>
               if failed q then Some (put_process p None (shared c) c)
               else if finished q then Some (put_process p (Some (pr\<lparr>handler := None\<rparr>)) (shared c) c)
               else
                 (case step_prog q (shared c, memory pr) of
                    None \<Rightarrow> None
                  | Some (m, h, w) \<Rightarrow> Some (put_process p (Some (pr\<lparr>handler := Some m, memory := w\<rparr>)) h c))))"

text \<open>
  A pending signal is delivered when the handler is not already running. Before the process has
  installed its handler, the signal ends it.
\<close>

definition deliver :: "nat \<Rightarrow> system \<Rightarrow> system option" where
  "deliver p c =
     (case processes c p of
        None \<Rightarrow> None
      | Some pr \<Rightarrow>
          (let h = (shared c)\<lparr>pendingSignals := removeAll p (pendingSignals (shared c))\<rparr>
           in if p \<notin> set (pendingSignals (shared c)) \<or> handler pr \<noteq> None then None
              else if handlerSet (memory pr)
              then Some (put_process p (Some (pr\<lparr>handler := Some flushPendingMessages\<rparr>)) h c)
              else Some (put_process p None h c)))"

definition system_step :: "event \<Rightarrow> system \<Rightarrow> system option" where
  "system_step ev c =
     (case ev of
        Accept n ip port inputs \<Rightarrow> accept_connection n ip port inputs c
      | Run p \<Rightarrow> run_process p c
      | Deliver p \<Rightarrow> deliver p c)"

inductive reachable :: "system \<Rightarrow> system \<Rightarrow> bool" for c0 where
  start: "reachable c0 c0"
| step: "reachable c0 c \<Longrightarrow> system_step ev c = Some c' \<Longrightarrow> reachable c0 c'"

definition started :: "system \<Rightarrow> bool" where
  "started c \<longleftrightarrow>
     (\<exists>creatable existing. shared c = initSharedMemory creatable existing) \<and> processes c = (\<lambda>_. None)"

section \<open>The shared tables\<close>

text \<open>The entry \<open>k\<close> is that of the process \<open>p\<close>.\<close>

definition slot :: "hub \<Rightarrow> int \<Rightarrow> nat \<Rightarrow> bool" where
  "slot h k p \<longleftrightarrow> m_online (users h k) \<and> m_pid (users h k) = p"

definition user_ok :: "int \<Rightarrow> SharedUser \<Rightarrow> bool" where
  "user_ok k u \<longleftrightarrow>
     1 \<le> k \<and> k \<le> kMaxUsers \<and> m_id u = k \<and>
     length (m_name u) < kNameSize \<and> length (m_ip u) < kIpSize \<and>
     length (messages u) \<le> kMaxMessages \<and> (\<forall>m \<in> set (messages u). length m < kMessageSize)"

definition tables_ok :: "hub \<Rightarrow> bool" where
  "tables_ok h \<longleftrightarrow>
     (\<forall>k. m_online (users h k) \<longrightarrow> user_ok k (users h k)) \<and>
     (\<forall>a b. userPipeExists h a b \<longrightarrow> m_online (users h a) \<and> m_online (users h b)) \<and>
     (\<forall>j k p. slot h j p \<longrightarrow> slot h k p \<longrightarrow> j = k)"

text \<open>What a step of process \<open>p\<close> may not change: which entries belong to other processes, and the lock.\<close>

definition leaves_others :: "nat \<Rightarrow> hub \<Rightarrow> hub \<Rightarrow> bool" where
  "leaves_others p h h' \<longleftrightarrow>
     locked h' = locked h \<and> (\<forall>k q. q \<noteq> p \<longrightarrow> slot h' k q = slot h k q)"

definition same_tables :: "hub \<Rightarrow> hub \<Rightarrow> bool" where
  "same_tables h h' \<longleftrightarrow> users h' = users h \<and> userPipeExists h' = userPipeExists h"

text \<open>
  What a process knows between its steps: the entry that it owns (if any), the value of
  \<open>currentUserId\<close>, and that the tables are well formed.
\<close>

type_synonym knowledge = "int option \<times> int"

definition knows :: "nat \<Rightarrow> knowledge \<Rightarrow> hub \<times> worker \<Rightarrow> bool" where
  "knows p g s \<longleftrightarrow>
     tables_ok (fst s) \<and> w_pid (snd s) = p \<and> currentUserId (snd s) = snd g \<and>
     (\<forall>k. slot (fst s) k p \<longleftrightarrow> fst g = Some k)"

definition step_ok :: "nat \<Rightarrow> bool \<Rightarrow> hub \<Rightarrow> hub \<Rightarrow> bool" where
  "step_ok p inside h h' \<longleftrightarrow> leaves_others p h h' \<and> (\<not> inside \<longrightarrow> same_tables h h')"

section \<open>Safe programs\<close>

inductive safe :: "nat \<Rightarrow> ('a \<Rightarrow> knowledge \<Rightarrow> bool \<Rightarrow> bool) \<Rightarrow> knowledge \<Rightarrow> bool \<Rightarrow> 'a prog \<Rightarrow> bool" for p Q where
  safe_Return: "Q x g inside \<Longrightarrow> safe p Q g inside (Return x)"
| safe_Fail: "safe p Q g False (Fail e)"
| safe_Lock: "safe p Q g True m \<Longrightarrow> safe p Q g False (Lock m)"
| safe_Unlock: "safe p Q g False m \<Longrightarrow> safe p Q g True (Unlock m)"
| safe_Step:
    "(\<And>s. knows p g s \<Longrightarrow>
        \<exists>g'. knows p g' (u s) \<and> step_ok p inside (fst s) (fst (u s)) \<and> safe p Q g' inside (k s)) \<Longrightarrow>
     safe p Q g inside (Step u k)"

inductive_cases safe_LockE: "safe p Q g inside (Lock m)"
inductive_cases safe_UnlockE: "safe p Q g inside (Unlock m)"
inductive_cases safe_StepE: "safe p Q g inside (Step u k)"
inductive_cases safe_ReturnE: "safe p Q g inside (Return x)"
inductive_cases safe_FailE: "safe p Q g inside (Fail e)"

lemma safe_bindP:
  assumes "safe p Q g inside m" and "\<And>x g' b. Q x g' b \<Longrightarrow> safe p R g' b (f x)"
  shows "safe p R g inside (bindP m f)"
  using assms(1)
proof (induction rule: safe.induct)
  case (safe_Step g u inside k)
  show ?case
    unfolding bindP.simps
  proof (rule safe.safe_Step)
    fix s
    assume "knows p g s"
    then show "\<exists>g'. knows p g' (u s) \<and> step_ok p inside (fst s) (fst (u s)) \<and> safe p R g' inside (bindP (k s) f)"
      using safe_Step.IH by blast
  qed
qed (auto intro: assms(2) safe.intros)

lemma safe_post:
  assumes "safe p Q g inside m" and "\<And>x g' b. Q x g' b \<Longrightarrow> R x g' b"
  shows "safe p R g inside m"
  using safe_bindP [OF assms(1), of R Return] by (simp add: assms(2) safe_Return)

lemma safe_action:
  assumes "\<And>s. knows p g s \<Longrightarrow>
     \<exists>g'. knows p g' (snd (f s)) \<and> step_ok p inside (fst s) (fst (snd (f s))) \<and> Q (fst (f s)) g' inside"
  shows "safe p Q g inside (action f)"
  unfolding action_def using assms by (intro safe_Step) (blast intro: safe_Return)

lemma knows_locked [simp]: "knows p g (h\<lparr>locked := b\<rparr>, w) = knows p g (h, w)"
  by (simp add: knows_def tables_ok_def slot_def)

text \<open>
  A critical section: what its body does to the tables decides, whatever the program knows afterwards.
\<close>

lemma safe_critical:
  assumes "\<And>h w. knows p g (h, w) \<Longrightarrow>
     \<exists>g'. knows p g' (snd (f (h, w)), w) \<and> leaves_others p h (snd (f (h, w))) \<and> Q (fst (f (h, w))) g' False"
  shows "safe p Q g False (critical f)"
proof -
  have "safe p (\<lambda>x g' b. b \<and> Q x g' False) g True
          (action (\<lambda>(h, w). let (x, h') = f (h, w) in (x, h', w)))"
    using assms by (intro safe_action) (auto simp: step_ok_def case_prod_beta)
  then show ?thesis
    unfolding critical_def lockShared_def unlockShared_def
    by (auto intro!: safe_Lock safe_Unlock safe_Return elim!: safe_bindP)
qed

text \<open>Programs that leave the knowledge of the process as it is.\<close>

abbreviation keeps_knowledge :: "nat \<Rightarrow> knowledge \<Rightarrow> 'a prog \<Rightarrow> bool" where
  "keeps_knowledge p g m \<equiv> safe p (\<lambda>_ g' b. g' = g \<and> \<not> b) g False m"

named_theorems keeping \<open>programs that leave the knowledge of their process as it is\<close>

lemma keeps_Return [keeping]: "keeps_knowledge p g (Return x)"
  by (simp add: safe_Return)

lemma keeps_Fail [keeping]: "keeps_knowledge p g (Fail e)"
  by (rule safe_Fail)

lemma keeps_bindP [keeping]:
  "keeps_knowledge p g m \<Longrightarrow> (\<And>x. keeps_knowledge p g (f x)) \<Longrightarrow> keeps_knowledge p g (bindP m f)"
  by (erule safe_bindP) simp

lemma keeps_local:
  "(\<And>w. w_pid (snd (f w)) = w_pid w \<and> currentUserId (snd (f w)) = currentUserId w) \<Longrightarrow>
   keeps_knowledge p g (local f)"
  unfolding local_def
  by (rule safe_action)
     (auto simp: knows_def step_ok_def leaves_others_def same_tables_def case_prod_beta)

lemma keeps_asks [keeping]: "keeps_knowledge p g (asks f)"
  unfolding asks_def by (rule keeps_local) simp

text \<open>An action of the kernel: pending signals, files, descriptors.\<close>

lemma keeps_action:
  assumes "\<And>h w. same_tables h (fst (snd (f (h, w)))) \<and> locked (fst (snd (f (h, w)))) = locked h \<and>
             w_pid (snd (snd (f (h, w)))) = w_pid w \<and> currentUserId (snd (snd (f (h, w)))) = currentUserId w"
  shows "keeps_knowledge p g (action f)"
proof (rule safe_action, intro exI [of _ g] conjI)
  fix s
  assume g: "knows p g s"
  obtain h w where s: "s = (h, w)" by fastforce
  have same: "users (fst (snd (f s))) = users h" "userPipeExists (fst (snd (f s))) = userPipeExists h"
    "locked (fst (snd (f s))) = locked h"
    "w_pid (snd (snd (f s))) = w_pid w" "currentUserId (snd (snd (f s))) = currentUserId w"
    using assms [of h w] by (simp_all add: s same_tables_def)
  show "knows p g (snd (f s))"
    using g same by (simp add: s knows_def tables_ok_def slot_def)
  show "step_ok p False (fst s) (fst (snd (f s)))"
    using same by (simp add: s step_ok_def leaves_others_def same_tables_def slot_def)
qed simp_all

lemma keeps_critical:
  assumes "\<And>h w. knows p g (h, w) \<Longrightarrow> knows p g (snd (f (h, w)), w) \<and> leaves_others p h (snd (f (h, w)))"
  shows "keeps_knowledge p g (critical f)"
  using assms by (intro safe_critical exI [of _ g]) blast

lemma keeps_reading:
  "(\<And>h w. snd (f (h, w)) = h) \<Longrightarrow> keeps_knowledge p g (critical f)"
  by (rule keeps_critical) (simp add: leaves_others_def)

section \<open>A program alone\<close>

text \<open>
  A safe program that nobody interrupts comes to its end, with the lock as it says, unless an exception
  ends it.
\<close>

lemma safe_runs:
  assumes "safe p Q g inside m" and "knows p g s" and "locked (fst s) = inside"
  shows "\<exists>r s'. run m s = Some (r, s') \<and>
           (\<forall>x. r = Inr x \<longrightarrow> (\<exists>g'. knows p g' s' \<and> Q x g' (locked (fst s')))) \<and>
           (isl r \<longrightarrow> \<not> locked (fst s'))"
  using assms
proof (induction arbitrary: s rule: safe.induct)
  case (safe_Step g u inside k)
  then obtain g' where "knows p g' (u s)" "step_ok p inside (fst s) (fst (u s))"
    and IH: "\<And>s'. knows p g' s' \<Longrightarrow> locked (fst s') = inside \<Longrightarrow>
      \<exists>r s''. run (k s) s' = Some (r, s'') \<and>
        (\<forall>x. r = Inr x \<longrightarrow> (\<exists>g'. knows p g' s'' \<and> Q x g' (locked (fst s'')))) \<and>
        (isl r \<longrightarrow> \<not> locked (fst s''))"
    by blast
  then show ?case
    using IH [of "u s"] safe_Step.prems(2) by (simp add: step_ok_def leaves_others_def)
next
  case (safe_Lock g m)
  then show ?case
    using safe_Lock.IH [of "apfst (locked_update (\<lambda>_. True)) s"]
    by (cases s) simp
next
  case (safe_Unlock g m)
  then show ?case
    using safe_Unlock.IH [of "apfst (locked_update (\<lambda>_. False)) s"]
    by (cases s) simp
qed auto

end
