(* ===== verification/Rwg_Concurrency.thy ===== *)
theory Rwg_Concurrency
  imports Rwg_Processes
begin

text \<open>
  Every function of \<open>np_multi_proc.cpp\<close> is a safe program, and so every order in which the processes
  and signals interleave keeps the shared tables well formed.
\<close>

section \<open>The tables after one change\<close>

lemma update_user:
  assumes "knows p g (h, w)" and "m_online u = m_online (users h k)" and "m_pid u = m_pid (users h k)"
    and "m_online u \<Longrightarrow> user_ok k u"
  shows "knows p g (h\<lparr>users := (users h)(k := u)\<rparr>, w) \<and>
         leaves_others p h (h\<lparr>users := (users h)(k := u)\<rparr>)"
proof -
  have "slot (h\<lparr>users := (users h)(k := u)\<rparr>) j q = slot h j q" for j q
    using assms(2,3) by (simp add: slot_def)
  with assms show ?thesis
    by (auto simp: knows_def tables_ok_def leaves_others_def)
qed

lemma update_pipes:
  assumes "knows p g (h, w)" and "\<And>a b. pipes a b \<Longrightarrow> m_online (users h a) \<and> m_online (users h b)"
  shows "knows p g (h\<lparr>userPipeExists := pipes\<rparr>, w) \<and> leaves_others p h (h\<lparr>userPipeExists := pipes\<rparr>)"
  using assms by (auto simp: knows_def tables_ok_def leaves_others_def slot_def)

lemma knows_user_ok: "knows p g (h, w) \<Longrightarrow> m_online (users h k) \<Longrightarrow> user_ok k (users h k)"
  by (simp add: knows_def tables_ok_def)

lemma knows_own: "knows p (Some k, k) (h, w) \<Longrightarrow> currentUserId w = k \<and> m_online (users h k) \<and> user_ok k (users h k)"
  by (auto simp: knows_def tables_ok_def slot_def)

lemma copyString_length: "0 < n \<Longrightarrow> length (copyString n src) < n"
  by (simp add: copyString_def)

section \<open>Messages\<close>

lemma keeps_tell_client [keeping]: "keeps_knowledge p g (tell_client m)"
  unfolding tell_client_def by (rule keeps_local) (simp add: writeAll_def)

lemma keeps_currentName [keeping]: "keeps_knowledge p g currentName"
  unfolding currentName_def by (rule keeps_reading) simp

lemma post_message_ok:
  assumes "knows p g (h, w)"
  shows "knows p g (snd (post_message k m h), w) \<and> leaves_others p h (snd (post_message k m h))"
proof (cases "m_online (users h k) \<and> length (messages (users h k)) < kMaxMessages")
  case True
  then have "user_ok k ((users h k)\<lparr>messages := messages (users h k) @ [copyString kMessageSize m]\<rparr>)"
    using knows_user_ok [OF assms, of k] copyString_length [of kMessageSize m] by (auto simp: user_ok_def)
  with True assms update_user [OF assms, of "(users h k)\<lparr>messages := messages (users h k) @ [copyString kMessageSize m]\<rparr>" k]
  show ?thesis by (simp add: post_message_def Let_def)
qed (use assms in \<open>auto simp: post_message_def Let_def leaves_others_def\<close>)

lemma keeps_kill [keeping]: "keeps_knowledge p g (action (\<lambda>(h, w). ((), sys_kill q h, w)))"
  by (rule keeps_action) (simp add: sys_kill_def same_tables_def)

lemma keeps_unlink [keeping]: "keeps_knowledge p g (action (\<lambda>(h, w). ((), sys_unlink path h, w)))"
  by (rule keeps_action) (simp add: sys_unlink_def same_tables_def)

lemma keeps_sendMessageToUser [keeping]: "keeps_knowledge p g (sendMessageToUser k m)"
proof -
  have "keeps_knowledge p g (critical (\<lambda>(h, w). post_message k m h))"
    by (rule keeps_critical) (simp add: post_message_ok)
  then show ?thesis
    unfolding sendMessageToUser_def by (auto intro!: keeping)
qed

lemma keeps_send_each [keeping]: "keeps_knowledge p g (send_each ks m)"
  by (induction ks) (auto intro!: keeping)

lemma keeps_broadcastMessage [keeping]: "keeps_knowledge p g (broadcastMessage m)"
  unfolding broadcastMessage_def by (intro keeping keeps_reading) simp

lemma knows_writes: "knows p g (h, fold (writeAll fd) ms w) = knows p g (h, w)"
  by (induction ms arbitrary: w) (simp_all add: writeAll_def knows_def)

lemma keeps_flushPendingMessages: "keeps_knowledge p g flushPendingMessages"
proof -
  have "safe p (\<lambda>_ g' b. g' = g \<and> b) g True (action flush_write)"
  proof (rule safe_action, intro exI [of _ g])
    fix s
    assume g: "knows p g s"
    obtain h w where s: "s = (h, w)" by fastforce
    let ?k = "currentUserId w"
    have "knows p g (h\<lparr>users := (users h)(?k := (users h ?k)\<lparr>messages := []\<rparr>)\<rparr>, w) \<and>
          leaves_others p h (h\<lparr>users := (users h)(?k := (users h ?k)\<lparr>messages := []\<rparr>)\<rparr>)"
      using knows_user_ok [of p g h w ?k] g
      by (intro update_user) (simp_all add: s user_ok_def)
    then show "knows p g (snd (flush_write s)) \<and> step_ok p True (fst s) (fst (snd (flush_write s))) \<and> g = g \<and> True"
      by (simp add: s flush_write_def Let_def step_ok_def knows_writes)
  qed
  then have "keeps_knowledge p g (thenP lockShared (thenP (action flush_write) unlockShared))"
    unfolding lockShared_def unlockShared_def
    by (auto intro!: safe_Lock safe_Unlock safe_Return elim!: safe_bindP)
  then show ?thesis
    unfolding flushPendingMessages_def by (auto intro!: keeping)
qed

section \<open>Built-in commands\<close>

lemma keeps_advance [keeping]: "keeps_knowledge p g advanceBuiltinSegment"
  unfolding advanceBuiltinSegment_def by (rule keeps_local) (simp add: case_prod_beta)

lemma keeps_who [keeping]: "keeps_knowledge p g who_m"
  unfolding who_m_def by (intro keeping keeps_reading) simp

lemma rename_ok:
  assumes "knows p (Some k, k) (h, w)"
  shows "knows p (Some k, k) (snd (rename m (h, w)), w) \<and> leaves_others p h (snd (rename m (h, w)))"
proof (cases "list_ex (\<lambda>k. m_online (users h k) \<and> m_name (users h k) = m) [1..kMaxUsers]")
  case False
  let ?self = "(users h k)\<lparr>m_name := copyString kNameSize m\<rparr>"
  have "user_ok k ?self"
    using knows_own [OF assms] copyString_length [of kNameSize m] by (simp add: user_ok_def)
  with False knows_own [OF assms] update_user [OF assms, of ?self k] show ?thesis
    by (simp add: rename_def Let_def)
qed (use assms in \<open>simp add: rename_def Let_def leaves_others_def\<close>)

lemma keeps_name [keeping]: "keeps_knowledge p (Some k, k) (name_m m)"
proof -
  have "keeps_knowledge p (Some k, k) (critical (rename m))"
    by (rule keeps_critical) (rule rename_ok)
  then show ?thesis
    unfolding name_m_def by (auto intro!: keeping split: prod.splits)
qed

lemma keeps_tell [keeping]: "keeps_knowledge p g (tell_m k m)"
  unfolding tell_m_def by (intro keeping keeps_reading) (auto intro!: keeping split: prod.splits)

lemma keeps_handleRwgBuiltin [keeping]: "keeps_knowledge p (Some k, k) (handleRwgBuiltin_m line)"
  unfolding handleRwgBuiltin_m_def Let_def
  by (auto intro!: keeping split: list.splits sum.splits)

section \<open>User pipes\<close>

lemma keeps_open_null [keeping]: "keeps_knowledge p g (local open_null)"
  by (rule keeps_local) (simp add: open_null_def case_prod_beta)

lemma keeps_open_fifo [keeping]: "keeps_knowledge p g (action (open_fifo path kind))"
  by (rule keeps_action) (simp add: open_fifo_def same_tables_def Let_def split: option.splits)

lemma keeps_mkfifo [keeping]:
  "keeps_knowledge p g (action (\<lambda>(h, w). case sys_mkfifo path h of (created, h') \<Rightarrow> (created, h', w)))"
  by (rule keeps_action) (simp add: sys_mkfifo_def same_tables_def Let_def case_prod_beta)

lemma keeps_refuse [keeping]:
  "keeps_knowledge p g (refuse_input m r)" "keeps_knowledge p g (refuse_output m r)"
  "keeps_knowledge p g (open_null_output r)"
  by (auto simp: refuse_input_def refuse_output_def open_null_output_def intro!: keeping)

lemma keeps_close [keeping]:
  "keeps_knowledge p g (local (\<lambda>w. case closeFd fd (w_os w) of (fd', s) \<Rightarrow> (fd', w\<lparr>w_os := s\<rparr>)))"
  by (rule keeps_local) (simp add: case_prod_beta)

lemma keeps_create_fifo [keeping]: "keeps_knowledge p g (create_fifo path r)"
  unfolding create_fifo_def Let_def by (auto intro!: keeping)

lemma take_pipe_ok:
  assumes "knows p g (h, w)"
  shows "knows p g (snd (take_pipe source (h, w)), w) \<and> leaves_others p h (snd (take_pipe source (h, w)))"
    (is "?changed (snd (take_pipe source (h, w)))")
proof -
  have "userPipeExists h a b \<Longrightarrow> m_online (users h a) \<and> m_online (users h b)" for a b
    using assms by (simp add: knows_def tables_ok_def)
  then have "?changed (h\<lparr>userPipeExists :=
      (userPipeExists h)(source := (userPipeExists h source)(currentUserId w := False))\<rparr>)"
    by (intro update_pipes [OF assms]) (auto split: if_splits)
  then show ?thesis
    using assms by (simp add: take_pipe_def Let_def leaves_others_def)
qed

lemma keeps_resolve_input [keeping]: "keeps_knowledge p g (resolve_input_m source line r)"
proof -
  have "keeps_knowledge p g (critical (take_pipe source))"
    by (rule keeps_critical) (rule take_pipe_ok)
  then show ?thesis
    unfolding resolve_input_m_def by (auto intro!: keeping split: prod.splits)
qed

lemma enter_pipe_ok:
  assumes "knows p (Some k, k) (h, w)"
  shows "knows p (Some k, k) (snd (enter_pipe dest (h, w)), w) \<and> leaves_others p h (snd (enter_pipe dest (h, w)))"
    (is "?changed (snd (enter_pipe dest (h, w)))")
proof -
  have "userPipeExists h a b \<Longrightarrow> m_online (users h a) \<and> m_online (users h b)" for a b
    using assms by (simp add: knows_def tables_ok_def)
  then have "m_online (users h dest) \<Longrightarrow> ?changed (h\<lparr>userPipeExists :=
      (userPipeExists h)(k := (userPipeExists h k)(dest := True))\<rparr>)"
    using knows_own [OF assms] by (intro update_pipes [OF assms]) (auto split: if_splits)
  then show ?thesis
    using assms knows_own [OF assms] by (simp add: enter_pipe_def Let_def leaves_others_def)
qed

lemma keeps_resolve_output [keeping]: "keeps_knowledge p (Some k, k) (resolve_output_m dest line r)"
proof -
  have "keeps_knowledge p (Some k, k) (critical (enter_pipe dest))"
    by (rule keeps_critical) (rule enter_pipe_ok)
  then show ?thesis
    unfolding resolve_output_m_def by (auto intro!: keeping split: prod.splits)
qed

lemma keeps_resolveUserPipes [keeping]: "keeps_knowledge p (Some k, k) (resolveUserPipes_m request line)"
  unfolding resolveUserPipes_m_def by (auto intro!: keeping)

section \<open>A line, and a whole process\<close>

lemma keeps_execute_commands [keeping]: "keeps_knowledge p g (execute_commands_m cs r)"
  unfolding execute_commands_m_def
  by (intro keeping keeps_local) (auto intro!: keeping split: sum.splits)

lemma keeps_shell_builtin [keeping]: "keeps_knowledge p g (local (shell_builtin cs))"
  by (rule keeps_local) (simp add: shell_builtin_def case_prod_beta)

lemma keeps_executeLine: "keeps_knowledge p (Some k, k) (executeLine_m line)"
  unfolding executeLine_m_def Let_def
  by (auto intro!: keeping split: sum.splits prod.splits)

lemma keeps_serve_lines: "keeps_knowledge p (Some k, k) (serve_lines buffer)"
proof (induction buffer rule: serve_lines.induct)
  case (1 buffer)
  show ?case
    by (subst serve_lines.simps)
       (auto intro!: keeping keeps_executeLine 1 simp: sendPrompt_m_def split: list.splits)
qed

lemma keeps_serve_loop: "keeps_knowledge p (Some k, k) (serve_loop inputs buffer)"
  by (induction inputs arbitrary: buffer)
     (auto intro!: keeping keeps_serve_lines split: read_result.splits option.splits)

text \<open>A process owns no entry before \<open>assignUser\<close> and after \<open>cleanupUser\<close>.\<close>

lemma assign_slot_ok:
  assumes "knows p (None, u) (h, w)"
  shows "\<exists>g'. knows p g' (snd (assign_slot fd ip port (h, w)), w) \<and>
           leaves_others p h (snd (assign_slot fd ip port (h, w))) \<and>
           (fst (assign_slot fd ip port (h, w)) = -1 \<and> g' = (None, u) \<or>
            1 \<le> fst (assign_slot fd ip port (h, w)) \<and> g' = (Some (fst (assign_slot fd ip port (h, w))), u))"
proof (cases "find (\<lambda>k. \<not> m_online (users h k)) [1..kMaxUsers]")
  case None
  with assms show ?thesis by (auto simp: assign_slot_def leaves_others_def)
next
  case (Some k)
  then have "k \<in> set [1..kMaxUsers]" and free: "\<not> m_online (users h k)"
    by (auto simp: find_Some_iff)
  then have k: "1 \<le> k" "k \<le> kMaxUsers"
    by simp_all
  let ?u = "new_user k fd p ip port"
  let ?h = "h\<lparr>users := (users h)(k := ?u)\<rparr>"
  have pid: "w_pid w = p" "currentUserId w = u" and ok: "tables_ok h" and none: "\<not> slot h j p" for j
    using assms by (auto simp: knows_def)
  have slots: "slot ?h j q \<longleftrightarrow> (if j = k then q = p else slot h j q)" for j q
    by (auto simp: slot_def new_user_def)
  have "user_ok k ?u"
    using k copyString_length [of kNameSize kDefaultName] copyString_length [of kIpSize ip]
    by (simp add: user_ok_def new_user_def)
  moreover have "m_online ?u"
    by (simp add: new_user_def)
  ultimately have "tables_ok ?h"
    using ok none by (auto simp: tables_ok_def slots split: if_splits)
  moreover have "\<not> slot h k q" for q
    using free by (simp add: slot_def)
  ultimately have "knows p (Some k, u) (?h, w) \<and> leaves_others p h ?h"
    using none by (simp add: knows_def leaves_others_def slots pid)
  moreover have "assign_slot fd ip port (h, w) = (k, ?h)"
    using Some pid by (simp add: assign_slot_def)
  ultimately show ?thesis using k by auto
qed

lemma vacate_ok:
  assumes "knows p (Some k, k) (h, w)"
  shows "knows p (None, k) (snd (vacate k (h, w)), w) \<and> leaves_others p h (snd (vacate k (h, w)))"
proof -
  let ?u = "(users h k)\<lparr>m_online := False, messages := []\<rparr>"
  have own: "m_online (users h k)" "1 \<le> k" "k \<le> kMaxUsers" "m_pid (users h k) = p"
    using knows_own [OF assms] assms by (auto simp: user_ok_def knows_def slot_def)
  define h' where "h' = snd (vacate k (h, w))"
  have users: "users h' = (users h)(k := ?u)" and lock: "locked h' = locked h"
    and pipes: "userPipeExists h' a b \<Longrightarrow> userPipeExists h a b \<and>
       \<not> (a = k \<and> 1 \<le> b \<and> b \<le> kMaxUsers \<or> b = k \<and> 1 \<le> a \<and> a \<le> kMaxUsers)" for a b
    using own by (simp_all add: h'_def vacate_def)
  have slots: "slot h' j q \<longleftrightarrow> j \<noteq> k \<and> slot h j q" for j q
    by (auto simp: slot_def users)
  have ok: "tables_ok h" and pid: "w_pid w = p" "currentUserId w = k"
    and mine: "slot h j p \<longleftrightarrow> k = j" for j
    using assms by (simp_all add: knows_def)
  have "userPipeExists h' a b \<Longrightarrow> m_online (users h' a) \<and> m_online (users h' b)" for a b
  proof -
    assume "userPipeExists h' a b"
    note new = pipes [OF this]
    then have "m_online (users h a)" "m_online (users h b)"
      using ok by (auto simp: tables_ok_def)
    with new ok show ?thesis
      by (auto simp: users tables_ok_def user_ok_def)
  qed
  moreover have "m_online (users h' j) \<Longrightarrow> user_ok j (users h' j)" for j
    using ok by (simp add: tables_ok_def users split: if_splits)
  ultimately have "tables_ok h'"
    using ok unfolding tables_ok_def slots by blast
  moreover have "slot h k q \<Longrightarrow> q = p" for q
    using own by (simp add: slot_def)
  ultimately show ?thesis
    unfolding h'_def [symmetric] using mine pid by (auto simp: knows_def leaves_others_def slots lock)
qed

text \<open>The end of a process: it owns no entry, and is not inside the lock.\<close>

abbreviation ends_free :: "'a \<Rightarrow> knowledge \<Rightarrow> bool \<Rightarrow> bool" where
  "ends_free \<equiv> (\<lambda>_ g b. fst g = None \<and> \<not> b)"

lemma keeps_then:
  "keeps_knowledge p g m \<Longrightarrow> (\<And>x. safe p R g False (f x)) \<Longrightarrow> safe p R g False (bindP m f)"
  by (erule safe_bindP) simp

lemma keeps_ends_free: "keeps_knowledge p g m \<Longrightarrow> fst g = None \<Longrightarrow> safe p ends_free g False m"
  by (erule safe_post) simp

lemma keeps_unlink_all [keeping]: "keeps_knowledge p g (action (\<lambda>(h, w). ((), fold sys_unlink paths h, w)))"
proof (rule keeps_action)
  fix h :: hub and w :: worker
  have "same_tables h (fold sys_unlink paths h) \<and> locked (fold sys_unlink paths h) = locked h"
    by (induction paths arbitrary: h) (simp_all add: sys_unlink_def same_tables_def)
  then show "same_tables h (fst (snd (case (h, w) of (h, w) \<Rightarrow> ((), fold sys_unlink paths h, w)))) \<and>
        locked (fst (snd (case (h, w) of (h, w) \<Rightarrow> ((), fold sys_unlink paths h, w)))) = locked h \<and>
        w_pid (snd (snd (case (h, w) of (h, w) \<Rightarrow> ((), fold sys_unlink paths h, w)))) = w_pid w \<and>
        currentUserId (snd (snd (case (h, w) of (h, w) \<Rightarrow> ((), fold sys_unlink paths h, w)))) = currentUserId w"
    by simp
qed

lemma safe_cleanupUser: "safe p ends_free (Some k, k) False (cleanupUser k announce)"
proof -
  have "safe p (\<lambda>_ g' b. g' = (None, k) \<and> \<not> b) (Some k, k) False (critical (vacate k))"
    by (rule safe_critical) (use vacate_ok in blast)
  then show ?thesis
    unfolding cleanupUser_def
  proof (rule safe_bindP, goal_cases)
    case (1 x g' b)
    then have "keeps_knowledge p g' (case x of (name, paths) \<Rightarrow>
        thenP (action (\<lambda>(h, w). ((), fold sys_unlink paths h, w)))
          (if announce \<and> name \<noteq> []
           then broadcastMessage (''*** User '' @ [CHR 0x27] @ name @ [CHR 0x27] @ '' left. ***'' @ [NL])
           else Return ()))"
      by (cases x) (auto intro!: keeping)
    with 1 show ?case by (auto intro: keeps_ends_free)
  qed
qed

text \<open>The program may read and set \<open>currentUserId\<close>.\<close>

lemma safe_local:
  assumes "\<And>w. currentUserId w = snd g \<Longrightarrow>
     w_pid (snd (f w)) = w_pid w \<and> currentUserId (snd (f w)) = u \<and> Q (fst (f w)) (fst g, u) False"
  shows "safe p Q g False (local f)"
  unfolding local_def
proof (rule safe_action, intro exI [of _ "(fst g, u)"])
  fix s
  assume g: "knows p g s"
  obtain h w where s: "s = (h, w)" by fastforce
  with g have "currentUserId w = snd g" by (simp add: knows_def)
  from assms [OF this] g show "knows p (fst g, u) (snd (case s of (h, w) \<Rightarrow> let (x, w') = f w in (x, h, w'))) \<and>
      step_ok p False (fst s) (fst (snd (case s of (h, w) \<Rightarrow> let (x, w') = f w in (x, h, w')))) \<and>
      Q (fst (case s of (h, w) \<Rightarrow> let (x, w') = f w in (x, h, w'))) (fst g, u) False"
    by (simp add: s knows_def step_ok_def leaves_others_def same_tables_def case_prod_beta)
qed

lemma safe_leave: "safe p ends_free (Some k, k) False (leave connFd)"
proof -
  have uid: "safe p (\<lambda>x g' b. x = k \<and> g' = (Some k, k) \<and> \<not> b) (Some k, k) False (asks currentUserId)"
    unfolding asks_def by (rule safe_local) simp
  have close: "keeps_knowledge p g (local (\<lambda>w. ((), w\<lparr>w_os := sys_close connFd (w_os w)\<rparr>)))" for g
    by (rule keeps_local) simp
  have shell: "keeps_knowledge p g (local (\<lambda>w. let (st, s) = closeShellState (w_shell w) (w_os w)
      in ((), w\<lparr>w_shell := st, w_os := s\<rparr>)))" for g
    by (rule keeps_local) (simp add: case_prod_beta)
  have "safe p ends_free (Some k, k) False
      (thenP (cleanupUser k True) (local (\<lambda>w. ((), w\<lparr>w_os := sys_close connFd (w_os w)\<rparr>))))"
    by (rule safe_bindP [OF safe_cleanupUser]) (simp add: keeps_ends_free close)
  then show ?thesis
    unfolding leave_def by (intro keeps_then [OF shell] safe_bindP [OF uid]) simp
qed

lemma keeps_greet: "keeps_knowledge p g greet"
proof -
  have "keeps_knowledge p g (local (\<lambda>w. ((), w\<lparr>handlerSet := True\<rparr>)))"
    by (rule keeps_local) simp
  moreover have "keeps_knowledge p g (action (\<lambda>(h, w). (endpoint_m (users h (currentUserId w)), h, w)))"
    by (rule keeps_action) (simp add: same_tables_def)
  ultimately show ?thesis
    unfolding greet_def sendPrompt_m_def
    by (intro keeps_bindP [of p g] keeps_tell_client keeps_broadcastMessage)
qed

theorem safe_serveClient:
  "safe p ends_free (None, -1) False (serveClient connFd listenSocket ip port inputs)"
proof -
  let ?close = "local (\<lambda>w. ((), w\<lparr>w_os := sys_close listenSocket (w_os w), currentClientFd := connFd\<rparr>))"
  have assign: "safe p (\<lambda>k g' b. (k = -1 \<and> g' = (None, -1) \<or> 1 \<le> k \<and> g' = (Some k, -1)) \<and> \<not> b) (None, -1) False
      (assignUser connFd ip port)"
    unfolding assignUser_def by (rule safe_critical) (use assign_slot_ok in simp)
  have set_id: "safe p (\<lambda>_ g' b. g' = (own, k) \<and> \<not> b) (own, u) False (local (\<lambda>w. ((), w\<lparr>currentUserId := k\<rparr>)))" for own k u
    by (rule safe_local) simp
  have talk: "safe p ends_free (Some k, k) False
      (thenP greet (thenP (serve_loop inputs []) (leave connFd)))" for k
    by (intro keeps_then [OF keeps_greet] keeps_then [OF keeps_serve_loop] safe_leave)
  have close: "keeps_knowledge p g (local (\<lambda>w. ((), w\<lparr>w_os := sys_close connFd (w_os w)\<rparr>)))" for g
    by (rule keeps_local) simp
  show ?thesis
    unfolding serveClient_def
  proof (rule keeps_then, rule keeps_local, simp, rule safe_bindP [OF assign], elim conjE disjE, goal_cases)
    case (1 _ k g' b)
    have "safe p ends_free (None, -1) False (thenP (local (\<lambda>w. ((), w\<lparr>currentUserId := -1\<rparr>)))
        (local (\<lambda>w. ((), w\<lparr>w_os := sys_close connFd (w_os w)\<rparr>))))"
      by (rule safe_bindP [OF set_id]) (simp add: keeps_ends_free close)
    with 1 show ?case by simp
  next
    case (2 _ k g' b)
    then have "\<not> k < 0" "g' = (Some k, -1)" "b = False" by simp_all
    then show ?case
      by (simp only: if_False) (rule safe_bindP [OF set_id], elim conjE, simp only: not_True_eq_False, rule talk)
  qed
qed

end
