(* ===== verification/Rwg_Interleaving.thy ===== *)
theory Rwg_Interleaving
  imports Rwg_Concurrency
begin

text \<open>
  The invariant of the server with processes: at most one process is inside the lock, every process
  runs what is left of a safe program, and the shared tables are well formed. Every event keeps it.
\<close>

section \<open>The invariant\<close>

text \<open>
  \<open>owner\<close> is the process inside the lock. A process that a signal interrupts inside the lock stays
  inside it while the handler runs.
\<close>

inductive process_ok :: "nat option \<Rightarrow> hub \<Rightarrow> nat \<Rightarrow> process \<Rightarrow> bool" for owner h p where
  in_main:
    "safe p ends_free g inside (main pr) \<Longrightarrow> handler pr = None \<Longrightarrow> knows p g (h, memory pr) \<Longrightarrow>
     (owner = Some p \<longleftrightarrow> inside) \<Longrightarrow> process_ok owner h p pr"
| in_handler:
    "safe p ends_free g busy (main pr) \<Longrightarrow> handler pr = Some q \<Longrightarrow>
     safe p (\<lambda>_ g1 b. g1 = g \<and> \<not> b) g' inside q \<Longrightarrow> knows p g' (h, memory pr) \<Longrightarrow>
     (owner = Some p \<longleftrightarrow> busy \<or> inside) \<Longrightarrow> \<not> (busy \<and> inside) \<Longrightarrow> process_ok owner h p pr"

lemma process_ok_main:
  assumes "process_ok owner h p pr" and "handler pr = None"
  obtains g inside where "safe p ends_free g inside (main pr)" and "knows p g (h, memory pr)"
    and "owner = Some p \<longleftrightarrow> inside"
  using assms(1)
proof cases
  case (in_main g inside)
  with that show thesis by blast
qed (use assms(2) in simp)

lemma process_ok_handler:
  assumes "process_ok owner h p pr" and "handler pr = Some q"
  obtains g busy g' inside where "safe p ends_free g busy (main pr)"
    and "safe p (\<lambda>_ g1 b. g1 = g \<and> \<not> b) g' inside q" and "knows p g' (h, memory pr)"
    and "owner = Some p \<longleftrightarrow> busy \<or> inside" and "\<not> (busy \<and> inside)"
  using assms(1)
proof cases
  case (in_handler g busy q' g' inside)
  with assms(2) that show thesis by simp
qed (use assms(2) in simp)

definition owned_by :: "nat option \<Rightarrow> system \<Rightarrow> bool" where
  "owned_by owner c \<longleftrightarrow>
     tables_ok (shared c) \<and> (locked (shared c) \<longleftrightarrow> owner \<noteq> None) \<and>
     (\<forall>p. owner = Some p \<longrightarrow> p < nextPid (server_os c)) \<and>
     (\<forall>k p. slot (shared c) k p \<longrightarrow> p < nextPid (server_os c)) \<and>
     (\<forall>p pr. processes c p = Some pr \<longrightarrow>
        p < nextPid (server_os c) \<and> process_ok owner (shared c) p pr)"

definition system_ok :: "system \<Rightarrow> bool" where
  "system_ok c \<longleftrightarrow> (\<exists>owner. owned_by owner c)"

section \<open>One step of a program\<close>

lemma step_prog_ok:
  assumes "step_prog m (h, w) = Some (m', h', w')" and "safe p Q g inside m" and "knows p g (h, w)"
  obtains g' inside' where "safe p Q g' inside' m'" and "knows p g' (h', w')"
    and "\<And>k q. q \<noteq> p \<Longrightarrow> slot h' k q = slot h k q"
    and "\<not> inside \<Longrightarrow> same_tables h h'"
    and "\<not> inside \<and> inside' \<and> \<not> locked h \<and> locked h' \<or> inside \<and> \<not> inside' \<and> \<not> locked h' \<or>
         (inside' \<longleftrightarrow> inside) \<and> (locked h' \<longleftrightarrow> locked h)"
proof (cases m)
  case (Lock n)
  with assms have "\<not> locked h" "m' = n" "h' = h\<lparr>locked := True\<rparr>" "w' = w"
    by (auto split: if_splits)
  moreover have "safe p Q g True n" "\<not> inside"
    using assms(2) Lock by (auto elim: safe_LockE)
  ultimately show ?thesis
    using that [of g True] assms(3) by (simp add: slot_def same_tables_def)
next
  case (Unlock n)
  with assms have "m' = n" "h' = h\<lparr>locked := False\<rparr>" "w' = w"
    by auto
  moreover have "safe p Q g False n" "inside"
    using assms(2) Unlock by (auto elim: safe_UnlockE)
  ultimately show ?thesis
    using that [of g False] assms(3) by (simp add: slot_def)
next
  case (Step u k)
  with assms have m': "m' = k (h, w)" "(h', w') = u (h, w)"
    by auto
  obtain g' where "knows p g' (u (h, w))" "step_ok p inside h (fst (u (h, w)))" "safe p Q g' inside (k (h, w))"
    using assms(2,3) Step by (auto elim!: safe_StepE)
  then have "knows p g' (h', w')" "step_ok p inside h h'" "safe p Q g' inside m'"
    using m' by (metis fst_conv)+
  then show ?thesis
    using that [of g' inside] by (auto simp: step_ok_def leaves_others_def)
qed (use assms(1) in auto)

lemma knows_other:
  assumes "knows q g (h, w)" and "tables_ok h'" and "\<And>k. slot h' k q = slot h k q"
  shows "knows q g (h', w)"
  using assms by (simp add: knows_def)

lemma process_ok_other:
  assumes "process_ok owner h q pr" and "tables_ok h'" and "\<And>k. slot h' k q = slot h k q"
    and "owner' = Some q \<longleftrightarrow> owner = Some q"
  shows "process_ok owner' h' q pr"
proof -
  have knows: "knows q g (h, memory pr) \<Longrightarrow> knows q g (h', memory pr)" for g
    by (rule knows_other) (use assms(2,3) in auto)
  from assms(1) show ?thesis
  proof cases
    case (in_main g inside)
    then show ?thesis
      using assms(4) by (intro process_ok.in_main [of q g inside]) (simp_all add: knows)
  next
    case (in_handler g busy m g' inside)
    then show ?thesis
      using assms(4) by (intro process_ok.in_handler [of q g busy pr m g' inside]) (simp_all add: knows)
  qed
qed

lemma knows_tables: "knows p g (h, w) \<Longrightarrow> tables_ok h"
  by (simp add: knows_def)

text \<open>A process that has changed the tables as it may leaves the invariant to hold.\<close>

lemma put_process_simps:
  "shared (put_process p opt h c) = h" "server_os (put_process p opt h c) = server_os c"
  "processes (put_process p opt h c) q = (if q = p then opt else processes c q)"
  by (simp_all add: put_process_def)

lemma put_process_ok:
  assumes "owned_by owner c" and "processes c p = Some pr" and "tables_ok h'"
    and "\<And>k q. q \<noteq> p \<Longrightarrow> slot h' k q = slot (shared c) k q"
    and "\<And>q. q \<noteq> p \<Longrightarrow> owner' = Some q \<longleftrightarrow> owner = Some q"
    and "locked h' \<longleftrightarrow> owner' \<noteq> None"
    and "\<And>pr'. opt = Some pr' \<Longrightarrow> process_ok owner' h' p pr'"
  shows "owned_by owner' (put_process p opt h' c)"
proof -
  have p: "p < nextPid (server_os c)"
    using assms(1,2) by (auto simp: owned_by_def)
  have "process_ok owner' h' q pr'" if "q \<noteq> p" "processes c q = Some pr'" for q pr'
  proof (rule process_ok_other)
    show "process_ok owner (shared c) q pr'"
      using assms(1) that(2) by (simp add: owned_by_def)
  qed (use assms(3) assms(4,5) [OF that(1)] in auto)
  moreover have "slot h' k q \<Longrightarrow> q < nextPid (server_os c)" for k q
    using assms(1,4) p by (cases "q = p") (auto simp: owned_by_def)
  moreover have "owner' = Some q \<Longrightarrow> q < nextPid (server_os c)" for q
    using assms(1,5) p by (cases "q = p") (auto simp: owned_by_def)
  moreover have "processes (put_process p opt h' c) q = Some pr' \<Longrightarrow>
      q < nextPid (server_os c) \<and> process_ok owner' h' q pr'" for q pr'
    using assms(1,7) p calculation(1) [of q pr'] by (simp add: put_process_simps owned_by_def split: if_splits)
  ultimately show ?thesis
    using assms(3,6) unfolding owned_by_def by (simp add: put_process_simps(1,2))
qed

section \<open>Every event keeps the invariant\<close>

text \<open>
  The lock after a step: taken or given up by the process that makes the step, or left as it was.
\<close>

lemma owner_after:
  assumes "locked h \<longleftrightarrow> owner \<noteq> None" and "owner = Some p \<longleftrightarrow> busy \<or> inside" and "\<not> (busy \<and> inside)"
    and "\<not> inside \<and> inside' \<and> \<not> locked h \<and> locked h' \<or> inside \<and> \<not> inside' \<and> \<not> locked h' \<or>
         (inside' \<longleftrightarrow> inside) \<and> (locked h' \<longleftrightarrow> locked h)"
  obtains owner' where "locked h' \<longleftrightarrow> owner' \<noteq> None" and "owner' = Some p \<longleftrightarrow> busy \<or> inside'"
    and "\<not> (busy \<and> inside')" and "\<And>q. q \<noteq> p \<Longrightarrow> owner' = Some q \<longleftrightarrow> owner = Some q"
  using assms(4)
proof (elim disjE)
  assume "\<not> inside \<and> inside' \<and> \<not> locked h \<and> locked h'"
  with assms(1-3) that [of "Some p"] show thesis by auto
next
  assume "inside \<and> \<not> inside' \<and> \<not> locked h'"
  with assms(1-3) that [of None] show thesis by auto
next
  assume "(inside' \<longleftrightarrow> inside) \<and> (locked h' \<longleftrightarrow> locked h)"
  with assms(1-3) that [of owner] show thesis by auto
qed

text \<open>
  A step of \<open>p\<close> does not take the lock from others, and only the owner of the lock changes the tables.
\<close>

definition allowed :: "nat \<Rightarrow> nat option \<Rightarrow> system \<Rightarrow> nat option \<Rightarrow> system \<Rightarrow> bool" where
  "allowed p owner c owner' c' \<longleftrightarrow>
     owned_by owner' c' \<and> (\<forall>q. q \<noteq> p \<longrightarrow> (owner' = Some q \<longleftrightarrow> owner = Some q)) \<and>
     (\<forall>k q. q \<noteq> p \<longrightarrow> slot (shared c') k q = slot (shared c) k q) \<and>
     server_os c' = server_os c \<and>
     (owner \<noteq> Some p \<longrightarrow> same_tables (shared c) (shared c'))"

lemma run_main_ok:
  assumes ok: "owned_by owner c" and pr: "processes c p = Some pr" and "handler pr = None"
    and step: "step_prog (main pr) (shared c, memory pr) = Some (m, h, w)"
  shows "\<exists>owner'. allowed p owner c owner' (put_process p (Some (pr\<lparr>main := m, memory := w\<rparr>)) h c)"
proof -
  have "process_ok owner (shared c) p pr"
    using ok pr by (simp add: owned_by_def)
  from process_ok_main [OF this assms(3)] obtain g inside where main: "safe p ends_free g inside (main pr)"
    and g: "knows p g (shared c, memory pr)" and own: "owner = Some p \<longleftrightarrow> inside" .
  from step_prog_ok [OF step main g] obtain g' inside' where *: "safe p ends_free g' inside' m" "knows p g' (h, w)"
    "\<And>k q. q \<noteq> p \<Longrightarrow> slot h k q = slot (shared c) k q" "\<not> inside \<Longrightarrow> same_tables (shared c) h"
    "\<not> inside \<and> inside' \<and> \<not> locked (shared c) \<and> locked h \<or> inside \<and> \<not> inside' \<and> \<not> locked h \<or>
     (inside' \<longleftrightarrow> inside) \<and> (locked h \<longleftrightarrow> locked (shared c))"
    by metis
  from ok have lock: "locked (shared c) \<longleftrightarrow> owner \<noteq> None"
    by (simp add: owned_by_def)
  from owner_after [OF lock, of p False inside inside' h] own *(5) obtain owner' where
    o: "locked h \<longleftrightarrow> owner' \<noteq> None" "owner' = Some p \<longleftrightarrow> inside'" "\<And>q. q \<noteq> p \<Longrightarrow> owner' = Some q \<longleftrightarrow> owner = Some q"
    by auto
  have "process_ok owner' h p (pr\<lparr>main := m, memory := w\<rparr>)"
    using *(1,2) o(2) assms(3) by (intro in_main [of p g' inside']) simp_all
  with ok pr *(2,3) o have "owned_by owner' (put_process p (Some (pr\<lparr>main := m, memory := w\<rparr>)) h c)"
    by (intro put_process_ok) (auto intro: knows_tables)
  with o own *(3,4) show ?thesis
    unfolding allowed_def put_process_simps by blast
qed

lemma run_handler_ok:
  assumes ok: "owned_by owner c" and pr: "processes c p = Some pr" and "handler pr = Some q"
    and step: "step_prog q (shared c, memory pr) = Some (m, h, w)"
  shows "\<exists>owner'. allowed p owner c owner' (put_process p (Some (pr\<lparr>handler := Some m, memory := w\<rparr>)) h c)"
proof -
  have "process_ok owner (shared c) p pr"
    using ok pr by (simp add: owned_by_def)
  from process_ok_handler [OF this assms(3)] obtain g0 busy g inside where
    main: "safe p ends_free g0 busy (main pr)" and q: "safe p (\<lambda>_ g1 b. g1 = g0 \<and> \<not> b) g inside q"
    and g: "knows p g (shared c, memory pr)" and own: "owner = Some p \<longleftrightarrow> busy \<or> inside" "\<not> (busy \<and> inside)" .
  from step_prog_ok [OF step q g] obtain g' inside' where *:
    "safe p (\<lambda>_ g1 b. g1 = g0 \<and> \<not> b) g' inside' m" "knows p g' (h, w)"
    "\<And>k q. q \<noteq> p \<Longrightarrow> slot h k q = slot (shared c) k q" "\<not> inside \<Longrightarrow> same_tables (shared c) h"
    "\<not> inside \<and> inside' \<and> \<not> locked (shared c) \<and> locked h \<or> inside \<and> \<not> inside' \<and> \<not> locked h \<or>
     (inside' \<longleftrightarrow> inside) \<and> (locked h \<longleftrightarrow> locked (shared c))"
    by metis
  from ok have lock: "locked (shared c) \<longleftrightarrow> owner \<noteq> None"
    by (simp add: owned_by_def)
  from owner_after [OF lock own *(5)] obtain owner' where
    o: "locked h \<longleftrightarrow> owner' \<noteq> None" "owner' = Some p \<longleftrightarrow> busy \<or> inside'" "\<not> (busy \<and> inside')"
      "\<And>q. q \<noteq> p \<Longrightarrow> owner' = Some q \<longleftrightarrow> owner = Some q"
    by metis
  have "process_ok owner' h p (pr\<lparr>handler := Some m, memory := w\<rparr>)"
    using main *(1,2) o(2,3) by (intro in_handler [of p g0 busy _ m g' inside']) simp_all
  with ok pr *(2,3) o have "owned_by owner' (put_process p (Some (pr\<lparr>handler := Some m, memory := w\<rparr>)) h c)"
    by (intro put_process_ok) (auto intro: knows_tables)
  with o own *(3,4) show ?thesis
    unfolding allowed_def put_process_simps by blast
qed

lemma run_process_ok:
  assumes ok: "owned_by owner c" and run: "run_process p c = Some c'"
  shows "\<exists>owner'. allowed p owner c owner' c'"
proof -
  obtain pr where pr: "processes c p = Some pr"
    using run by (auto simp: run_process_def split: option.splits)
  have pok: "process_ok owner (shared c) p pr" and tables: "tables_ok (shared c)"
    and lock: "locked (shared c) \<longleftrightarrow> owner \<noteq> None"
    using ok pr by (auto simp: owned_by_def)
  have unchanged: "allowed p owner c owner (put_process p opt (shared c) c)"
    if "\<And>pr'. opt = Some pr' \<Longrightarrow> process_ok owner (shared c) p pr'" for opt
    unfolding allowed_def put_process_simps same_tables_def
    using put_process_ok [OF ok pr tables, of owner opt] lock that by auto
  have gone: "allowed p owner c owner (put_process p None (shared c) c)"
    by (rule unchanged) simp
  show ?thesis
  proof (cases "handler pr")
    case None
    show ?thesis
    proof (cases "finished (main pr)")
      case False
      with run pr None obtain m h w where "step_prog (main pr) (shared c, memory pr) = Some (m, h, w)"
        and "c' = put_process p (Some (pr\<lparr>main := m, memory := w\<rparr>)) h c"
        by (auto simp: run_process_def split: option.splits)
      with run_main_ok [OF ok pr None] show ?thesis by blast
    qed (use run pr None gone in \<open>auto simp: run_process_def\<close>)
  next
    case (Some q)
    consider "failed q" | x where "q = Return x" | "\<not> finished q"
      by (cases q) auto
    then show ?thesis
    proof cases
      case 2
      from process_ok_handler [OF pok Some] obtain g busy g' inside where
        "safe p ends_free g busy (main pr)" "safe p (\<lambda>_ g1 b. g1 = g \<and> \<not> b) g' inside q"
        "knows p g' (shared c, memory pr)" "owner = Some p \<longleftrightarrow> busy \<or> inside" .
      with 2 have "process_ok owner (shared c) p (pr\<lparr>handler := None\<rparr>)"
        by (intro in_main [of p g busy]) (auto elim!: safe_ReturnE)
      then have "allowed p owner c owner (put_process p (Some (pr\<lparr>handler := None\<rparr>)) (shared c) c)"
        by (intro unchanged) simp
      with run pr Some 2 show ?thesis by (auto simp: run_process_def)
    next
      case 3
      then have "\<not> failed q" by (cases q) auto
      with run pr Some 3 obtain m h w where "step_prog q (shared c, memory pr) = Some (m, h, w)"
        and "c' = put_process p (Some (pr\<lparr>handler := Some m, memory := w\<rparr>)) h c"
        by (auto simp: run_process_def split: option.splits)
      with run_handler_ok [OF ok pr Some] show ?thesis by blast
    qed (use run pr Some gone in \<open>auto simp: run_process_def\<close>)
  qed
qed

lemma same_shared_ok:
  assumes "owned_by owner c" and "users h = users (shared c)" and "userPipeExists h = userPipeExists (shared c)"
    and "locked h = locked (shared c)"
  shows "tables_ok h" and "slot h k q = slot (shared c) k q" and "locked h \<longleftrightarrow> owner \<noteq> None"
    and "knows p g (h, w) = knows p g (shared c, w)"
  using assms by (simp_all add: owned_by_def tables_ok_def slot_def knows_def)

lemma deliver_ok:
  assumes ok: "owned_by owner c" and "deliver p c = Some c'"
  shows "allowed p owner c owner c'"
proof -
  obtain pr where pr: "processes c p = Some pr"
    using assms(2) by (auto simp: deliver_def split: option.splits)
  let ?h = "(shared c)\<lparr>pendingSignals := removeAll p (pendingSignals (shared c))\<rparr>"
  let ?pr = "pr\<lparr>handler := Some flushPendingMessages\<rparr>"
  note same = same_shared_ok [OF ok, of ?h, simplified]
  have pok: "process_ok owner (shared c) p pr"
    using ok pr by (simp add: owned_by_def)
  have c': "handler pr = None"
    "c' = put_process p (if handlerSet (memory pr) then Some ?pr else None) ?h c"
    using assms(2) pr by (auto simp: deliver_def Let_def split: if_splits)
  from process_ok_main [OF pok c'(1)] obtain g inside where
    "safe p ends_free g inside (main pr)" "knows p g (shared c, memory pr)" "owner = Some p \<longleftrightarrow> inside" .
  then have "process_ok owner ?h p ?pr"
    by (intro in_handler [of p g inside _ flushPendingMessages g False]) (simp_all add: same keeps_flushPendingMessages)
  then show ?thesis
    unfolding c'(2) allowed_def put_process_simps
    using put_process_ok [OF ok pr same(1), of owner "if handlerSet (memory pr) then Some ?pr else None"]
    by (auto simp: same same_tables_def split: if_splits)
qed

lemma accept_ok:
  assumes ok: "owned_by owner c" and "accept_connection n ip port inputs c = Some c'"
  shows "owned_by owner c'"
proof -
  obtain connFd s where acc: "sys_accept n (server_os c) = (connFd, s)" by fastforce
  then have s: "nextPid s = nextPid (server_os c)"
    by (auto simp: sys_accept_def sys_socket_def Let_def split: if_splits)
  show ?thesis
  proof (cases "connFd < 0")
    case False
    with assms(2) acc obtain p s1 where fork: "forkOrReapUntilSuccess s = Inr (p, s1)"
      and c': "c' = c\<lparr>processes := (processes c)(p \<mapsto> new_process p connFd (listenFd c) ip port inputs s1),
                      server_os := sys_close connFd s1\<rparr>"
      by (auto simp: accept_connection_def split: sum.splits)
    from fork s have p: "p = nextPid (server_os c)" and s1: "nextPid s1 = Suc p"
      by (auto simp: forkOrReapUntilSuccess_def)
    have "knows p (None, -1) (shared c, memory (new_process p connFd (listenFd c) ip port inputs s1))"
      using ok p by (auto simp: knows_def owned_by_def new_process_def)
    then have "process_ok owner (shared c) p (new_process p connFd (listenFd c) ip port inputs s1)"
      using ok p by (intro in_main [of p "(None, -1)" False])
        (auto simp: new_process_def owned_by_def safe_serveClient)
    with ok p s1 show ?thesis
      unfolding c' owned_by_def by (auto simp: os_simps less_Suc_eq)
  qed (use assms acc in \<open>auto simp: accept_connection_def\<close>)
qed

lemma system_step_ok:
  assumes "system_ok c" and "system_step ev c = Some c'"
  shows "system_ok c'"
proof -
  from assms(1) obtain owner where ok: "owned_by owner c"
    by (auto simp: system_ok_def)
  have "\<exists>owner'. owned_by owner' c'"
  proof (cases ev)
    case (Run p)
    with run_process_ok [OF ok, of p c'] assms(2) show ?thesis
      by (auto simp: system_step_def allowed_def)
  next
    case (Deliver p)
    with deliver_ok [OF ok, of p c'] assms(2) show ?thesis
      by (auto simp: system_step_def allowed_def)
  next
    case (Accept n ip port inputs)
    with accept_ok [OF ok, of n ip port inputs c'] assms(2) show ?thesis
      by (auto simp: system_step_def)
  qed
  then show ?thesis by (simp add: system_ok_def)
qed

lemma started_ok: "started c \<Longrightarrow> system_ok c"
  unfolding system_ok_def
  by (rule exI [of _ None])
     (auto simp: started_def owned_by_def tables_ok_def slot_def initSharedMemory_def initial_user_def)

lemma reachable_ok: "reachable c0 c \<Longrightarrow> started c0 \<Longrightarrow> system_ok c"
  by (induction rule: reachable.induct) (auto intro: started_ok system_step_ok)

end
