(* ===== verification/Rwg_Shared_Theorems.thy ===== *)
theory Rwg_Shared_Theorems
  imports Rwg_Interleaving
begin

text \<open>
  The properties of the server with processes and shared memory: the tables and the lock in every
  interleaving, what a signal can break, that a process comes to its end, messages, and user pipes over
  FIFOs.
\<close>

section \<open>Events\<close>

lemma run_process_other: "run_process q c = Some c' \<Longrightarrow> p \<noteq> q \<Longrightarrow> processes c' p = processes c p"
  by (auto simp: run_process_def put_process_simps split: option.splits if_splits)

lemma deliver_other: "deliver q c = Some c' \<Longrightarrow> p \<noteq> q \<Longrightarrow> processes c' p = processes c p"
  by (auto simp: deliver_def Let_def put_process_simps split: option.splits if_splits)

lemma deliver_tables: "deliver q c = Some c' \<Longrightarrow> same_tables (shared c) (shared c')"
  by (auto simp: deliver_def Let_def put_process_simps same_tables_def split: option.splits if_splits)

lemma accept_shared: "accept_connection n ip port inputs c = Some c' \<Longrightarrow> shared c' = shared c"
  by (auto simp: accept_connection_def Let_def split: prod.splits if_splits sum.splits)

lemma accept_other:
  assumes "accept_connection n ip port inputs c = Some c'" and "p < nextPid (server_os c)"
  shows "processes c' p = processes c p" and "nextPid (server_os c) \<le> nextPid (server_os c')"
proof -
  obtain connFd s where acc: "sys_accept n (server_os c) = (connFd, s)" by fastforce
  then have "nextPid s = nextPid (server_os c)"
    by (auto simp: sys_accept_def sys_socket_def Let_def split: if_splits)
  then show "processes c' p = processes c p" "nextPid (server_os c) \<le> nextPid (server_os c')"
    using assms acc
    by (auto simp: accept_connection_def forkOrReapUntilSuccess_def os_simps split: if_splits sum.splits)
qed

lemma reachable_trans: "reachable c c' \<Longrightarrow> reachable c0 c \<Longrightarrow> reachable c0 c'"
  by (induction rule: reachable.induct) (auto intro: reachable.step)

lemma reachable_owned: "reachable c0 c \<Longrightarrow> started c0 \<Longrightarrow> \<exists>owner. owned_by owner c"
  using reachable_ok by (simp add: system_ok_def)

lemma owner_locked: "owned_by owner c \<Longrightarrow> locked (shared c) \<longleftrightarrow> owner \<noteq> None"
  by (simp add: owned_by_def)

lemma reachable_tables: "reachable c0 c \<Longrightarrow> started c0 \<Longrightarrow> tables_ok (shared c)"
  using reachable_owned by (auto simp: owned_by_def)

text \<open>A program that runs to its end alone does so as a sequence of events, too.\<close>

lemma put_process_twice: "put_process p a h (put_process p b h' c) = put_process p a h c"
  by (simp add: put_process_def)

lemma reachable_run:
  assumes "processes c p = Some pr" and "handler pr = None" and "main pr = bindP m f"
    and "run m (shared c, memory pr) = Some (Inr x, h, w)"
  shows "reachable c (put_process p (Some (pr\<lparr>main := f x, memory := w\<rparr>)) h c)"
  using assms
proof (induction m arbitrary: c pr)
  case (Return y)
  then have "put_process p (Some (pr\<lparr>main := f x, memory := w\<rparr>)) h c = c"
    by (auto simp: put_process_def fun_upd_idem)
  then show ?case by (simp add: reachable.start)
next
  case (Lock m)
  let ?c = "put_process p (Some (pr\<lparr>main := bindP m f\<rparr>)) ((shared c)\<lparr>locked := True\<rparr>) c"
  have "run_process p c = Some ?c"
    using Lock.prems by (auto simp: run_process_def split: if_splits)
  then have "reachable c ?c"
    by (auto intro: reachable.step [where ev = "Run p"] reachable.start simp: system_step_def)
  moreover have "reachable ?c (put_process p (Some (pr\<lparr>main := f x, memory := w\<rparr>)) h ?c)"
    using Lock.IH [of ?c "pr\<lparr>main := bindP m f\<rparr>"] Lock.prems
    by (auto simp: put_process_simps split: if_splits)
  ultimately show ?case
    by (auto simp: put_process_twice intro: reachable_trans)
next
  case (Unlock m)
  let ?c = "put_process p (Some (pr\<lparr>main := bindP m f\<rparr>)) ((shared c)\<lparr>locked := False\<rparr>) c"
  have "run_process p c = Some ?c"
    using Unlock.prems by (auto simp: run_process_def)
  then have "reachable c ?c"
    by (auto intro: reachable.step [where ev = "Run p"] reachable.start simp: system_step_def)
  moreover have "reachable ?c (put_process p (Some (pr\<lparr>main := f x, memory := w\<rparr>)) h ?c)"
    using Unlock.IH [of ?c "pr\<lparr>main := bindP m f\<rparr>"] Unlock.prems
    by (auto simp: put_process_simps)
  ultimately show ?case
    by (auto simp: put_process_twice intro: reachable_trans)
next
  case (Step u k)
  obtain h1 w1 where u: "u (shared c, memory pr) = (h1, w1)" by fastforce
  let ?pr = "pr\<lparr>main := bindP (k (shared c, memory pr)) f, memory := w1\<rparr>"
  let ?c = "put_process p (Some ?pr) h1 c"
  have "run_process p c = Some ?c"
    using Step.prems u by (auto simp: run_process_def)
  then have "reachable c ?c"
    by (auto intro: reachable.step [where ev = "Run p"] reachable.start simp: system_step_def)
  moreover have "reachable ?c (put_process p (Some (?pr\<lparr>main := f x, memory := w\<rparr>)) h ?c)"
    using Step.IH [of "k (shared c, memory pr)" ?c ?pr] Step.prems u
    by (auto simp: put_process_simps)
  ultimately show ?case
    by (auto simp: put_process_twice intro: reachable_trans)
qed simp

section \<open>The tables and the lock\<close>

text \<open>C9. In every state that the processes can reach, every entry in use is numbered by its place from 1 to
  30, its name and its queue of messages fit into their arrays, pipes exist only between users that are
  online, and no process has two entries.\<close>

theorem tables_invariant:
  assumes "started c0" and "reachable c0 c"
  shows "(\<forall>k. m_online (users (shared c) k) \<longrightarrow>
            1 \<le> k \<and> k \<le> 30 \<and> m_id (users (shared c) k) = k \<and>
            length (m_name (users (shared c) k)) < 64 \<and> length (messages (users (shared c) k)) \<le> 64 \<and>
            (\<forall>m \<in> set (messages (users (shared c) k)). length m < 2048)) \<and>
         (\<forall>a b. userPipeExists (shared c) a b \<longrightarrow>
            m_online (users (shared c) a) \<and> m_online (users (shared c) b)) \<and>
         (\<forall>j k. m_online (users (shared c) j) \<and> m_online (users (shared c) k) \<and>
            m_pid (users (shared c) j) = m_pid (users (shared c) k) \<longrightarrow> j = k)"
proof (intro conjI allI impI, goal_cases)
  case (1 k)
  with reachable_tables [OF assms(2,1)] have "user_ok k (users (shared c) k)"
    by (simp add: tables_ok_def)
  then show ?case by (simp add: user_ok_def)
next
  case (2 k)
  with reachable_tables [OF assms(2,1)] have "user_ok k (users (shared c) k)"
    by (simp add: tables_ok_def)
  then show ?case by (simp add: user_ok_def)
qed (use reachable_tables [OF assms(2,1)] in \<open>auto simp: tables_ok_def slot_def user_ok_def\<close>)

text \<open>C10. A step that changes the entries or the pipes is made by the one process that has the lock: while one
  process can make such a step, the lock is taken, and no other process can make one.\<close>

theorem lock_protects_tables:
  assumes "started c0" and "reachable c0 c"
    and "system_step (Run p) c = Some c1" and "\<not> same_tables (shared c) (shared c1)"
  shows "locked (shared c) \<and>
         (\<forall>ev c2. ev \<noteq> Run p \<longrightarrow> system_step ev c = Some c2 \<longrightarrow> same_tables (shared c) (shared c2))"
proof -
  from reachable_owned [OF assms(2,1)] obtain owner where ok: "owned_by owner c" by blast
  have run: "\<exists>owner'. allowed q owner c owner' c'" if "system_step (Run q) c = Some c'" for q c'
    using run_process_ok [OF ok] that by (simp add: system_step_def)
  from run [OF assms(3)] assms(4) have p: "owner = Some p"
    by (auto simp: allowed_def)
  have "same_tables (shared c) (shared c2)" if "ev \<noteq> Run p" "system_step ev c = Some c2" for ev c2
  proof (cases ev)
    case (Run q)
    with that run [of q c2] p show ?thesis by (auto simp: allowed_def)
  qed (use that in \<open>auto simp: system_step_def same_tables_def deliver_tables [unfolded same_tables_def]
        dest: accept_shared deliver_tables [unfolded same_tables_def]\<close>)
  with p owner_locked [OF ok] show ?thesis by simp
qed


section \<open>What a signal can break\<close>

text \<open>A process whose handler waits for the lock that the process itself has.\<close>

lemma frozen_step:
  assumes "owned_by (Some p) c" and "processes c p = Some pr" and "handler pr = Some (Lock m)"
    and "system_step ev c = Some c'"
  shows "owned_by (Some p) c' \<and> processes c' p = Some pr \<and> same_tables (shared c) (shared c')"
proof -
  have lock: "locked (shared c)"
    using owner_locked [OF assms(1)] by simp
  have fresh: "p < nextPid (server_os c)"
    using assms(1,2) by (simp add: owned_by_def)
  have stays: "\<exists>owner'. allowed q (Some p) c owner' c' \<Longrightarrow> q \<noteq> p \<Longrightarrow>
      owned_by (Some p) c' \<and> same_tables (shared c) (shared c')" for q
    by (auto simp: allowed_def)
  show ?thesis
  proof (cases ev)
    case (Run q)
    then have run: "run_process q c = Some c'"
      using assms(4) by (simp add: system_step_def)
    have "q \<noteq> p"
      using run assms(2,3) lock by (auto simp: run_process_def)
    with run_process_ok [OF assms(1) run] stays run_process_other [OF run] assms(2) show ?thesis by auto
  next
    case (Deliver q)
    then have run: "deliver q c = Some c'"
      using assms(4) by (simp add: system_step_def)
    have "q \<noteq> p"
      using run assms(2,3) by (auto simp: deliver_def Let_def split: if_splits)
    with deliver_ok [OF assms(1) run] stays deliver_other [OF run] assms(2) show ?thesis by auto
  next
    case (Accept n ip port inputs)
    then have run: "accept_connection n ip port inputs c = Some c'"
      using assms(4) by (simp add: system_step_def)
    with accept_ok [OF assms(1) run] accept_other [OF run fresh] accept_shared [OF run] assms(2)
    show ?thesis by (simp add: same_tables_def)
  qed
qed

lemma frozen:
  assumes "reachable c c'" and "owned_by (Some p) c" and "processes c p = Some pr" and "handler pr = Some (Lock m)"
  shows "owned_by (Some p) c' \<and> processes c' p = Some pr \<and> same_tables (shared c) (shared c')"
  using assms(1)
proof induction
  case (step c1 ev c2)
  with frozen_step [OF _ _ assms(4), of p c1 ev c2] show ?case by (auto simp: same_tables_def)
qed (use assms in \<open>auto simp: same_tables_def\<close>)

lemma owner_kept:
  assumes "allowed p owner c owner' c'" and "owner = None \<or> owner = Some p" and "locked (shared c')"
  shows "owned_by (Some p) c'"
proof -
  have ok: "owned_by owner' c'" and other: "\<forall>q. q \<noteq> p \<longrightarrow> (owner' = Some q \<longleftrightarrow> owner = Some q)"
    using assms(1) by (simp_all add: allowed_def)
  obtain q where q: "owner' = Some q"
    using owner_locked [OF ok] assms(3) by auto
  with other assms(2) have "q = p" by auto
  with ok q show ?thesis by simp
qed

lemma flush_first_step:
  assumes "1 \<le> currentUserId w" and "0 \<le> currentClientFd w"
  shows "step_prog flushPendingMessages (h, w) =
           Some (Lock (thenP (Return ()) (thenP (action flush_write) unlockShared)), h, w)"
    and "\<not> finished flushPendingMessages" and "\<not> failed flushPendingMessages"
  using assms
  by (simp_all add: flushPendingMessages_def asks_def local_def action_def lockShared_def)

text \<open>C37. A signal that arrives while its process is inside the lock stops the server for ever: the handler waits
  for the lock that only the interrupted process can give back. Whenever a process is about to take the
  free lock and a signal is pending for it, the server can get there, and in every later state the lock is
  taken and no entry and no pipe has changed.\<close>

theorem signal_inside_lock_deadlocks:
  assumes "started c0" and "reachable c0 c"
    and "processes c p = Some pr" and "main pr = Lock m" and "handler pr = None"
    and "handlerSet (memory pr)" and "1 \<le> currentUserId (memory pr)" and "0 \<le> currentClientFd (memory pr)"
    and "\<not> locked (shared c)" and "p \<in> set (pendingSignals (shared c))"
  shows "\<exists>c1. reachable c c1 \<and>
           (\<forall>c2. reachable c1 c2 \<longrightarrow> locked (shared c2) \<and> same_tables (shared c1) (shared c2))"
proof -
  let ?h1 = "(shared c)\<lparr>locked := True\<rparr>" and ?pr1 = "pr\<lparr>main := m\<rparr>"
  let ?h2 = "?h1\<lparr>pendingSignals := removeAll p (pendingSignals ?h1)\<rparr>"
    and ?pr2 = "?pr1\<lparr>handler := Some flushPendingMessages\<rparr>"
  let ?pr3 = "?pr2\<lparr>handler := Some (Lock (thenP (Return ()) (thenP (action flush_write) unlockShared)))\<rparr>"
  let ?c1 = "put_process p (Some ?pr1) ?h1 c" and ?c2 = "put_process p (Some ?pr2) ?h2 c"
    and ?c3 = "put_process p (Some ?pr3) ?h2 c"
  from reachable_owned [OF assms(2,1)] obtain owner where "owned_by owner c" by blast
  with assms(9) have own: "owned_by None c"
    using owner_locked [of owner c] by simp
  have s1: "run_process p c = Some ?c1"
    using assms by (simp add: run_process_def)
  have s2: "deliver p ?c1 = Some ?c2"
    using assms by (simp add: deliver_def put_process_def)
  have s3: "run_process p ?c2 = Some ?c3"
    using assms flush_first_step(1) [of "memory pr" ?h2] flush_first_step(2,3) by (simp add: run_process_def put_process_def)
  from run_process_ok [OF own s1] obtain o1 where "allowed p None c o1 ?c1" by blast
  from owner_kept [OF this] have o1: "owned_by (Some p) ?c1"
    by (simp add: put_process_simps)
  from deliver_ok [OF this s2] have o2: "owned_by (Some p) ?c2"
    by (simp add: allowed_def)
  from run_process_ok [OF this s3] obtain o3 where "allowed p (Some p) ?c2 o3 ?c3" by blast
  from owner_kept [OF this] have o3: "owned_by (Some p) ?c3"
    by (simp add: put_process_simps)
  have e: "system_step (Run p) c = Some ?c1" "system_step (Deliver p) ?c1 = Some ?c2"
    "system_step (Run p) ?c2 = Some ?c3"
    using s1 s2 s3 by (simp_all add: system_step_def)
  have "reachable c ?c3"
    by (rule reachable.step [OF reachable.step [OF reachable.step [OF reachable.start e(1)] e(2)] e(3)])
  moreover have "locked (shared c2) \<and> same_tables (shared ?c3) (shared c2)" if "reachable ?c3 c2" for c2
    using frozen [OF that o3] owner_locked [of "Some p" c2] by (simp add: put_process_simps)
  ultimately show ?thesis by blast
qed

text \<open>An entry whose process is gone stays in use.\<close>

lemma dead_entry_step:
  assumes "owned_by owner c" and "slot (shared c) k p"
    and "processes c p = None" and "p < nextPid (server_os c)" and "system_step ev c = Some c'"
  shows "slot (shared c') k p \<and> processes c' p = None \<and> p < nextPid (server_os c') \<and> (\<exists>owner'. owned_by owner' c')"
proof (cases ev)
  case (Run q)
  then have run: "run_process q c = Some c'"
    using assms(5) by (simp add: system_step_def)
  then have q: "p \<noteq> q"
    using assms(3) by (auto simp: run_process_def)
  from run_process_ok [OF assms(1) run] obtain owner' where "allowed q owner c owner' c'" by blast
  with q run_process_other [OF run q] assms(2-4) show ?thesis
    unfolding allowed_def by metis
next
  case (Deliver q)
  then have run: "deliver q c = Some c'"
    using assms(5) by (simp add: system_step_def)
  then have q: "p \<noteq> q"
    using assms(3) by (auto simp: deliver_def)
  from deliver_ok [OF assms(1) run] q deliver_other [OF run q] assms(2-4) show ?thesis
    unfolding allowed_def by metis
next
  case (Accept n ip port inputs)
  then have run: "accept_connection n ip port inputs c = Some c'"
    using assms(5) by (simp add: system_step_def)
  with accept_ok [OF assms(1) run] accept_other [OF run assms(4)] accept_shared [OF run] assms(2-4)
  show ?thesis by auto
qed

lemma dead_entry:
  assumes "reachable c c'" and "owned_by owner c" and "slot (shared c) k p"
    and "processes c p = None" and "p < nextPid (server_os c)"
  shows "slot (shared c') k p \<and> processes c' p = None \<and> p < nextPid (server_os c') \<and> (\<exists>owner'. owned_by owner' c')"
  using assms(1)
proof induction
  case (step c1 ev c2)
  then show ?case using dead_entry_step by blast
qed (use assms in blast)

text \<open>C38. A client whose process ends by an exception, or by a signal that arrives before the handler is
  installed, stays in the table for ever: in every later state its entry is in use, and it has no process.\<close>

theorem dead_user_stays_online:
  assumes "started c0" and "reachable c0 c"
    and "processes c p = Some pr" and "handler pr = None"
    and "m_online (users (shared c) k)" and "m_pid (users (shared c) k) = p"
    and "main pr = Fail e \<and> ev = Run p \<or>
         \<not> handlerSet (memory pr) \<and> p \<in> set (pendingSignals (shared c)) \<and> ev = Deliver p"
  shows "\<exists>c1. system_step ev c = Some c1 \<and>
           (\<forall>c2. reachable c1 c2 \<longrightarrow>
              m_online (users (shared c2) k) \<and> m_pid (users (shared c2) k) = p \<and> processes c2 p = None)"
proof -
  from reachable_owned [OF assms(2,1)] obtain owner where ok: "owned_by owner c" by blast
  have fresh: "p < nextPid (server_os c)"
    using ok assms(3) by (simp add: owned_by_def)
  obtain h where gone: "system_step ev c = Some (put_process p None h c)" and "users h = users (shared c)"
    using assms(3,4,7) by (auto simp: system_step_def run_process_def deliver_def)
  then have slot: "slot (shared (put_process p None h c)) k p"
    using assms(5,6) by (simp add: slot_def put_process_simps)
  from system_step_ok [OF _ gone] ok obtain owner' where ok': "owned_by owner' (put_process p None h c)"
    by (auto simp: system_ok_def)
  have "slot (shared c2) k p \<and> processes c2 p = None" if "reachable (put_process p None h c) c2" for c2
    using dead_entry [OF that ok' slot] fresh by (simp add: put_process_simps)
  with gone show ?thesis by (auto simp: slot_def)
qed

end
