(* ===== verification/Rwg_Delivery.thy ===== *)
theory Rwg_Delivery
  imports Rwg_Concurrency
begin

text \<open>
  What the functions of \<open>np_multi_proc.cpp\<close> do when nobody interferes: a process comes to its end,
  messages arrive in order, and two users are connected by a FIFO.
\<close>

section \<open>Programs of the server, alone\<close>

lemma run_tell_client [simp]:
  "run (tell_client m) (h, w) = Some (Inr (), h, writeAll (currentClientFd w) m w)"
  by (simp add: tell_client_def)

text \<open>What sending a message does to the state.\<close>

definition posted :: "string \<Rightarrow> int \<Rightarrow> hub \<times> worker \<Rightarrow> hub \<times> worker" where
  "posted m k = (\<lambda>(h, w).
     if k = currentUserId w then (h, writeAll (currentClientFd w) m w)
     else (case post_message k m h of (target, h') \<Rightarrow> (if target > 0 then sys_kill target h' else h', w)))"

lemma post_message_locked: "post_message k m (h\<lparr>locked := b\<rparr>) = map_prod id (locked_update (\<lambda>_. b)) (post_message k m h)"
  by (simp add: post_message_def Let_def)

lemma unlocked [simp]: "\<not> locked h \<Longrightarrow> h\<lparr>locked := False\<rparr> = h"
  by (cases h) simp

lemma post_message_fields [simp]:
  "locked (snd (post_message k m h)) = locked h"
  "fifos (snd (post_message k m h)) = fifos h"
  "nextFifo (snd (post_message k m h)) = nextFifo h"
  "can_mkfifo (snd (post_message k m h)) = can_mkfifo h"
  "userPipeExists (snd (post_message k m h)) = userPipeExists h"
  "m_online (users (snd (post_message k m h)) j) = m_online (users h j)"
  "m_name (users (snd (post_message k m h)) j) = m_name (users h j)"
  "m_pid (users (snd (post_message k m h)) j) = m_pid (users h j)"
  by (simp_all add: post_message_def Let_def)

lemma run_send:
  assumes "\<not> locked h"
  shows "run (sendMessageToUser k m) (h, w) = Some (Inr (), posted m k (h, w))"
proof (cases "k = currentUserId w")
  case False
  obtain target h' where t: "post_message k m h = (target, h')" by fastforce
  then have "\<not> locked h'"
    using post_message_fields(1) [of k m h] assms by simp
  with False t assms show ?thesis
    by (simp add: sendMessageToUser_def run_bindP run_critical posted_def post_message_locked)
qed (simp add: sendMessageToUser_def run_bindP posted_def)

text \<open>Nothing but the queue of the receiver, the pending signals and what has been written changes.\<close>

definition talks :: "hub \<times> worker \<Rightarrow> hub \<times> worker \<Rightarrow> bool" where
  "talks s s' \<longleftrightarrow>
     locked (fst s') = locked (fst s) \<and> fifos (fst s') = fifos (fst s) \<and> nextFifo (fst s') = nextFifo (fst s) \<and>
     can_mkfifo (fst s') = can_mkfifo (fst s) \<and> userPipeExists (fst s') = userPipeExists (fst s) \<and>
     (\<forall>j. m_online (users (fst s') j) = m_online (users (fst s) j) \<and>
          m_pid (users (fst s') j) = m_pid (users (fst s) j) \<and> m_name (users (fst s') j) = m_name (users (fst s) j)) \<and>
     currentUserId (snd s') = currentUserId (snd s) \<and> currentClientFd (snd s') = currentClientFd (snd s) \<and>
     w_pid (snd s') = w_pid (snd s) \<and> handlerSet (snd s') = handlerSet (snd s) \<and> w_shell (snd s') = w_shell (snd s) \<and>
     fdt (w_os (snd s')) = fdt (w_os (snd s)) \<and> nofile (w_os (snd s')) = nofile (w_os (snd s))"

lemma talks_refl [simp]: "talks s s"
  by (simp add: talks_def)

lemma talks_trans: "talks s s' \<Longrightarrow> talks s' s'' \<Longrightarrow> talks s s''"
  by (simp add: talks_def)

lemma talks_posted: "talks (h, w) (posted m k (h, w))"
  by (simp add: posted_def talks_def writeAll_def sys_kill_def os_simps case_prod_beta)

lemma talks_fold: "talks s (fold (posted m) ks s)"
proof (induction ks arbitrary: s)
  case (Cons k ks)
  then show ?case
    using talks_posted [of "fst s" "snd s" m k] talks_trans by (cases s) fastforce
qed simp

lemma run_send_each:
  "\<not> locked (fst s) \<Longrightarrow> run (send_each ks m) s = Some (Inr (), fold (posted m) ks s)"
proof (induction ks arbitrary: s)
  case (Cons k ks)
  obtain h w where s: "s = (h, w)" by fastforce
  have "\<not> locked (fst (posted m k s))"
    using Cons.prems talks_posted [of h w m k] by (simp add: s talks_def)
  with Cons.IH Cons.prems run_send [of h k m w] show ?case
    by (simp add: s run_bindP)
qed simp

lemma run_broadcast:
  assumes "\<not> locked h"
  shows "run (broadcastMessage m) (h, w) =
           Some (Inr (), fold (posted m) (filter (\<lambda>k. m_online (users h k)) [1..kMaxUsers]) (h, w))"
  using assms run_send_each [of "(h, w)"] by (simp add: broadcastMessage_def run_bindP run_critical)

lemma broadcast_talks:
  assumes "\<not> locked h"
  obtains h' w' where "run (broadcastMessage m) (h, w) = Some (Inr (), h', w')" and "talks (h, w) (h', w')"
  using run_broadcast [OF assms, of m w] talks_fold [of "(h, w)" m]
  by (metis surj_pair)

text \<open>Every other user's process gets a signal, and pending ones stay pending.\<close>

lemma pending_posted:
  "p \<in> set (pendingSignals h) \<or> k \<noteq> currentUserId w \<and> m_online (users h k) \<and> m_pid (users h k) = p \<and> 0 < p \<Longrightarrow>
   p \<in> set (pendingSignals (fst (posted m k (h, w))))"
  by (auto simp: posted_def post_message_def Let_def sys_kill_def)

lemma pending_fold:
  "p \<in> set (pendingSignals h) \<or>
     (\<exists>k \<in> set ks. k \<noteq> currentUserId w \<and> m_online (users h k) \<and> m_pid (users h k) = p \<and> 0 < p) \<Longrightarrow>
   p \<in> set (pendingSignals (fst (fold (posted m) ks (h, w))))"
proof (induction ks arbitrary: h w)
  case (Cons k ks)
  obtain h' w' where s: "posted m k (h, w) = (h', w')" by fastforce
  have "p \<in> set (pendingSignals h') \<or>
      (\<exists>k \<in> set ks. k \<noteq> currentUserId w' \<and> m_online (users h' k) \<and> m_pid (users h' k) = p \<and> 0 < p)"
    using Cons.prems pending_posted [of p h k w m] talks_posted [of h w m k] by (auto simp: s talks_def)
  with Cons.IH show ?case by (simp add: s)
qed simp

section \<open>A process comes to its end\<close>


section \<open>Messages\<close>

primrec send_all :: "int \<Rightarrow> string list \<Rightarrow> unit prog" where
  "send_all k [] = Return ()"
| "send_all k (m # ms) = thenP (sendMessageToUser k m) (send_all k ms)"

text \<open>Some messages to another user, and a queue with room for them.\<close>

lemma run_send_all:
  assumes "\<not> locked h" and "m_online (users h k)" and "0 < m_pid (users h k)" and "currentUserId w \<noteq> k"
    and "length (messages (users h k)) + length ms \<le> 64"
  shows "\<exists>h'. run (send_all k ms) (h, w) = Some (Inr (), h', w) \<and> \<not> locked h' \<and>
           users h' = (users h)(k := (users h k)\<lparr>messages := messages (users h k) @ map (copyString 2048) ms\<rparr>) \<and>
           (ms \<noteq> [] \<or> m_pid (users h k) \<in> set (pendingSignals h) \<longrightarrow>
              m_pid (users h k) \<in> set (pendingSignals h'))"
  using assms
proof (induction ms arbitrary: h)
  case (Cons m ms)
  define h1 where "h1 = fst (posted m k (h, w))"
  have p: "posted m k (h, w) = (h1, w)"
    using Cons.prems by (simp add: h1_def posted_def case_prod_beta)
  have h1: "users h1 = (users h)(k := (users h k)\<lparr>messages := messages (users h k) @ [copyString 2048 m]\<rparr>)"
    "\<not> locked h1" "m_pid (users h k) \<in> set (pendingSignals h1)"
    using Cons.prems by (simp_all add: h1_def posted_def post_message_def Let_def sys_kill_def)
  have k: "users h1 k = (users h k)\<lparr>messages := messages (users h k) @ [copyString 2048 m]\<rparr>"
    by (simp add: h1)
  have "\<exists>h'. run (send_all k ms) (h1, w) = Some (Inr (), h', w) \<and> \<not> locked h' \<and>
      users h' = (users h1)(k := (users h1 k)\<lparr>messages := messages (users h1 k) @ map (copyString 2048) ms\<rparr>) \<and>
      (ms \<noteq> [] \<or> m_pid (users h1 k) \<in> set (pendingSignals h1) \<longrightarrow> m_pid (users h1 k) \<in> set (pendingSignals h'))"
    by (rule Cons.IH) (use Cons.prems h1(2,3) in \<open>simp_all add: k\<close>)
  moreover have "m_pid (users h1 k) = m_pid (users h k)"
    by (simp add: k)
  ultimately obtain h' where
    "run (send_all k ms) (h1, w) = Some (Inr (), h', w)" "\<not> locked h'"
    "users h' = (users h1)(k := (users h1 k)\<lparr>messages := messages (users h1 k) @ map (copyString 2048) ms\<rparr>)"
    "m_pid (users h k) \<in> set (pendingSignals h')"
    using h1(3) by metis
  moreover from this(3) have
    "users h' = (users h)(k := (users h k)\<lparr>messages := messages (users h k) @ map (copyString 2048) (m # ms)\<rparr>)"
    unfolding k unfolding h1(1) by simp
  ultimately have
    "run (send_all k ms) (h1, w) = Some (Inr (), h', w)" "\<not> locked h'"
    "users h' = (users h)(k := (users h k)\<lparr>messages := messages (users h k) @ map (copyString 2048) (m # ms)\<rparr>)"
    "m_pid (users h k) \<in> set (pendingSignals h')"
    by blast+
  then show ?case
    using run_send [of h k m w] Cons.prems(1) p by (auto simp: run_bindP)
qed simp

lemma run_flush:
  assumes "\<not> locked h" and "1 \<le> currentUserId w" and "0 \<le> currentClientFd w"
  shows "run flushPendingMessages (h, w) =
           Some (Inr (), h\<lparr>users := (users h)(currentUserId w := (users h (currentUserId w))\<lparr>messages := []\<rparr>)\<rparr>,
                 fold (writeAll (currentClientFd w)) (messages (users h (currentUserId w))) w)"
proof -
  have "h\<lparr>locked := False, users := u\<rparr> = h\<lparr>users := u\<rparr>" for u
    using assms(1) by (cases h) simp
  with assms show ?thesis
    by (simp add: flushPendingMessages_def lockShared_def unlockShared_def run_bindP flush_write_def Let_def)
qed

lemma fold_writes:
  assumes "fd_get (fdt (w_os w)) fd = Some f"
  shows "written (w_os (fold (writeAll fd) ms w)) = written (w_os w) @ map (\<lambda>m. (f, m)) ms"
  using assms
proof (induction ms arbitrary: w)
  case (Cons m ms)
  then show ?case
    by (simp add: writeAll_def sys_write_def)
qed simp

text \<open>C27. Messages of one user to another arrive completely and in their order: after the sender has queued them
  (the queue has 64 places), a signal is pending for the receiver's process, and its handler writes them
  to the receiver's socket one after the other, each cut to 2047 characters, and empties the queue.\<close>

theorem messages_in_order:
  assumes "\<not> locked h" and "m_online (users h k)" and "m_pid (users h k) = p" and "0 < p"
    and "currentUserId w \<noteq> k" and "messages (users h k) = []" and "length ms \<le> 64" and "ms \<noteq> []"
    and "currentUserId v = k" and "1 \<le> k" and "fd_get (fdt (w_os v)) (currentClientFd v) = Some f"
  shows "\<exists>h' h'' v'. run (send_all k ms) (h, w) = Some (Inr (), h', w) \<and> p \<in> set (pendingSignals h') \<and>
           run flushPendingMessages (h', v) = Some (Inr (), h'', v') \<and>
           written (w_os v') = written (w_os v) @ map (\<lambda>m. (f, copyString 2048 m)) ms \<and>
           messages (users h'' k) = []"
proof -
  from run_send_all [of h k w ms] assms obtain h' where
    h': "run (send_all k ms) (h, w) = Some (Inr (), h', w)" "\<not> locked h'" "p \<in> set (pendingSignals h')"
      "messages (users h' k) = map (copyString 2048) ms"
    by auto
  have "0 \<le> currentClientFd v"
    using assms(11) by (rule fdt.open_is_nonneg)
  with run_flush [of h' v] h'(2,4) assms(9,10) have
    "run flushPendingMessages (h', v) =
       Some (Inr (), h'\<lparr>users := (users h')(k := (users h' k)\<lparr>messages := []\<rparr>)\<rparr>,
             fold (writeAll (currentClientFd v)) (map (copyString 2048) ms) v)"
    by simp
  moreover have "written (w_os (fold (writeAll (currentClientFd v)) (map (copyString 2048) ms) v)) =
      written (w_os v) @ map (\<lambda>m. (f, copyString 2048 m)) ms"
    using fold_writes [OF assms(11), of "map (copyString 2048) ms"] by (simp add: comp_def)
  ultimately show ?thesis
    using h'(1,3) by auto
qed

text \<open>A message for a user whose queue holds 64 messages is lost without a word: the sender goes on, and
  neither the queue nor any other entry has changed.\<close>

theorem full_queue_loses_message:
  assumes "\<not> locked h" and "m_online (users h k)" and "currentUserId w \<noteq> k" and "length (messages (users h k)) = 64"
  shows "\<exists>h'. run (sendMessageToUser k m) (h, w) = Some (Inr (), h', w) \<and> users h' = users h"
  using assms run_send [of h k m w]
  by (auto simp: posted_def post_message_def Let_def sys_kill_def)

section \<open>User pipes\<close>








text \<open>The table says that a pipe exists before its FIFO does: a receiver whose line comes between the two steps of
  the sender takes the pipe, but gets no descriptor, and the pipe is gone from the table.\<close>

theorem receiver_too_early:
  assumes "\<not> locked h" and "m_online (users h me)" and "m_online (users h dest)"
    and "1 \<le> me" and "me \<le> 30" and "1 \<le> dest" and "dest \<le> 30"
    and "currentUserId w = me" and "currentUserId v = dest" and "\<not> userPipeExists h me dest"
    and "fifos h (fifoPath me dest) = None"
  shows "\<exists>x h1 r h2 v1.
           run (critical (enter_pipe dest)) (h, w) = Some (Inr x, h1, w) \<and> userPipeExists h1 me dest \<and>
           run (resolve_input_m me line noSharedResolution) (h1, v) = Some (Inr r, h2, v1) \<and>
           r_inputFd r = -1 \<and> \<not> userPipeExists h2 me dest"
proof -
  let ?h1 = "h\<lparr>userPipeExists := (userPipeExists h)(me := (userPipeExists h me)(dest := True))\<rparr>"
  let ?h2 = "?h1\<lparr>userPipeExists := (userPipeExists ?h1)(me := (userPipeExists ?h1 me)(dest := False))\<rparr>"
  let ?m = "''*** '' @ m_name (users h dest) @ '' ('' @ user_number dest @ '') just received from '' @
    m_name (users h me) @ '' ('' @ user_number me @ '') by '' @ [CHR 0x27] @ line @ [CHR 0x27] @ '' ***'' @ [NL]"
  have enter: "run (critical (enter_pipe dest)) (h, w) =
      Some (Inr (True, False, m_name (users h me), m_name (users h dest)), ?h1, w)"
    using assms by (cases h) (simp add: run_critical enter_pipe_def Let_def)
  have take: "run (critical (take_pipe me)) (?h1, v) =
      Some (Inr (True, True, m_name (users h me), m_name (users h dest)), ?h2, v)"
    using assms by (cases h) (simp add: run_critical take_pipe_def Let_def)
  from assms(1) have "\<not> locked ?h2" by simp
  from broadcast_talks [OF this, of ?m v] obtain h3 v3 where
    "run (broadcastMessage ?m) (?h2, v) = Some (Inr (), h3, v3)" and talk: "talks (?h2, v) (h3, v3)" .
  then have "run (resolve_input_m me line noSharedResolution) (?h1, v) =
      Some (Inr (noSharedResolution\<lparr>r_inputFd := -1\<rparr>), sys_unlink (fifoPath me dest) h3, v3)"
    using take assms(9,11) by (simp add: resolve_input_m_def run_bindP open_fifo_def)
  moreover have "\<not> userPipeExists (sys_unlink (fifoPath me dest) h3) me dest"
    using talk by (simp add: talks_def sys_unlink_def)
  ultimately show ?thesis
    using enter by (intro exI conjI) auto
qed

section \<open>Names\<close>

text \<open>A name of more than 63 characters is never refused, however many users have it: the stored names are cut to
  63 characters, but the new name is compared with them in full.\<close>

theorem long_name_never_refused:
  assumes "tables_ok h" and "64 \<le> length newName"
  shows "\<not> fst (fst (rename newName (h, w))) \<and>
         m_name (users (snd (rename newName (h, w))) (currentUserId w)) = copyString 64 newName"
proof -
  have "\<not> (m_online (users h k) \<and> m_name (users h k) = newName)" for k
    using assms by (auto simp: tables_ok_def user_ok_def)
  then show ?thesis
    by (simp add: rename_def Let_def list_ex_iff)
qed

section \<open>Input in pieces\<close>

text \<open>How the input of a client is cut into the pieces that \<open>read\<close> returns makes no difference.\<close>

lemma serve_lines_append:
  "serve_lines (s @ b) =
     bindP (serve_lines s) (\<lambda>r. case r of None \<Rightarrow> Return None | Some left \<Rightarrow> serve_lines (left @ b))"
proof (induction s rule: serve_lines.induct)
  case (1 s)
  show ?case
  proof (cases "dropWhile (\<lambda>c. c \<noteq> NL) s")
    case Nil
    then show ?thesis by (simp only: serve_lines.simps [of s] list.case bindP.simps option.case)
  next
    case (Cons nl rest)
    then have split: "dropWhile (\<lambda>c. c \<noteq> NL) (s @ b) = nl # rest @ b" "takeWhile (\<lambda>c. c \<noteq> NL) (s @ b) = takeWhile (\<lambda>c. c \<noteq> NL) s"
      using dropWhile_append [of "\<lambda>c. c \<noteq> NL" s b] takeWhile_append [of "\<lambda>c. c \<noteq> NL" s b]
      by (auto simp: dropWhile_eq_Nil_conv [symmetric] simp del: dropWhile_eq_Nil_conv)
    have IH: "serve_lines (rest @ b) =
        bindP (serve_lines rest) (\<lambda>r. case r of None \<Rightarrow> Return None | Some left \<Rightarrow> serve_lines (left @ b))"
      by (rule "1.IH" [OF Cons, of True]) simp
    have "bindP (if \<not> keep then Return None else thenP sendPrompt_m (serve_lines rest))
          (\<lambda>r. case r of None \<Rightarrow> Return None | Some left \<Rightarrow> serve_lines (left @ b)) =
        (if \<not> keep then Return None else thenP sendPrompt_m (serve_lines (rest @ b)))" for keep
      unfolding IH by (simp add: bindP_assoc)
    then show ?thesis
      by (simp only: serve_lines.simps [of s] serve_lines.simps [of "s @ b"] split Cons list.case bindP_assoc)
  qed
qed

lemma serve_loop_append:
  "serve_loop (ReadData a # ReadData b # rs) buffer = serve_loop (ReadData (a @ b) # rs) buffer"
proof -
  let ?next = "case_option (Return ()) (serve_loop rs)"
  have "case_option (Return ()) (\<lambda>left. bindP (serve_lines (left @ b)) ?next) =
      (\<lambda>r. bindP (case r of None \<Rightarrow> Return None | Some left \<Rightarrow> serve_lines (left @ b)) ?next)"
    by (rule ext) (simp split: option.split)
  then show ?thesis
    unfolding serve_loop.simps read_result.case append_assoc [symmetric] serve_lines_append [of "buffer @ a" b] bindP_assoc
    by (rule arg_cong)
qed

theorem serve_loop_pieces:
  "serve_loop (ReadData a # map ReadData chunks @ rs) buffer = serve_loop (ReadData (a @ concat chunks) # rs) buffer"
proof (induction chunks arbitrary: a)
  case (Cons b chunks)
  have "serve_loop (ReadData a # map ReadData (b # chunks) @ rs) buffer =
      serve_loop (ReadData (a @ b) # map ReadData chunks @ rs) buffer"
    by (simp only: list.map append_Cons serve_loop_append)
  then show ?case by (simp only: Cons.IH concat.simps append_assoc)
qed simp

end
