(* ===== verification/Rwg_Examples.thy ===== *)
theory Rwg_Examples
  imports Rwg_Shared_Theorems Rwg_Delivery
begin

text \<open>
  The properties of the server with processes at concrete states. The states are reached by events from
  the start of the server: two clients connect, and the process of the first is stopped at the points
  where a signal of the second matters.
\<close>

definition example_os :: os where
  "example_os =
     \<lparr>fdt = [Some (Terminal 0), Some (Terminal 0), Some (Terminal 0), Some (Socket 0)], nextPipe = 0, nofile = 20,
      openable = (\<lambda>_. True), execable = (\<lambda>_ _. True), forks = [], polls = [], nextPid = 1, procs = [],
      waited = [], written = []\<rparr>"

definition example_start :: system where
  "example_start =
     \<lparr>shared = initSharedMemory (\<lambda>_. True) (\<lambda>_. None), processes = (\<lambda>_. None), listenFd = 3,
      server_os = example_os\<rparr>"

lemma started_example: "started example_start"
  by (auto simp: started_def example_start_def)

lemma upto_30: "[1..30::int] = 1 # 2 # [3..30]"
  by (simp add: upto_rec1)

lemma serve_nothing: "thenP (serve_loop [] []) m = m"
  by simp

text \<open>A process that has got its entry, and has not stored its number yet.\<close>

lemma reach_assigned:
  assumes "processes c p = Some (new_process p fd l ip port [] s)" and "\<not> locked (shared c)"
    and "find (\<lambda>k. \<not> m_online (users (shared c) k)) [1..30] = Some k" and "1 \<le> k"
  shows "\<exists>s'. reachable c (put_process p
           (Some \<lparr>memory = \<lparr>w_pid = p, currentUserId = -1, currentClientFd = fd, handlerSet = False,
                           w_shell = initialShellState, w_os = s'\<rparr>,
                  main = thenP (local (\<lambda>w. ((), w\<lparr>currentUserId := k\<rparr>))) (thenP greet (leave fd)),
                  handler = None\<rparr>)
           ((shared c)\<lparr>users := (users (shared c))(k := new_user k fd p ip port)\<rparr>) c)"
proof -
  let ?enter = "local (\<lambda>w. ((), w\<lparr>w_os := sys_close l (w_os w), currentClientFd := fd\<rparr>))"
  let ?w = "\<lparr>w_pid = p, currentUserId = -1, currentClientFd = fd, handlerSet = False,
      w_shell = initialShellState, w_os = sys_close l s\<rparr>"
  let ?h = "(shared c)\<lparr>users := (users (shared c))(k := new_user k fd p ip port)\<rparr>"
  let ?f = "\<lambda>k. thenP (local (\<lambda>w. ((), w\<lparr>currentUserId := k\<rparr>)))
      (if k < 0 then local (\<lambda>w. ((), w\<lparr>w_os := sys_close fd (w_os w)\<rparr>)) else thenP greet (leave fd))"
  have "(shared c)\<lparr>locked := False, users := u\<rparr> = (shared c)\<lparr>users := u\<rparr>" for u
    using assms(2) by (cases "shared c") simp
  then have "run (thenP ?enter (assignUser fd ip port)) (shared c, memory (new_process p fd l ip port [] s)) =
      Some (Inr k, ?h, ?w)"
    using assms(2,3) by (simp add: run_bindP assignUser_def run_critical assign_slot_def new_process_def)
  moreover have "main (new_process p fd l ip port [] s) = bindP (thenP ?enter (assignUser fd ip port)) ?f"
    unfolding new_process_def serveClient_def serve_nothing by (simp add: bindP_assoc)
  moreover have "handler (new_process p fd l ip port [] s) = None"
    by (simp add: new_process_def)
  ultimately have "reachable c (put_process p
      (Some ((new_process p fd l ip port [] s)\<lparr>main := ?f k, memory := ?w\<rparr>)) ?h c)"
    by (intro reachable_run [OF assms(1), of "thenP ?enter (assignUser fd ip port)" ?f k])
  moreover have "?f k = thenP (local (\<lambda>w. ((), w\<lparr>currentUserId := k\<rparr>))) (thenP greet (leave fd))"
    using assms(4) by simp
  ultimately show ?thesis
    by (auto simp: new_process_def)
qed

text \<open>The greeting: the handler is installed, and every other user gets a message and a signal.\<close>

lemma run_greet:
  assumes "\<not> locked h"
  obtains h' w' where "run greet (h, w) = Some (Inr (), h', w')" and "talks (h, w\<lparr>handlerSet := True\<rparr>) (h', w')"
    and "\<And>p k. 1 \<le> k \<Longrightarrow> k \<le> 30 \<Longrightarrow> k \<noteq> currentUserId w \<Longrightarrow> m_online (users h k) \<Longrightarrow> m_pid (users h k) = p \<Longrightarrow>
           0 < p \<Longrightarrow> p \<in> set (pendingSignals h')"
    and "\<And>p. p \<in> set (pendingSignals h) \<Longrightarrow> p \<in> set (pendingSignals h')"
proof -
  let ?w1 = "w\<lparr>handlerSet := True\<rparr>"
  let ?w2 = "writeAll (currentClientFd ?w1) kWelcome ?w1"
  let ?m = "''*** User '' @ [CHR 0x27] @ kDefaultName @ [CHR 0x27] @ '' entered from '' @
    endpoint_m (users h (currentUserId ?w2)) @ ''. ***'' @ [NL]"
  let ?ks = "filter (\<lambda>k. m_online (users h k)) [1..kMaxUsers]"
  obtain h1 w3 where fold: "fold (posted ?m) ?ks (h, ?w2) = (h1, w3)" by fastforce
  have w2: "currentUserId (writeAll fd m v) = currentUserId v" for fd m v
    by (simp add: writeAll_def)
  have talk: "talks (h, ?w2) (h1, w3)"
    using talks_fold [of "(h, ?w2)" ?m ?ks] unfolding fold .
  have pending: "p \<in> set (pendingSignals h) \<or>
      (\<exists>k \<in> set ?ks. k \<noteq> currentUserId ?w2 \<and> m_online (users h k) \<and> m_pid (users h k) = p \<and> 0 < p) \<Longrightarrow>
      p \<in> set (pendingSignals h1)" for p
    using pending_fold [of p h ?ks ?w2 ?m] unfolding fold fst_conv .
  have first: "talks (h, ?w1) (h, ?w2)"
    by (simp add: talks_def writeAll_def os_simps)
  have "run greet (h, w) = Some (Inr (), h1, writeAll (currentClientFd w3) ''% '' w3)"
    using run_broadcast [OF assms, of ?m ?w2] unfolding fold
    by (simp add: greet_def sendPrompt_m_def run_bindP)
  moreover have "talks (h, ?w1) (h1, writeAll (currentClientFd w3) ''% '' w3)"
    using talks_trans [OF first talk] by (simp add: talks_def writeAll_def os_simps)
  moreover have "p \<in> set (pendingSignals h1)" if "1 \<le> k" "k \<le> 30" "k \<noteq> currentUserId w" "m_online (users h k)"
      "m_pid (users h k) = p" "0 < p" for p k
    using pending [of p] that by (auto simp: w2)
  moreover have "p \<in> set (pendingSignals h1)" if "p \<in> set (pendingSignals h)" for p
    using pending [of p] that by simp
  ultimately show thesis
    by (rule that)
qed

text \<open>The process of the state above after the greeting.\<close>

lemma reach_greeted:
  assumes "processes c p = Some \<lparr>memory = w, main = thenP (local (\<lambda>w. ((), w\<lparr>currentUserId := k\<rparr>))) (thenP greet (leave fd)),
                                handler = None\<rparr>"
    and "\<not> locked (shared c)"
  shows "\<exists>h' w'. reachable c (put_process p (Some \<lparr>memory = w', main = leave fd, handler = None\<rparr>) h' c) \<and>
           talks (shared c, w\<lparr>currentUserId := k, handlerSet := True\<rparr>) (h', w') \<and>
           (\<forall>q j. 1 \<le> j \<and> j \<le> 30 \<and> j \<noteq> k \<and> m_online (users (shared c) j) \<and> m_pid (users (shared c) j) = q \<and> 0 < q \<longrightarrow>
              q \<in> set (pendingSignals h')) \<and>
           set (pendingSignals (shared c)) \<subseteq> set (pendingSignals h')"
proof -
  let ?set = "local (\<lambda>w. ((), w\<lparr>currentUserId := k\<rparr>))"
  obtain h' w' where
    run: "run greet (shared c, w\<lparr>currentUserId := k\<rparr>) = Some (Inr (), h', w')"
    and rest: "talks (shared c, w\<lparr>currentUserId := k, handlerSet := True\<rparr>) (h', w')"
      "\<forall>q j. 1 \<le> j \<and> j \<le> 30 \<and> j \<noteq> k \<and> m_online (users (shared c) j) \<and> m_pid (users (shared c) j) = q \<and> 0 < q \<longrightarrow>
         q \<in> set (pendingSignals h')"
      "set (pendingSignals (shared c)) \<subseteq> set (pendingSignals h')"
    by (rule run_greet [OF assms(2), of "w\<lparr>currentUserId := k\<rparr>"]) (auto simp: subset_iff)
  from run have "run (thenP ?set greet) (shared c, w) = Some (Inr (), h', w')"
    by (simp add: run_bindP)
  then have "reachable c (put_process p (Some (\<lparr>memory = w, main = thenP ?set (thenP greet (leave fd)),
      handler = None\<rparr>\<lparr>main := leave fd, memory := w'\<rparr>)) h' c)"
    by (intro reachable_run [OF assms(1), of "thenP ?set greet" "\<lambda>_. leave fd" "()"]) (simp_all add: bindP_assoc)
  with rest show ?thesis by auto
qed

section \<open>Two clients\<close>

definition example_os1 :: os where
  "example_os1 = example_os\<lparr>fdt := fdt example_os @ [Some (Socket 1)], nextPid := 2\<rparr>"

definition example_os2 :: os where
  "example_os2 = example_os\<lparr>fdt := fdt example_os @ [Some (Socket 2)], nextPid := 3\<rparr>"

definition example_one :: system where
  "example_one = example_start\<lparr>
     processes := (\<lambda>_. None)(1 \<mapsto> new_process 1 4 3 ''140.113.1.1'' 5001 [] example_os1),
     server_os := sys_close 4 example_os1\<rparr>"

lemma first_connection: "system_step (Accept 1 ''140.113.1.1'' 5001 []) example_start = Some example_one"
  by (simp add: system_step_def accept_connection_def example_one_def example_start_def example_os_def
      example_os1_def sys_accept_def sys_socket_def fd_lowest_def fd_put_def forkOrReapUntilSuccess_def numeral_2_eq_2)

lemma second_connection:
  assumes "server_os c = sys_close 4 example_os1" and "listenFd c = 3"
  shows "system_step (Accept 2 ''140.113.1.2'' 5002 []) c =
     Some (c\<lparr>processes := (processes c)(2 \<mapsto> new_process 2 4 3 ''140.113.1.2'' 5002 [] example_os2),
             server_os := sys_close 4 example_os2\<rparr>)"
  using assms
  by (simp add: system_step_def accept_connection_def example_os_def example_os1_def example_os2_def
      sys_close_def fd_close_def sys_accept_def sys_socket_def fd_lowest_def fd_put_def forkOrReapUntilSuccess_def
      numeral_2_eq_2 numeral_3_eq_3)

text \<open>
  The second client has entered and is about to leave; the process of the first has its entry, and has
  not installed its handler, but a signal is pending for it.
\<close>

lemma example_signalled:
  "\<exists>c w1 w2. reachable example_start c \<and> \<not> locked (shared c) \<and>
     processes c 1 = Some \<lparr>memory = w1, main = thenP (local (\<lambda>w. ((), w\<lparr>currentUserId := 1\<rparr>))) (thenP greet (leave 4)),
                            handler = None\<rparr> \<and>
     \<not> handlerSet w1 \<and> currentClientFd w1 = 4 \<and>
     processes c 2 = Some \<lparr>memory = w2, main = leave 4, handler = None\<rparr> \<and>
     m_online (users (shared c) 1) \<and> m_pid (users (shared c) 1) = 1 \<and> 1 \<in> set (pendingSignals (shared c))"
proof -
  let ?set = "\<lambda>k. local (\<lambda>w. ((), w\<lparr>currentUserId := k\<rparr>))"
  let ?w = "\<lambda>p s. \<lparr>w_pid = p, currentUserId = -1, currentClientFd = 4, handlerSet = False,
      w_shell = initialShellState, w_os = s\<rparr>"
  let ?pr = "\<lambda>k p s. \<lparr>memory = ?w p s, main = thenP (?set k) (thenP greet (leave 4)), handler = None\<rparr>"
  let ?h1 = "(shared example_start)\<lparr>users := (users (shared example_start))(1 := new_user 1 4 1 ''140.113.1.1'' 5001)\<rparr>"
  have users0: "users (shared example_start) = initial_user" "\<not> locked (shared example_start)"
    by (simp_all add: example_start_def initSharedMemory_def)
  have find1: "find (\<lambda>k. \<not> m_online (users (shared example_one) k)) [1..30] = Some 1"
    by (simp add: example_one_def users0 upto_30 initial_user_def)
  have "processes example_one 1 = Some (new_process 1 4 3 ''140.113.1.1'' 5001 [] example_os1)" "shared example_one = shared example_start"
    by (simp_all add: example_one_def)
  from reach_assigned [OF this(1) _ find1] this(2) users0 obtain s1 where
    r1: "reachable example_one (put_process 1 (Some (?pr 1 1 s1)) ?h1 example_one)"
    by auto
  let ?c1 = "put_process 1 (Some (?pr 1 1 s1)) ?h1 example_one"
  let ?c2 = "?c1\<lparr>processes := (processes ?c1)(2 \<mapsto> new_process 2 4 3 ''140.113.1.2'' 5002 [] example_os2),
      server_os := sys_close 4 example_os2\<rparr>"
  have r2: "system_step (Accept 2 ''140.113.1.2'' 5002 []) ?c1 = Some ?c2"
    by (rule second_connection) (simp_all add: put_process_def example_one_def example_start_def)
  let ?h2 = "?h1\<lparr>users := (users ?h1)(2 := new_user 2 4 2 ''140.113.1.2'' 5002)\<rparr>"
  have shared2: "shared ?c2 = ?h1" by (simp add: put_process_def)
  have find2: "find (\<lambda>k. \<not> m_online (users (shared ?c2) k)) [1..30] = Some 2"
    unfolding shared2 by (simp add: users0 upto_30 initial_user_def new_user_def)
  have "processes ?c2 2 = Some (new_process 2 4 3 ''140.113.1.2'' 5002 [] example_os2)" by simp
  from reach_assigned [OF this _ find2] obtain s2 where
    r3: "reachable ?c2 (put_process 2 (Some (?pr 2 2 s2)) ?h2 ?c2)"
    unfolding shared2 using users0 by auto
  let ?c3 = "put_process 2 (Some (?pr 2 2 s2)) ?h2 ?c2"
  have shared3: "shared ?c3 = ?h2" "\<not> locked (shared ?c3)" by (simp_all add: put_process_def users0)
  have "processes ?c3 2 = Some (?pr 2 2 s2)" by (simp add: put_process_def)
  from reach_greeted [OF this shared3(2)] obtain h4 w4 where
    r4: "reachable ?c3 (put_process 2 (Some \<lparr>memory = w4, main = leave 4, handler = None\<rparr>) h4 ?c3)"
    and talk: "talks (shared ?c3, (?w 2 s2)\<lparr>currentUserId := 2, handlerSet := True\<rparr>) (h4, w4)"
    and signals: "\<forall>q j. 1 \<le> j \<and> j \<le> 30 \<and> j \<noteq> 2 \<and> m_online (users (shared ?c3) j) \<and> m_pid (users (shared ?c3) j) = q \<and> 0 < q \<longrightarrow>
       q \<in> set (pendingSignals h4)"
    by blast
  let ?c4 = "put_process 2 (Some \<lparr>memory = w4, main = leave 4, handler = None\<rparr>) h4 ?c3"
  have first_user: "m_online (users ?h2 1)" "m_pid (users ?h2 1) = 1"
    by (simp_all add: new_user_def)
  have "reachable example_start ?c1"
    by (rule reachable_trans [OF r1 reachable.step [OF reachable.start first_connection]])
  then have "reachable example_start ?c4"
    by (intro reachable_trans [OF r4] reachable_trans [OF r3] reachable.step [OF _ r2])
  moreover have "processes ?c4 1 = Some (?pr 1 1 s1)" "processes ?c4 2 = Some \<lparr>memory = w4, main = leave 4, handler = None\<rparr>"
    by (simp_all add: put_process_def)
  moreover have "\<not> locked (shared ?c4)" "m_online (users (shared ?c4) 1)" "m_pid (users (shared ?c4) 1) = 1"
    using talk shared3 first_user by (simp_all add: talks_def put_process_simps)
  moreover have "1 \<in> set (pendingSignals (shared ?c4))"
    using signals [rule_format, of 1 1] first_user unfolding shared3(1) put_process_simps(1) by simp
  ultimately show ?thesis
    by (intro exI [of _ ?c4] exI [of _ "?w 1 s1"] exI [of _ w4]) simp
qed

section \<open>The properties at these states\<close>

theorem tables_invariant_instance:
  "\<exists>c. reachable example_start c \<and> m_online (users (shared c) 1) \<and> m_id (users (shared c) 1) = 1 \<and>
       length (messages (users (shared c) 1)) \<le> 64"
proof -
  from example_signalled obtain c where c: "reachable example_start c" "m_online (users (shared c) 1)"
    by blast
  with tables_invariant [OF started_example c(1)] show ?thesis by blast
qed

theorem dead_user_stays_online_instance:
  "\<exists>c c1. reachable example_start c \<and> system_step (Deliver 1) c = Some c1 \<and>
     (\<forall>c2. reachable c1 c2 \<longrightarrow> m_online (users (shared c2) 1) \<and> processes c2 1 = None)"
proof -
  from example_signalled obtain c w1 m where c: "reachable example_start c"
    "processes c 1 = Some \<lparr>memory = w1, main = m, handler = None\<rparr>" "\<not> handlerSet w1"
    "m_online (users (shared c) 1)" "m_pid (users (shared c) 1) = 1" "1 \<in> set (pendingSignals (shared c))"
    by blast
  from dead_user_stays_online [OF started_example c(1,2) _ c(4,5), of undefined "Deliver 1"] c(3,6)
  show ?thesis using c(1) by auto
qed

lemma run_close_shell:
  "\<exists>s. run (local (\<lambda>w. let (st, s) = closeShellState (w_shell w) (w_os w) in ((), w\<lparr>w_shell := st, w_os := s\<rparr>))) (h, w) =
         Some (Inr (), h, w\<lparr>w_shell := (w_shell w)\<lparr>numberedPipes := []\<rparr>, w_os := s\<rparr>)"
  by (rule exI [of _ "snd (closeShellState (w_shell w) (w_os w))"]) (simp add: closeShellState_def)

text \<open>The process of the first client is about to take the lock when it leaves.\<close>

theorem signal_inside_lock_deadlocks_instance:
  "\<exists>c c1. reachable example_start c \<and> reachable c c1 \<and>
     (\<forall>c2. reachable c1 c2 \<longrightarrow> locked (shared c2) \<and> same_tables (shared c1) (shared c2))"
proof -
  let ?shell = "local (\<lambda>w. let (st, s) = closeShellState (w_shell w) (w_os w) in ((), w\<lparr>w_shell := st, w_os := s\<rparr>))"
  let ?rest = "\<lambda>me. thenP (cleanupUser me True) (local (\<lambda>w. ((), w\<lparr>w_os := sys_close 4 (w_os w)\<rparr>)))"
  from example_signalled obtain c w1 where c: "reachable example_start c" "\<not> locked (shared c)"
    "processes c 1 = Some \<lparr>memory = w1, main = thenP (local (\<lambda>w. ((), w\<lparr>currentUserId := 1\<rparr>))) (thenP greet (leave 4)),
                           handler = None\<rparr>"
    "currentClientFd w1 = 4" "1 \<in> set (pendingSignals (shared c))"
    by blast
  from reach_greeted [OF c(3,2)] obtain h w where
    r1: "reachable c (put_process 1 (Some \<lparr>memory = w, main = leave 4, handler = None\<rparr>) h c)"
    and talk: "talks (shared c, w1\<lparr>currentUserId := 1, handlerSet := True\<rparr>) (h, w)"
    and signals: "set (pendingSignals (shared c)) \<subseteq> set (pendingSignals h)"
    by blast
  let ?c1 = "put_process 1 (Some \<lparr>memory = w, main = leave 4, handler = None\<rparr>) h c"
  have w: "currentUserId w = 1" "handlerSet w" "currentClientFd w = 4" "\<not> locked h"
    using talk c(2,4) by (simp_all add: talks_def)
  from run_close_shell obtain s where
    shell: "run ?shell (h, w) = Some (Inr (), h, w\<lparr>w_shell := (w_shell w)\<lparr>numberedPipes := []\<rparr>, w_os := s\<rparr>)" by blast
  let ?w2 = "w\<lparr>w_shell := (w_shell w)\<lparr>numberedPipes := []\<rparr>, w_os := s\<rparr>"
  have run: "run (thenP ?shell (asks currentUserId)) (h, w) = Some (Inr 1, h, ?w2)"
    unfolding run_bindP shell by (simp add: w)
  have leave: "leave 4 = bindP (thenP ?shell (asks currentUserId)) ?rest"
    by (simp add: leave_def bindP_assoc)
  let ?pr = "\<lparr>memory = ?w2, main = ?rest 1, handler = None\<rparr>"
  have r2: "reachable ?c1 (put_process 1 (Some ?pr) h ?c1)"
    using reachable_run [of ?c1 1 "\<lparr>memory = w, main = leave 4, handler = None\<rparr>"
        "thenP ?shell (asks currentUserId)" ?rest 1 h ?w2] run leave
    by (simp add: put_process_simps)
  have "reachable example_start (put_process 1 (Some ?pr) h ?c1)"
    by (rule reachable_trans [OF r2 reachable_trans [OF r1 c(1)]])
  moreover obtain m where "?rest 1 = Lock m"
    by (simp add: cleanupUser_def critical_def lockShared_def)
  ultimately show ?thesis
    using signal_inside_lock_deadlocks [OF started_example, of "put_process 1 (Some ?pr) h ?c1" 1 ?pr m] w c(5) signals
    by (auto simp: put_process_simps)
qed




text \<open>A process inside \<open>assignUser\<close>.\<close>

lemma example_entering:
  "\<exists>c c1. reachable example_start c \<and> system_step (Run 1) c = Some c1 \<and> \<not> same_tables (shared c) (shared c1)"
proof -
  let ?w = "\<lparr>w_pid = 1, currentUserId = -1, currentClientFd = 4, handlerSet = False,
      w_shell = initialShellState, w_os = sys_close 3 example_os1\<rparr>"
  let ?set = "\<lambda>w. ((), w\<lparr>w_os := sys_close 3 (w_os w), currentClientFd := 4\<rparr>)"
  let ?body = "action (\<lambda>(h, w). let (x, h') = assign_slot 4 ''140.113.1.1'' 5001 (h, w) in (x, h', w))"
  obtain f where main: "serveClient 4 3 ''140.113.1.1'' 5001 [] = bindP (thenP (local ?set) lockShared) (\<lambda>_. bindP ?body f)"
    by (simp add: serveClient_def assignUser_def critical_def bindP_assoc)
  have one: "processes example_one 1 = Some (new_process 1 4 3 ''140.113.1.1'' 5001 [] example_os1)"
    by (simp add: example_one_def)
  have shared: "shared example_one = initSharedMemory (\<lambda>_. True) (\<lambda>_. None)"
    by (simp add: example_one_def example_start_def)
  let ?h = "(shared example_one)\<lparr>locked := True\<rparr>"
  have "run (thenP (local ?set) lockShared) (shared example_one, memory (new_process 1 4 3 ''140.113.1.1'' 5001 [] example_os1)) =
      Some (Inr (), ?h, ?w)"
    by (simp add: run_bindP lockShared_def new_process_def shared initSharedMemory_def)
  moreover have "main (new_process 1 4 3 ''140.113.1.1'' 5001 [] example_os1) =
      bindP (thenP (local ?set) lockShared) (\<lambda>_. bindP ?body f)"
    using main by (simp only: new_process_def process.simps)
  moreover have "handler (new_process 1 4 3 ''140.113.1.1'' 5001 [] example_os1) = None"
    by (simp add: new_process_def)
  ultimately have "reachable example_one (put_process 1
      (Some ((new_process 1 4 3 ''140.113.1.1'' 5001 [] example_os1)\<lparr>main := bindP ?body f, memory := ?w\<rparr>)) ?h example_one)"
    by (intro reachable_run [OF one, of "thenP (local ?set) lockShared" "\<lambda>_. bindP ?body f" "()"])
  then have r: "reachable example_one (put_process 1 (Some \<lparr>memory = ?w, main = bindP ?body f, handler = None\<rparr>) ?h example_one)"
    by (simp only: new_process_def process.simps)
  let ?c = "put_process 1 (Some \<lparr>memory = ?w, main = bindP ?body f, handler = None\<rparr>) ?h example_one"
  have "users (shared example_one) 1 \<noteq> new_user 1 4 1 ''140.113.1.1'' 5001"
    by (simp add: shared initSharedMemory_def initial_user_def new_user_def)
  moreover have "find (\<lambda>k. \<not> m_online (users ?h k)) [1..30] = Some 1"
    by (simp add: shared initSharedMemory_def initial_user_def upto_30)
  ultimately have "\<exists>c1. run_process 1 ?c = Some c1 \<and> \<not> same_tables (shared ?c) (shared c1)"
    by (simp add: run_process_def put_process_simps action_def assign_slot_def same_tables_def fun_upd_idem_iff)
  moreover have "reachable example_start ?c"
    by (rule reachable_trans [OF r reachable.step [OF reachable.start first_connection]])
  ultimately show ?thesis by (auto simp: system_step_def)
qed

theorem lock_protects_tables_instance:
  "\<exists>c c1. reachable example_start c \<and> system_step (Run 1) c = Some c1 \<and>
     \<not> same_tables (shared c) (shared c1) \<and> locked (shared c)"
proof -
  from example_entering obtain c c1 where c: "reachable example_start c" "system_step (Run 1) c = Some c1"
    "\<not> same_tables (shared c) (shared c1)"
    by blast
  from lock_protects_tables [OF started_example c] c show ?thesis by blast
qed

section \<open>Two users, and nobody interfering\<close>

definition example_worker :: "nat \<Rightarrow> int \<Rightarrow> worker" where
  "example_worker p k =
     \<lparr>w_pid = p, currentUserId = k, currentClientFd = 4, handlerSet = True, w_shell = initialShellState,
      w_os = example_os1\<rparr>"

definition example_hub :: hub where
  "example_hub = (initSharedMemory (\<lambda>_. True) (\<lambda>_. None))\<lparr>users :=
     initial_user(1 := new_user 1 4 11 ''140.113.1.1'' 5001, 2 := new_user 2 4 12 ''140.113.1.2'' 5002)\<rparr>"

lemma example_hub_simps:
  "\<not> locked example_hub" "m_online (users example_hub 1)" "m_online (users example_hub 2)"
  "m_pid (users example_hub 1) = 11" "messages (users example_hub 1) = []" "can_mkfifo example_hub path"
  "\<not> userPipeExists example_hub a b" "fifos example_hub path = None" "nextFifo example_hub = 0"
  by (simp_all add: example_hub_def initSharedMemory_def new_user_def)

lemma example_worker_simps:
  "currentUserId (example_worker p k) = k" "currentClientFd (example_worker p k) = 4"
  "Suc (length (fdt (w_os (example_worker p k)))) < nofile (w_os (example_worker p k))"
  "fd_get (fdt (w_os (example_worker p k))) 4 = Some (Socket 1)" "written (w_os (example_worker p k)) = []"
  by (simp_all add: example_worker_def example_os1_def example_os_def fd_get_def)


theorem messages_in_order_instance:
  "\<exists>h' h'' v'. run (send_all 1 [''a'', ''b'']) (example_hub, example_worker 12 2) = Some (Inr (), h', example_worker 12 2) \<and>
     11 \<in> set (pendingSignals h') \<and>
     run flushPendingMessages (h', example_worker 11 1) = Some (Inr (), h'', v') \<and>
     written (w_os v') = [(Socket 1, ''a''), (Socket 1, ''b'')]"
proof -
  have "copyString 2048 ''a'' = ''a''" "copyString 2048 ''b'' = ''b''"
    by (simp_all add: copyString_def)
  then show ?thesis
    using messages_in_order [of example_hub 1 11 "example_worker 12 2" "[''a'', ''b'']" "example_worker 11 1" "Socket 1"]
    by (simp add: example_hub_simps example_worker_simps del: send_all.simps) blast
qed


theorem receiver_too_early_instance:
  "\<exists>x h1 r h2 v1.
     run (critical (enter_pipe 2)) (example_hub, example_worker 11 1) = Some (Inr x, h1, example_worker 11 1) \<and>
     run (resolve_input_m 1 ''cat <1'' noSharedResolution) (h1, example_worker 12 2) = Some (Inr r, h2, v1) \<and>
     r_inputFd r = -1 \<and> \<not> userPipeExists h2 1 2"
  using receiver_too_early [of example_hub 1 2 "example_worker 11 1" "example_worker 12 2" "''cat <1''"]
  by (simp add: example_hub_simps example_worker_simps) blast

theorem long_name_never_refused_instance:
  "\<not> fst (fst (rename (replicate 70 CHR ''a'') (initSharedMemory (\<lambda>_. True) (\<lambda>_. None), example_worker 11 1)))"
proof -
  have "tables_ok (initSharedMemory (\<lambda>_. True) (\<lambda>_. None))"
    by (simp add: tables_ok_def slot_def initSharedMemory_def initial_user_def)
  then show ?thesis
    using long_name_never_refused [of "initSharedMemory (\<lambda>_. True) (\<lambda>_. None)" "replicate 70 CHR ''a''" "example_worker 11 1"]
    by simp
qed

end
