(* ===== verification/Rwg_Shutdown.thy ===== *)
theory Rwg_Shutdown
  imports Rwg_Examples Listen
begin

text \<open>
  The start and the end of the server with processes, \<open>np_multi_proc.cpp\<close>: \<open>main\<close> and \<open>runServer\<close> up to the
  loop, \<open>cleanupSharedMemory\<close> and \<open>handleSigint\<close>. The global variables \<open>sharedState\<close>, \<open>shmId\<close> and \<open>parentPid\<close> are a record;
  whether the segment of shared memory exists is part of it, since it outlives the process.
\<close>

section \<open>Start\<close>

record globals =
  attached :: bool
  shmId :: int
  parentPid :: int
  segment_exists :: bool

definition no_globals :: globals where
  "no_globals = \<lparr>attached = False, shmId = -1, parentPid = -1, segment_exists = False\<rparr>"

text \<open>The outcomes of \<open>shmget\<close> and \<open>shmat\<close>. The files are the FIFOs that exist and those that can be created.\<close>

record memory_outcome =
  shmget_id :: int
  shmat_ok :: bool

definition attachSharedMemory :: "memory_outcome \<Rightarrow> globals \<Rightarrow> globals \<times> bool" where
  "attachSharedMemory m g =
     (let g1 = g\<lparr>shmId := shmget_id m\<rparr>
      in if shmget_id m < 0 then (g1, False)
         else (let g2 = g1\<lparr>segment_exists := True\<rparr>
               in if \<not> shmat_ok m then (g2, False) else (g2\<lparr>attached := True\<rparr>, True)))"

text \<open>The result of a failure is the state of the variables when the process exits with status 1.\<close>

definition start_multi ::
  "tcp_network \<Rightarrow> memory_outcome \<Rightarrow> (string \<Rightarrow> bool) \<Rightarrow> (string \<Rightarrow> nat option) \<Rightarrow> int \<Rightarrow> int \<Rightarrow> os \<Rightarrow> globals + (globals \<times> system)" where
  "start_multi net m creatable existing me port s =
     (let (g, ok) = attachSharedMemory m (no_globals\<lparr>parentPid := me\<rparr>)
      in if \<not> ok then Inl g
         else
           (case createListenSocket_rwg net port s of
              Inl _ \<Rightarrow> Inl g
            | Inr (fd, s1) \<Rightarrow>
                Inr (g, \<lparr>shared = initSharedMemory creatable existing, processes = (\<lambda>_. None),
                         listenFd = fd, server_os = s1\<rparr>)))"

text \<open>A failure before that exits without any segment.\<close>

definition np_multi_main ::
  "tcp_network \<Rightarrow> memory_outcome \<Rightarrow> (string \<Rightarrow> bool) \<Rightarrow> (string \<Rightarrow> nat option) \<Rightarrow> int \<Rightarrow> string list \<Rightarrow> os \<Rightarrow>
   globals + (globals \<times> system)" where
  "np_multi_main net m creatable existing me args s =
     (if length args \<noteq> 2 then Inl no_globals
      else (case stoi (args ! 1) of
              Inl _ \<Rightarrow> Inl no_globals
            | Inr port \<Rightarrow> start_multi net m creatable existing me port s))"

section \<open>End\<close>




section \<open>Lemmas\<close>






section \<open>Properties\<close>


text \<open>A server that cannot listen leaves its segment of shared memory behind.\<close>

lemma failed_start_leaks_segment:
  assumes "0 \<le> shmget_id m" and "shmat_ok m" and "createListenSocket_rwg net port s = Inl s'"
  shows "\<exists>g. start_multi net m creatable existing me port s = Inl g \<and> segment_exists g \<and> shmId g = shmget_id m"
  using assms by (simp add: start_multi_def attachSharedMemory_def)


end
