(* ===== verification/Console_Text.thy ===== *)
theory Console_Text
  imports Prelude "HOL-Library.List_Lexorder"
begin

text \<open>
  The text functions of the consoles of \<open>projects/03-http-cgi-console\<close> (\<open>console_components.cpp\<close>, names
  ending in 3) and \<open>projects/04-socks-proxy\<close> (\<open>console_components.hpp\<close>, names ending in 4): decoding
  of query strings, the sessions they name, and escaping for HTML and JavaScript. The lemmas show that
  the two projects decode alike, that a query printed from sessions gives the sessions back, and that
  an escaped text cannot leave the JavaScript string it is written into and has the value of the text.
\<close>

section \<open>Decoding\<close>

definition isxdigit :: "char \<Rightarrow> bool" where
  "isxdigit c \<longleftrightarrow> (let n = (of_char c :: nat) in
     48 \<le> n \<and> n \<le> 57 \<or> 65 \<le> n \<and> n \<le> 70 \<or> 97 \<le> n \<and> n \<le> 102)"

text \<open>\<open>std::strtol\<close> with base 16 on two hexadecimal digits.\<close>

definition xdigit_val :: "char \<Rightarrow> nat" where
  "xdigit_val c = (let n = (of_char c :: nat) in
     if n \<le> 57 then n - 48 else if n \<le> 70 then n - 55 else n - 87)"

fun url_decode3 :: "string \<Rightarrow> string" where
  "url_decode3 [] = []"
| "url_decode3 (c # rest) =
     (case rest of
        a # b # rest' \<Rightarrow>
          if c = CHR ''%'' \<and> isxdigit a \<and> isxdigit b
          then char_of (16 * xdigit_val a + xdigit_val b) # url_decode3 rest'
          else (if c = CHR ''+'' then CHR '' '' else c) # url_decode3 rest
      | _ \<Rightarrow> (if c = CHR ''+'' then CHR '' '' else c) # url_decode3 rest)"

definition tolower :: "char \<Rightarrow> char" where
  "tolower c = (let n = (of_char c :: nat) in if 65 \<le> n \<and> n \<le> 90 then char_of (n + 32) else c)"

definition hex_value :: "char \<Rightarrow> int" where
  "hex_value ch =
     (let n = int (of_char ch); m = int (of_char (tolower ch))
      in if 48 \<le> n \<and> n \<le> 57 then n - 48
         else if 97 \<le> m \<and> m \<le> 102 then m - 97 + 10
         else -1)"

fun url_decode4 :: "string \<Rightarrow> string" where
  "url_decode4 [] = []"
| "url_decode4 (c # rest) =
     (if c = CHR ''+'' then CHR '' '' # url_decode4 rest
      else
        (case rest of
           a # b # rest' \<Rightarrow>
             if c = CHR ''%'' \<and> hex_value a \<ge> 0 \<and> hex_value b \<ge> 0
             then char_of (nat (or (push_bit 4 (hex_value a)) (hex_value b))) # url_decode4 rest'
             else c # url_decode4 rest
         | _ \<Rightarrow> c # url_decode4 rest))"

section \<open>Queries\<close>

function parse_query_loop ::
  "(string \<Rightarrow> string) \<Rightarrow> (string \<times> string) list \<Rightarrow> string \<Rightarrow> (string \<times> string) list" where
  "parse_query_loop decode params query =
     (let item = takeWhile (\<lambda>c. c \<noteq> CHR ''&'') query;
          key = decode (takeWhile (\<lambda>c. c \<noteq> CHR ''='') item);
          value = (case dropWhile (\<lambda>c. c \<noteq> CHR ''='') item of [] \<Rightarrow> [] | _ # v \<Rightarrow> decode v);
          params' = (if item \<noteq> [] then map_insert key value params else params)
      in case dropWhile (\<lambda>c. c \<noteq> CHR ''&'') query of
           [] \<Rightarrow> params'
         | _ # rest \<Rightarrow> parse_query_loop decode params' rest)"
  by pat_completeness auto
termination
proof (relation "measure (\<lambda>(_, _, q). length q)", goal_cases)
  case 1
  then show ?case by simp
next
  case (2 decode params query item key val params' x rest)
  then show ?case using length_dropWhile_le [of "\<lambda>c. c \<noteq> CHR ''&''" query] by simp
qed

declare parse_query_loop.simps [simp del]

definition parse_query_map :: "string \<Rightarrow> (string \<times> string) list" where
  "parse_query_map query = parse_query_loop url_decode3 [] query"

definition parse_query_params :: "string \<Rightarrow> (string \<times> string) list" where
  "parse_query_params query = parse_query_loop url_decode4 [] query"

record RemoteSessionConfig =
  host :: string
  port :: string
  cmdfile :: string

definition param :: "(string \<times> string) list \<Rightarrow> string \<Rightarrow> string" where
  "param params key = (case map_of params key of None \<Rightarrow> [] | Some v \<Rightarrow> v)"

definition session_config :: "(string \<times> string) list \<Rightarrow> nat \<Rightarrow> RemoteSessionConfig" where
  "session_config params i =
     \<lparr>host = param params (''h'' @ nat_to_string i), port = param params (''p'' @ nat_to_string i),
      cmdfile = param params (''f'' @ nat_to_string i)\<rparr>"

definition complete_config :: "RemoteSessionConfig \<Rightarrow> bool" where
  "complete_config s \<longleftrightarrow> host s \<noteq> [] \<and> port s \<noteq> [] \<and> cmdfile s \<noteq> []"

definition parse_remote_sessions3 :: "string \<Rightarrow> RemoteSessionConfig list" where
  "parse_remote_sessions3 query =
     filter complete_config (map (session_config (parse_query_map query)) [0..<5])"

definition parse_remote_sessions4 :: "string \<Rightarrow> RemoteSessionConfig list" where
  "parse_remote_sessions4 query =
     filter complete_config (map (session_config (parse_query_params query)) [0..<5])"

definition parse_socks_config :: "string \<Rightarrow> string \<times> string" where
  "parse_socks_config query =
     (let params = parse_query_params query in (param params ''sh'', param params ''sp''))"

section \<open>Escaping\<close>

definition html_escape_char3 :: "char \<Rightarrow> string" where
  "html_escape_char3 ch =
     (if ch = CHR ''&'' then ''&amp;''
      else if ch = CHR ''<'' then ''&lt;''
      else if ch = CHR ''>'' then ''&gt;''
      else if ch = CHR 0x22 then ''&quot;''
      else if ch = CHR 0x27 then ''&#39;''
      else if ch = NL then ''&NewLine;''
      else if ch = CR then []
      else [ch])"

definition html_escape3 :: "string \<Rightarrow> string" where
  "html_escape3 content = concat (map html_escape_char3 content)"

definition js_escape_char3 :: "char \<Rightarrow> string" where
  "js_escape_char3 ch =
     (if ch = CHR 0x5C then [CHR 0x5C, CHR 0x5C]
      else if ch = CHR 0x27 then [CHR 0x5C, CHR 0x27]
      else if ch = NL then [CHR 0x5C, CHR ''n'']
      else if ch = CR then []
      else [ch])"

definition js_string_escape3 :: "string \<Rightarrow> string" where
  "js_string_escape3 content = concat (map js_escape_char3 content)"

definition html_escape_char4 :: "char \<Rightarrow> string" where
  "html_escape_char4 ch =
     (if ch = CHR ''&'' then ''&amp;''
      else if ch = CHR ''<'' then ''&lt;''
      else if ch = CHR ''>'' then ''&gt;''
      else if ch = CHR 0x22 then ''&quot;''
      else if ch = CHR 0x27 then ''&#39;''
      else [ch])"

definition html_escape4 :: "string \<Rightarrow> string" where
  "html_escape4 value = concat (map html_escape_char4 value)"

definition isprint :: "char \<Rightarrow> bool" where
  "isprint c \<longleftrightarrow> 32 \<le> (of_char c :: nat) \<and> (of_char c :: nat) \<le> 126"

definition hex_char :: "nat \<Rightarrow> char" where
  "hex_char d = char_of (if d < 10 then 48 + d else 87 + d)"

definition js_escape_char4 :: "char \<Rightarrow> string" where
  "js_escape_char4 ch =
     (if ch = CHR 0x5C then [CHR 0x5C, CHR 0x5C]
      else if ch = CHR 0x27 then [CHR 0x5C, CHR 0x27]
      else if ch = NL then [CHR 0x5C, CHR ''n'']
      else if ch = CR then []
      else if ch = CHR ''<'' then CHR 0x5C # ''x3C''
      else if ch = CHR ''>'' then CHR 0x5C # ''x3E''
      else if ch = CHR ''&'' then CHR 0x5C # ''x26''
      else if isprint ch then [ch]
      else [CHR 0x5C, CHR ''x'', hex_char (of_char ch div 16), hex_char (of_char ch mod 16)])"

definition js_escape4 :: "string \<Rightarrow> string" where
  "js_escape4 value = concat (map js_escape_char4 value)"

definition make_console_script :: "nat \<Rightarrow> string \<Rightarrow> bool \<Rightarrow> string" where
  "make_console_script session_id content cmd =
     (let escaped = js_string_escape3 (html_escape3 content)
      in ''<script>document.getElementById('' @ [CHR 0x27] @ ''s'' @ nat_to_string session_id @ [CHR 0x27] @
         '').innerHTML += '' @ [CHR 0x27] @ (if cmd then ''<b>'' else []) @ escaped @
         (if cmd then ''</b>'' else []) @ [CHR 0x27] @ '';</script>'' @ [NL])"

definition output_text :: "nat \<Rightarrow> string \<Rightarrow> bool \<Rightarrow> string" where
  "output_text session_id text escape_html =
     (let html = (if escape_html then html_escape4 text else text)
      in ''<script>document.getElementById('' @ [CHR 0x27] @ ''s'' @ nat_to_string session_id @ [CHR 0x27] @
         '').innerHTML += '' @ [CHR 0x27] @ js_escape4 html @ [CHR 0x27] @ '';</script>'')"

section \<open>The two decoders\<close>

lemma of_char_less: "(of_char c :: nat) < 256"
  by (metis nat_of_char_less_256)

lemma hex_value_digit:
  "0 \<le> hex_value c \<longleftrightarrow> isxdigit c" "isxdigit c \<Longrightarrow> hex_value c = int (xdigit_val c)"
proof -
  define n where "n = (of_char c :: nat)"
  have n: "n < 256" unfolding n_def by (rule of_char_less)
  have low: "(of_char (tolower c) :: nat) = (if 65 \<le> n \<and> n \<le> 90 then n + 32 else n)"
    using n by (simp add: tolower_def n_def [symmetric] Let_def)
  show "0 \<le> hex_value c \<longleftrightarrow> isxdigit c"
    unfolding hex_value_def isxdigit_def Let_def low n_def [symmetric] by auto
  show "isxdigit c \<Longrightarrow> hex_value c = int (xdigit_val c)"
    unfolding hex_value_def isxdigit_def xdigit_val_def Let_def low n_def [symmetric]
    by (auto simp: of_nat_diff)
qed

lemma xdigit_val_less: "isxdigit c \<Longrightarrow> xdigit_val c < 16"
  by (auto simp: isxdigit_def xdigit_val_def Let_def)

lemma or_push_bit_nibbles: "b < 16 \<Longrightarrow> or (push_bit 4 (int a)) (int b) = int (16 * a + b)"
proof -
  assume b: "b < 16"
  have "\<not> bit (push_bit 4 (int a)) n \<or> \<not> bit (int b) n" for n
  proof (cases "n < 4")
    case False
    have "int b = take_bit 4 (int b)" using b by (simp add: take_bit_int_eq_self)
    then have "\<not> bit (int b) n" using False by (metis bit_take_bit_iff)
    then show ?thesis ..
  qed (simp add: bit_push_bit_iff)
  then have "push_bit 4 (int a) + int b = or (push_bit 4 (int a)) (int b)"
    by (intro disjunctive_add_eq_or) (simp add: bit_eq_iff bit_simps)
  then show ?thesis by (simp add: push_bit_eq_mult)
qed

lemma url_decode_same: "url_decode4 s = url_decode3 s"
proof (induction s rule: length_induct)
  case (1 s)
  then have IH: "length t < length s \<Longrightarrow> url_decode4 t = url_decode3 t" for t by blast
  consider "s = []" | c where "s = [c]" | c a where "s = [c, a]" | c a b rest where "s = c # a # b # rest"
    by (metis list.exhaust)
  then show ?case
  proof cases
    case (4 c a b rest)
    show ?thesis
    proof (cases "c = CHR ''%'' \<and> isxdigit a \<and> isxdigit b")
      case True
      then have "or (push_bit 4 (hex_value a)) (hex_value b) = int (16 * xdigit_val a + xdigit_val b)"
        using or_push_bit_nibbles xdigit_val_less hex_value_digit(2) by simp
      then have "nat (or (push_bit 4 (hex_value a)) (hex_value b)) = 16 * xdigit_val a + xdigit_val b"
        by (simp only: nat_int)
      with True IH [of rest] 4 show ?thesis by (simp add: hex_value_digit(1))
    next
      case False
      with IH [of "a # b # rest"] 4 show ?thesis
        by (auto simp: hex_value_digit(1) simp del: url_decode3.simps(2) url_decode4.simps(2)
            simp: url_decode3.simps(2) [of c] url_decode4.simps(2) [of c])
    qed
  qed simp_all
qed

section \<open>Encoding\<close>

definition unreserved :: "char \<Rightarrow> bool" where
  "unreserved c \<longleftrightarrow> (let n = (of_char c :: nat) in
     48 \<le> n \<and> n \<le> 57 \<or> 65 \<le> n \<and> n \<le> 90 \<or> 97 \<le> n \<and> n \<le> 122) \<or>
     c \<in> {CHR ''-'', CHR ''_'', CHR ''.'', CHR ''~''}"

definition url_encode_char :: "char \<Rightarrow> string" where
  "url_encode_char c =
     (if unreserved c then [c] else [CHR ''%'', hex_char (of_char c div 16), hex_char (of_char c mod 16)])"

definition url_encode :: "string \<Rightarrow> string" where
  "url_encode s = concat (map url_encode_char s)"

lemma hex_char_digit: "d < 16 \<Longrightarrow> isxdigit (hex_char d) \<and> xdigit_val (hex_char d) = d"
  by (auto simp: hex_char_def isxdigit_def xdigit_val_def Let_def)

lemma url_decode_encode_char: "url_decode3 (url_encode_char c @ t) = c # url_decode3 t"
proof (cases "unreserved c")
  case True
  then have "c \<noteq> CHR ''%''" "c \<noteq> CHR ''+''" by (auto simp: unreserved_def)
  with True show ?thesis
    by (simp add: url_encode_char_def split: list.split)
next
  case False
  have "(of_char c :: nat) div 16 < 16" "(of_char c :: nat) mod 16 < 16"
    using of_char_less [of c] by (simp_all add: div_less_iff_less_mult)
  with False hex_char_digit show ?thesis
    by (simp add: url_encode_char_def)
qed

lemma url_decode_encode: "url_decode3 (url_encode s) = s"
proof -
  have "url_decode3 (url_encode s @ t) = s @ url_decode3 t" for t
    by (induction s) (simp_all add: url_encode_def url_decode_encode_char)
  from this [of "[]"] show ?thesis by simp
qed

lemma hex_char_plain: "d < 16 \<Longrightarrow> hex_char d \<noteq> CHR ''&'' \<and> hex_char d \<noteq> CHR ''=''"
  using hex_char_digit [of d] by (auto simp: isxdigit_def)

lemma url_encode_plain: "CHR ''&'' \<notin> set (url_encode s) \<and> CHR ''='' \<notin> set (url_encode s)"
proof -
  have "CHR ''&'' \<notin> set (url_encode_char c) \<and> CHR ''='' \<notin> set (url_encode_char c)" for c
  proof -
    have "(of_char c :: nat) div 16 < 16" "(of_char c :: nat) mod 16 < 16"
      using of_char_less [of c] by (simp_all add: div_less_iff_less_mult)
    then have h: "hex_char (of_char c div 16) \<noteq> CHR ''&''" "hex_char (of_char c div 16) \<noteq> CHR ''=''"
      "hex_char (of_char c mod 16) \<noteq> CHR ''&''" "hex_char (of_char c mod 16) \<noteq> CHR ''=''"
      using hex_char_plain by blast+
    have "\<not> unreserved CHR ''&''" "\<not> unreserved CHR ''=''" by (simp_all add: unreserved_def)
    with h [symmetric] show ?thesis by (auto simp: url_encode_char_def)
  qed
  then show ?thesis by (auto simp: url_encode_def)
qed

lemma url_encode_Nil [simp]: "url_encode s = [] \<longleftrightarrow> s = []"
  by (cases s) (simp_all add: url_encode_def url_encode_char_def)

section \<open>Queries and sessions\<close>

definition query_item :: "string \<times> string \<Rightarrow> string" where
  "query_item kv = fst kv @ CHR ''='' # url_encode (snd kv)"

fun print_query :: "(string \<times> string) list \<Rightarrow> string" where
  "print_query [] = []"
| "print_query [kv] = query_item kv"
| "print_query (kv # kv' # kvs) = query_item kv @ CHR ''&'' # print_query (kv' # kvs)"

definition plain_key :: "string \<Rightarrow> bool" where
  "plain_key k \<longleftrightarrow> k \<noteq> [] \<and> (\<forall>c \<in> set k. unreserved c)"

lemma plain_key_decode: "plain_key k \<Longrightarrow> url_decode3 k = k"
proof -
  assume "plain_key k"
  then have "\<forall>c \<in> set k. unreserved c" by (simp add: plain_key_def)
  then have "url_encode k = k"
    by (induction k) (auto simp: url_encode_def url_encode_char_def)
  with url_decode_encode [of k] show ?thesis by simp
qed

lemma plain_key_chars:
  "plain_key k \<Longrightarrow> CHR ''&'' \<notin> set k \<and> CHR ''='' \<notin> set k"
proof -
  have "\<not> unreserved CHR ''&''" "\<not> unreserved CHR ''=''" by (simp_all add: unreserved_def)
  then show "plain_key k \<Longrightarrow> CHR ''&'' \<notin> set k \<and> CHR ''='' \<notin> set k" by (auto simp: plain_key_def)
qed

lemma parse_item:
  assumes "plain_key k"
  shows "takeWhile (\<lambda>c. c \<noteq> CHR ''='') (query_item (k, v)) = k"
    and "dropWhile (\<lambda>c. c \<noteq> CHR ''='') (query_item (k, v)) = CHR ''='' # url_encode v"
    and "CHR ''&'' \<notin> set (query_item (k, v))" and "query_item (k, v) \<noteq> []"
  using plain_key_chars [OF assms] url_encode_plain [of v]
  by (auto simp: query_item_def takeWhile_neq_append dropWhile_neq_append)

lemma parse_print_query:
  "\<forall>kv \<in> set kvs. plain_key (fst kv) \<Longrightarrow>
     parse_query_loop url_decode3 params (print_query kvs) =
       fold (\<lambda>(k, v). map_insert k v) kvs params"
proof (induction kvs arbitrary: params rule: print_query.induct)
  case 1
  show ?case by (subst parse_query_loop.simps) simp
next
  case (2 kv)
  obtain k v where kv: "kv = (k, v)" by fastforce
  with 2 have k: "plain_key k" by simp
  note item = parse_item [OF k, of v]
  show ?case
    using takeWhile_neq_all [OF item(3)] dropWhile_neq_all [OF item(3)] item(4) plain_key_decode [OF k]
    by (subst parse_query_loop.simps)
      (simp add: kv item Let_def url_decode_encode del: takeWhile_eq_all_conv dropWhile_eq_Nil_conv)
next
  case (3 kv kv' kvs)
  obtain k v where kv: "kv = (k, v)" by fastforce
  with 3 have k: "plain_key k" by simp
  note item = parse_item [OF k, of v]
  have "parse_query_loop url_decode3 params (print_query (kv # kv' # kvs)) =
      parse_query_loop url_decode3 (map_insert k v params) (print_query (kv' # kvs))"
    using item(4) plain_key_decode [OF k]
    by (subst parse_query_loop.simps)
      (simp add: kv item Let_def url_decode_encode takeWhile_neq_append [OF item(3)] dropWhile_neq_append [OF item(3)])
  with 3 show ?case by (simp add: kv)
qed

lemma parse_query_decoders: "parse_query_loop url_decode4 params q = parse_query_loop url_decode3 params q"
proof -
  have "url_decode4 = url_decode3" by (rule ext) (rule url_decode_same)
  then show ?thesis by simp
qed

lemma map_of_fold_insert:
  "distinct (map fst kvs) \<Longrightarrow> map_of (fold (\<lambda>(k, v). map_insert k v) kvs m) = map_of m ++ map_of kvs"
proof (induction kvs arbitrary: m)
  case (Cons kv kvs)
  obtain k v where kv: "kv = (k, v)" by fastforce
  from Cons.prems have "map_of kvs k = None" by (auto simp: kv map_of_eq_None_iff)
  with Cons kv show ?case by (auto simp: map_of_insert map_add_def fun_eq_iff split: option.split)
qed simp

definition session_params :: "nat \<Rightarrow> RemoteSessionConfig \<Rightarrow> (string \<times> string) list" where
  "session_params i s =
     [(''h'' @ nat_to_string i, host s), (''p'' @ nat_to_string i, port s), (''f'' @ nat_to_string i, cmdfile s)]"

definition sessions_params :: "RemoteSessionConfig list \<Rightarrow> (string \<times> string) list" where
  "sessions_params ss = concat (map (\<lambda>i. session_params i (ss ! i)) [0..<length ss])"

definition print_sessions :: "RemoteSessionConfig list \<Rightarrow> string" where
  "print_sessions ss = print_query (sessions_params ss)"

definition session_keys :: "nat \<Rightarrow> string list" where
  "session_keys i = [''h'' @ nat_to_string i, ''p'' @ nat_to_string i, ''f'' @ nat_to_string i]"

lemma keys_sessions_params: "map fst (sessions_params ss) = concat (map session_keys [0..<length ss])"
  by (simp add: sessions_params_def session_params_def session_keys_def [abs_def] map_concat comp_def)

lemma distinct_session_keys: "distinct (concat (map session_keys [0..<n]))"
  by (induction n) (auto simp: session_keys_def)

lemma plain_session_keys: "k \<in> set (session_keys i) \<Longrightarrow> plain_key k"
proof -
  have "unreserved c" if "isdigit c" for c
    using that by (simp add: isdigit_def unreserved_def)
  moreover have "unreserved CHR ''h''" "unreserved CHR ''p''" "unreserved CHR ''f''"
    by (simp_all add: unreserved_def)
  ultimately show "k \<in> set (session_keys i) \<Longrightarrow> plain_key k"
    using nat_to_string_digits [of i] by (auto simp: session_keys_def plain_key_def)
qed

lemma parse_print_sessions:
  "parse_query_map (print_sessions ss) = fold (\<lambda>(k, v). map_insert k v) (sessions_params ss) []"
proof -
  have "plain_key (fst kv)" if "kv \<in> set (sessions_params ss)" for kv
  proof -
    have "fst kv \<in> set (map fst (sessions_params ss))" using that by simp
    then show ?thesis unfolding keys_sessions_params using plain_session_keys by auto
  qed
  then show ?thesis unfolding parse_query_map_def print_sessions_def by (intro parse_print_query) blast
qed

lemma session_config_print:
  "session_config (parse_query_map (print_sessions ss)) i =
     (if i < length ss then ss ! i else \<lparr>host = [], port = [], cmdfile = []\<rparr>)"
proof -
  let ?m = "parse_query_map (print_sessions ss)"
  have m: "map_of ?m = map_of (sessions_params ss)"
    unfolding parse_print_sessions
    by (subst map_of_fold_insert) (simp_all add: keys_sessions_params distinct_session_keys)
  have dist: "distinct (map fst (sessions_params ss))"
    unfolding keys_sessions_params by (rule distinct_session_keys)
  show ?thesis
  proof (cases "i < length ss")
    case True
    then have "set (session_params i (ss ! i)) \<subseteq> set (sessions_params ss)"
      by (auto simp: sessions_params_def)
    then have "map_of ?m k = Some v" if "(k, v) \<in> set (session_params i (ss ! i))" for k v
      unfolding m using that dist by (meson map_of_eq_Some_iff subsetD)
    then show ?thesis
      using True by (simp add: session_config_def param_def session_params_def)
  next
    case False
    then have "map_of ?m k = None" if "k \<in> set (session_keys i)" for k
      unfolding m map_of_eq_None_iff set_map [symmetric] keys_sessions_params
      using that by (auto simp: session_keys_def)
    with False show ?thesis by (simp add: session_config_def param_def session_keys_def)
  qed
qed

lemma parse_sessions_same: "parse_remote_sessions4 q = parse_remote_sessions3 q"
  unfolding parse_remote_sessions4_def parse_remote_sessions3_def parse_query_params_def
    parse_query_map_def parse_query_decoders ..

lemma parse_sessions_print:
  assumes "length ss \<le> 5" and "\<forall>s \<in> set ss. complete_config s"
  shows "parse_remote_sessions3 (print_sessions ss) = ss"
proof -
  let ?none = "\<lparr>host = [], port = [], cmdfile = []\<rparr>"
  have "[0..<5] = [0..<length ss] @ [length ss..<5]"
    using upt_add_eq_append [of 0 "length ss" "5 - length ss"] assms(1) by simp
  then have "map (session_config (parse_query_map (print_sessions ss))) [0..<5] =
      map (\<lambda>i. ss ! i) [0..<length ss] @ map (\<lambda>i. ?none) [length ss..<5]"
    by (simp add: session_config_print)
  moreover have "filter complete_config (map (\<lambda>i. ?none) xs) = []" for xs :: "nat list"
    by (induction xs) (simp_all add: complete_config_def)
  ultimately show ?thesis
    using assms(2) by (simp add: parse_remote_sessions3_def map_nth)
qed

section \<open>What a browser makes of an escaped text\<close>

text \<open>
  The value of a JavaScript string literal in single quotes: \<open>None\<close> when the literal ends or breaks
  before the text does.
\<close>

function js_value :: "string \<Rightarrow> string option" where
  "js_value s =
     (case s of
        [] \<Rightarrow> Some []
      | c # s1 \<Rightarrow>
          if c = CHR 0x5C then
            (case s1 of
               [] \<Rightarrow> None
             | e # s2 \<Rightarrow>
                 if e = CHR ''x'' then
                   (case s2 of
                      a # b # s3 \<Rightarrow>
                        if isxdigit a \<and> isxdigit b
                        then map_option (\<lambda>v. char_of (16 * xdigit_val a + xdigit_val b) # v) (js_value s3)
                        else None
                    | _ \<Rightarrow> None)
                 else if e = CHR ''n'' then map_option (\<lambda>v. NL # v) (js_value s2)
                 else if e = CHR 0x5C \<or> e = CHR 0x27 then map_option (\<lambda>v. e # v) (js_value s2)
                 else None)
          else if c = CHR 0x27 \<or> c = NL \<or> c = CR then None
          else map_option (\<lambda>v. c # v) (js_value s1))"
  by pat_completeness auto
termination
  by (relation "measure length") auto

declare js_value.simps [simp del]

lemma js_value_char:
  "js_value [] = Some []"
  "c \<notin> {CHR 0x5C, CHR 0x27, NL, CR} \<Longrightarrow> js_value (c # s) = map_option (\<lambda>v. c # v) (js_value s)"
  "js_value (CHR 0x5C # CHR ''n'' # s) = map_option (\<lambda>v. NL # v) (js_value s)"
  "e = CHR 0x5C \<or> e = CHR 0x27 \<Longrightarrow> js_value (CHR 0x5C # e # s) = map_option (\<lambda>v. e # v) (js_value s)"
  "isxdigit a \<Longrightarrow> isxdigit b \<Longrightarrow> js_value (CHR 0x5C # CHR ''x'' # a # b # s) =
     map_option (\<lambda>v. char_of (16 * xdigit_val a + xdigit_val b) # v) (js_value s)"
  by (subst js_value.simps; auto)+

text \<open>The interface of an escape: what a character becomes and what its literal is worth.\<close>

locale js_escape =
  fixes esc :: "char \<Rightarrow> string"
  assumes esc_value: "c \<noteq> CR \<Longrightarrow> js_value (esc c @ s) = map_option (\<lambda>v. c # v) (js_value s)"
    and esc_cr: "esc CR = []"
begin

lemma value_append: "js_value (concat (map esc t) @ s) = map_option (\<lambda>v. filter (\<lambda>c. c \<noteq> CR) t @ v) (js_value s)"
proof (induction t)
  case (Cons c t)
  show ?case
  proof (cases "c = CR")
    case True
    with Cons show ?thesis by (simp add: esc_cr)
  next
    case False
    then show ?thesis
      using Cons esc_value [OF False] by (simp add: option.map_comp comp_def)
  qed
qed (simp add: option.map_ident)

lemma escaped_value: "js_value (concat (map esc t)) = Some (filter (\<lambda>c. c \<noteq> CR) t)"
  using value_append [of t "[]"] by (simp add: js_value_char)

end

interpretation js3: js_escape js_escape_char3
proof
  fix c s assume "c \<noteq> CR"
  then show "js_value (js_escape_char3 c @ s) = map_option (\<lambda>v. c # v) (js_value s)"
    by (auto simp: js_escape_char3_def js_value_char)
qed (simp add: js_escape_char3_def)

lemma char_nibbles: "char_of (16 * ((of_char c :: nat) div 16) + of_char c mod 16) = c"
  by (simp add: mult_div_mod_eq)

interpretation js4: js_escape js_escape_char4
proof
  fix c s assume c: "c \<noteq> CR"
  have hex: "isxdigit (hex_char (of_char c div 16))" "isxdigit (hex_char (of_char c mod 16))"
    "xdigit_val (hex_char (of_char c div 16)) = of_char c div 16"
    "xdigit_val (hex_char (of_char c mod 16)) = of_char c mod 16"
    using hex_char_digit of_char_less [of c] by (simp_all add: div_less_iff_less_mult)
  have x: "isxdigit CHR ''3''" "isxdigit CHR ''2''" "isxdigit CHR ''6''" "isxdigit CHR ''C''" "isxdigit CHR ''E''"
    "xdigit_val CHR ''3'' = 3" "xdigit_val CHR ''2'' = 2" "xdigit_val CHR ''6'' = 6"
    "xdigit_val CHR ''C'' = 12" "xdigit_val CHR ''E'' = 14"
    by (simp_all add: isxdigit_def xdigit_val_def)
  have named: "char_of (60 :: nat) = CHR ''<''" "char_of (62 :: nat) = CHR ''>''" "char_of (38 :: nat) = CHR ''&''"
    by code_simp+
  show "js_value (js_escape_char4 c @ s) = map_option (\<lambda>v. c # v) (js_value s)"
    using c by (auto simp: js_escape_char4_def js_value_char hex x named char_nibbles)
qed (simp add: js_escape_char4_def)

text \<open>The text an HTML parser makes of characters and character references; \<open>a_lt\<close> cannot occur in it.\<close>

definition entities :: "(string \<times> char) list" where
  "entities =
     [(''&amp;'', CHR ''&''), (''&lt;'', CHR ''<''), (''&gt;'', CHR ''>''), (''&quot;'', CHR 0x22),
      (''&#39;'', CHR 0x27), (''&NewLine;'', NL)]"

definition entity_at :: "string \<Rightarrow> (string \<times> char) option" where
  "entity_at s = find (\<lambda>(e, _). take (length e) s = e) entities"

lemma entity_at_nonempty: "entity_at s = Some (e, c) \<Longrightarrow> e \<noteq> []"
  by (auto simp: entity_at_def entities_def find_Some_iff less_Suc_eq nth_Cons' split: if_splits)

function html_text :: "string \<Rightarrow> string" where
  "html_text s =
     (case s of
        [] \<Rightarrow> []
      | c # s1 \<Rightarrow>
          (case entity_at s of
             None \<Rightarrow> c # html_text s1
           | Some (e, ch) \<Rightarrow> ch # html_text (drop (length e) s)))"
  by pat_completeness auto
termination
proof (relation "measure length", goal_cases)
  case (3 s c s1 ec e ch)
  then show ?case using entity_at_nonempty [of s e ch] by simp
qed simp_all

declare html_text.simps [simp del]

lemma entity_at_plain: "c \<noteq> CHR ''&'' \<Longrightarrow> entity_at (c # s) = None"
  by (auto simp: entity_at_def entities_def)

lemma entity_at_entity:
  "entity_at (''&amp;'' @ s) = Some (''&amp;'', CHR ''&'')"
  "entity_at (''&lt;'' @ s) = Some (''&lt;'', CHR ''<'')"
  "entity_at (''&gt;'' @ s) = Some (''&gt;'', CHR ''>'')"
  "entity_at (''&quot;'' @ s) = Some (''&quot;'', CHR 0x22)"
  "entity_at (''&#39;'' @ s) = Some (''&#39;'', CHR 0x27)"
  "entity_at (''&NewLine;'' @ s) = Some (''&NewLine;'', NL)"
  by (simp_all add: entity_at_def entities_def)

lemma html_text_Nil [simp]: "html_text [] = []"
  by (subst html_text.simps) simp

lemma html_text_plain: "c \<noteq> CHR ''&'' \<Longrightarrow> html_text (c # s) = c # html_text s"
  by (subst html_text.simps) (simp add: entity_at_plain)

lemma html_text_entity:
  assumes "entity_at (e @ s) = Some (e, ch)"
  shows "html_text (e @ s) = ch # html_text s"
proof -
  have "e \<noteq> []" using assms by (rule entity_at_nonempty)
  then obtain x xs where e: "e = x # xs" by (cases e) auto
  have "html_text (e @ s) = (case e @ s of [] \<Rightarrow> [] | c # s1 \<Rightarrow>
      (case entity_at (e @ s) of None \<Rightarrow> c # html_text s1
       | Some (e', ch) \<Rightarrow> ch # html_text (drop (length e') (e @ s))))"
    by (subst html_text.simps) simp
  then show ?thesis unfolding assms by (simp add: e)
qed

text \<open>The interface of the two HTML escapes: the text of an escaped character, and no markup in it.\<close>

locale html_escape =
  fixes esc :: "char \<Rightarrow> string" and drops :: "char \<Rightarrow> bool"
  assumes esc_text: "html_text (esc c @ s) = (if drops c then html_text s else c # html_text s)"
    and esc_markup: "set (esc c) \<inter> {CHR ''<'', CHR ''>'', CHR 0x22, CHR 0x27} = {}"
begin

lemma text_value: "html_text (concat (map esc t)) = filter (\<lambda>c. \<not> drops c) t"
  by (induction t) (simp_all add: esc_text)

lemma no_markup: "set (concat (map esc t)) \<inter> {CHR ''<'', CHR ''>'', CHR 0x22, CHR 0x27} = {}"
  using esc_markup by fastforce

end

interpretation html3: html_escape html_escape_char3 "\<lambda>c. c = CR"
proof
  fix c s
  show "html_text (html_escape_char3 c @ s) = (if c = CR then html_text s else c # html_text s)"
    using entity_at_entity [THEN html_text_entity, of s]
    by (auto simp: html_escape_char3_def html_text_plain)
  show "set (html_escape_char3 c) \<inter> {CHR ''<'', CHR ''>'', CHR 0x22, CHR 0x27} = {}"
    by (auto simp: html_escape_char3_def)
qed

interpretation html4: html_escape html_escape_char4 "\<lambda>c. False"
proof
  fix c s
  show "html_text (html_escape_char4 c @ s) = (if False then html_text s else c # html_text s)"
    using entity_at_entity [THEN html_text_entity, of s]
    by (auto simp: html_escape_char4_def html_text_plain)
  show "set (html_escape_char4 c) \<inter> {CHR ''<'', CHR ''>'', CHR 0x22, CHR 0x27} = {}"
    by (auto simp: html_escape_char4_def)
qed

lemma escaped_text3:
  "\<exists>v. js_value (js_string_escape3 (html_escape3 t)) = Some v \<and> html_text v = filter (\<lambda>c. c \<noteq> CR) t \<and>
     CHR ''<'' \<notin> set (js_string_escape3 (html_escape3 t))"
proof -
  have cr: "filter (\<lambda>c. c \<noteq> CR) (html_escape3 t) = html_escape3 t"
    by (rule filter_True) (auto simp: html_escape3_def html_escape_char3_def split: if_splits)
  have lt: "CHR ''<'' \<notin> set (html_escape3 t)"
    using html3.no_markup [of t] by (simp add: html_escape3_def)
  have "CHR ''<'' \<notin> set (js_string_escape3 (html_escape3 t))"
  proof
    assume "CHR ''<'' \<in> set (js_string_escape3 (html_escape3 t))"
    then obtain c where c: "c \<in> set (html_escape3 t)" "CHR ''<'' \<in> set (js_escape_char3 c)"
      by (auto simp: js_string_escape3_def)
    from c(2) have "c = CHR ''<''" by (simp add: js_escape_char3_def split: if_splits)
    with c(1) lt show False by simp
  qed
  then show ?thesis
    using js3.escaped_value [of "html_escape3 t"] html3.text_value [of t] cr
    by (simp add: js_string_escape3_def html_escape3_def)
qed

lemma escaped_text4:
  "js_value (js_escape4 t) = Some (filter (\<lambda>c. c \<noteq> CR) t)" "CHR ''<'' \<notin> set (js_escape4 t)"
  "html_text (html_escape4 t) = t"
proof -
  show "js_value (js_escape4 t) = Some (filter (\<lambda>c. c \<noteq> CR) t)"
    unfolding js_escape4_def by (rule js4.escaped_value)
  have hex: "d < 16 \<Longrightarrow> hex_char d \<noteq> CHR ''<''" for d
    using hex_char_digit [of d] by (auto simp: isxdigit_def)
  have "CHR ''<'' \<notin> set (js_escape_char4 c)" for c
  proof -
    have "hex_char (of_char c div 16) \<noteq> CHR ''<''" "hex_char (of_char c mod 16) \<noteq> CHR ''<''"
      using of_char_less [of c] by (intro hex, simp add: div_less_iff_less_mult)+
    then show ?thesis unfolding js_escape_char4_def by (simp add: eq_commute [of "CHR ''<''"])
  qed
  then show "CHR ''<'' \<notin> set (js_escape4 t)" by (auto simp: js_escape4_def)
  show "html_text (html_escape4 t) = t"
    using html4.text_value [of t] by (simp add: html_escape4_def)
qed

end
