(* ===== verification/Console_Pages.thy ===== *)
theory Console_Pages
  imports Console_Text
begin

text \<open>
  The pages of the consoles, with their text: \<open>render_console_page\<close> and \<open>render_panel_page\<close> of
  \<open>projects/03-http-cgi-console/console_components.cpp\<close> and \<open>render_console_page\<close> of
  \<open>projects/04-socks-proxy/console_components.hpp\<close>. The lemmas say that the page of a list of sessions
  has a cell for each of them, and that a host or port enters it escaped.
\<close>

section \<open>The third project\<close>

definition console_head3 :: string where
  \<open>console_head3 =
   ''<!DOCTYPE html>'' @ [NL] @
   ''<html lang="en">'' @ [NL] @
   ''  <head>'' @ [NL] @
   ''    <meta charset="UTF-8" />'' @ [NL] @
   ''    <title>NP Project 3 Console</title>'' @ [NL] @
   ''    <link'' @ [NL] @
   ''      rel="stylesheet"'' @ [NL] @
   ''      href="https://cdn.jsdelivr.net/npm/bootstrap@4.5.3/dist/css/bootstrap.min.css"'' @ [NL] @
   ''      crossorigin="anonymous"'' @ [NL] @
   ''    />'' @ [NL] @
   ''    <link'' @ [NL] @
   ''      href="https://fonts.googleapis.com/css?family=Source+Code+Pro"'' @ [NL] @
   ''      rel="stylesheet"'' @ [NL] @
   ''    />'' @ [NL] @
   ''    <link'' @ [NL] @
   ''      rel="icon"'' @ [NL] @
   ''      type="image/png"'' @ [NL] @
   ''      href="https://cdn0.iconfinder.com/data/icons/small-n-flat/24/678068-terminal-512.png"'' @ [NL] @
   ''    />'' @ [NL] @
   ''    <style>'' @ [NL] @
   ''      * {'' @ [NL] @
   ''        font-family: 'Source Code Pro', monospace;'' @ [NL] @
   ''        font-size: 1rem !important;'' @ [NL] @
   ''      }'' @ [NL] @
   ''      body {'' @ [NL] @
   ''        background-color: #212529;'' @ [NL] @
   ''      }'' @ [NL] @
   ''      pre {'' @ [NL] @
   ''        color: #cccccc;'' @ [NL] @
   ''      }'' @ [NL] @
   ''      b {'' @ [NL] @
   ''        color: #01b468;'' @ [NL] @
   ''      }'' @ [NL] @
   ''    </style>'' @ [NL] @
   ''  </head>'' @ [NL] @
   ''  <body>'' @ [NL] @
   ''    <table class="table table-dark table-bordered">'' @ [NL] @
   ''      <thead>'' @ [NL] @
   ''        <tr>'' @ [NL]\<close>

definition console_middle3 :: string where
  \<open>console_middle3 =
   ''        </tr>'' @ [NL] @
   ''      </thead>'' @ [NL] @
   ''      <tbody>'' @ [NL] @
   ''        <tr>'' @ [NL]\<close>

definition console_tail3 :: string where
  \<open>console_tail3 =
   ''        </tr>'' @ [NL] @
   ''      </tbody>'' @ [NL] @
   ''    </table>'' @ [NL] @
   ''  </body>'' @ [NL] @
   ''</html>'' @ [NL]\<close>

definition panel_head :: string where
  \<open>panel_head =
   ''<!DOCTYPE html>'' @ [NL] @
   ''<html lang="en">'' @ [NL] @
   ''  <head>'' @ [NL] @
   ''    <title>NP Project 3 Panel</title>'' @ [NL] @
   ''    <link'' @ [NL] @
   ''      rel="stylesheet"'' @ [NL] @
   ''      href="https://cdn.jsdelivr.net/npm/bootstrap@4.5.3/dist/css/bootstrap.min.css"'' @ [NL] @
   ''      crossorigin="anonymous"'' @ [NL] @
   ''    />'' @ [NL] @
   ''    <link'' @ [NL] @
   ''      href="https://fonts.googleapis.com/css?family=Source+Code+Pro"'' @ [NL] @
   ''      rel="stylesheet"'' @ [NL] @
   ''    />'' @ [NL] @
   ''    <link'' @ [NL] @
   ''      rel="icon"'' @ [NL] @
   ''      type="image/png"'' @ [NL] @
   ''      href="https://cdn4.iconfinder.com/data/icons/iconsimple-setting-time/512/dashboard-512.png"'' @ [NL] @
   ''    />'' @ [NL] @
   ''    <style>'' @ [NL] @
   ''      * {'' @ [NL] @
   ''        font-family: 'Source Code Pro', monospace;'' @ [NL] @
   ''      }'' @ [NL] @
   ''    </style>'' @ [NL] @
   ''  </head>'' @ [NL] @
   ''  <body class="bg-secondary pt-5">'' @ [NL] @
   ''    <form action="console.cgi" method="GET">'' @ [NL] @
   ''      <table class="table mx-auto bg-light" style="width: inherit">'' @ [NL] @
   ''        <thead class="thead-dark">'' @ [NL] @
   ''          <tr>'' @ [NL] @
   ''            <th scope="col">#</th>'' @ [NL] @
   ''            <th scope="col">Host</th>'' @ [NL] @
   ''            <th scope="col">Port</th>'' @ [NL] @
   ''            <th scope="col">Input File</th>'' @ [NL] @
   ''          </tr>'' @ [NL] @
   ''        </thead>'' @ [NL] @
   ''        <tbody>'' @ [NL]\<close>

definition panel_tail :: string where
  \<open>panel_tail =
   ''          <tr>'' @ [NL] @
   ''            <td colspan="3"></td>'' @ [NL] @
   ''            <td>'' @ [NL] @
   ''              <button type="submit" class="btn btn-info btn-block">Run</button>'' @ [NL] @
   ''            </td>'' @ [NL] @
   ''          </tr>'' @ [NL] @
   ''        </tbody>'' @ [NL] @
   ''      </table>'' @ [NL] @
   ''    </form>'' @ [NL] @
   ''  </body>'' @ [NL] @
   ''</html>'' @ [NL]\<close>

definition session_head3 :: "RemoteSessionConfig \<Rightarrow> string" where
  \<open>session_head3 s =
     ''          <th scope="col">'' @ html_escape3 (host s) @ '':'' @ html_escape3 (port s) @ ''</th>'' @ [NL]\<close>

definition session_cell3 :: "nat \<Rightarrow> string" where
  \<open>session_cell3 i =
     ''          <td><pre id="s'' @ nat_to_string i @ ''" class="mb-0"></pre></td>'' @ [NL]\<close>

definition render_console_page3 :: "RemoteSessionConfig list \<Rightarrow> string" where
  "render_console_page3 sessions =
     console_head3 @ concat (map session_head3 sessions) @ console_middle3 @
     concat (map session_cell3 [0..<length sessions]) @ console_tail3"

definition panel_host :: "nat \<Rightarrow> string" where
  \<open>panel_host h =
     ''                  <option value="nplinux'' @ nat_to_string h @ ''.cs.nycu.edu.tw">nplinux'' @
     nat_to_string h @ ''</option>'' @ [NL]\<close>

definition panel_file :: "nat \<Rightarrow> string" where
  \<open>panel_file f =
     ''                <option value="t'' @ nat_to_string f @ ''.txt">t'' @ nat_to_string f @
     ''.txt</option>'' @ [NL]\<close>

definition panel_row :: "nat \<Rightarrow> string" where
  \<open>panel_row i =
     ''          <tr>'' @ [NL] @
     ''            <th scope="row" class="align-middle">Session '' @ nat_to_string (i + 1) @ ''</th>'' @ [NL] @
     ''            <td>'' @ [NL] @
     ''              <div class="input-group">'' @ [NL] @
     ''                <select name="h'' @ nat_to_string i @ ''" class="custom-select">'' @ [NL] @
     ''                  <option></option>'' @ [NL] @
     concat (map panel_host [1..<13]) @
     ''                </select>'' @ [NL] @
     ''                <div class="input-group-append">'' @ [NL] @
     ''                  <span class="input-group-text">.cs.nycu.edu.tw</span>'' @ [NL] @
     ''                </div>'' @ [NL] @
     ''              </div>'' @ [NL] @
     ''            </td>'' @ [NL] @
     ''            <td>'' @ [NL] @
     ''              <input name="p'' @ nat_to_string i @ ''" type="text" class="form-control" size="5" />'' @ [NL] @
     ''            </td>'' @ [NL] @
     ''            <td>'' @ [NL] @
     ''              <select name="f'' @ nat_to_string i @ ''" class="custom-select">'' @ [NL] @
     ''                <option></option>'' @ [NL] @
     concat (map panel_file [1..<6]) @
     ''              </select>'' @ [NL] @
     ''            </td>'' @ [NL] @
     ''          </tr>'' @ [NL]\<close>

definition render_panel_page :: string where
  "render_panel_page = panel_head @ concat (map panel_row [0..<5]) @ panel_tail"

section \<open>The fourth project\<close>

definition page_head4 :: string where
  \<open>page_head4 =
     ''<!DOCTYPE html>'' @ [NL] @
     ''<html lang="en">'' @ [NL] @
     ''<head>'' @ [NL] @
     ''  <meta charset="UTF-8" />'' @ [NL] @
     ''  <title>NP Project 4 Console</title>'' @ [NL] @
     ''  <link rel="stylesheet" '' @
     ''href="https://cdn.jsdelivr.net/npm/bootstrap@4.5.3/dist/css/'' @ ''bootstrap.min.css" />'' @ [NL] @
     ''  <style>* { font-family: 'Source Code Pro', monospace; } '' @
     ''body { background-color: #212529; } '' @
     ''pre { color: #f8f9fa; white-space: pre-wrap; }</style>'' @ [NL] @
     ''</head>'' @ [NL] @
     ''<body>'' @ [NL] @
     ''  <table class="table table-dark table-bordered">'' @ [NL] @
     ''    <thead><tr>''\<close>

definition session_head4 :: "RemoteSessionConfig \<Rightarrow> string" where
  "session_head4 s = ''<th>'' @ html_escape4 (host s) @ '':'' @ html_escape4 (port s) @ ''</th>''"

definition session_cell4 :: "nat \<Rightarrow> string" where
  \<open>session_cell4 i = ''<td><pre id="s'' @ nat_to_string i @ ''" class="mb-0"></pre></td>''\<close>

definition render_console_page4 :: "RemoteSessionConfig list \<Rightarrow> string" where
  "render_console_page4 sessions =
     page_head4 @ concat (map session_head4 sessions) @
     ''</tr></thead>'' @ [NL] @ ''    <tbody><tr>'' @
     concat (map session_cell4 [0..<length sessions]) @
     ''</tr></tbody>'' @ [NL] @ ''  </table>'' @ [NL] @ ''</body>'' @ [NL] @ ''</html>'' @ [NL]"

section \<open>Cells\<close>

text \<open>The element that the scripts of session \<open>i\<close> write to.\<close>

definition cell_tag :: "nat \<Rightarrow> string" where
  \<open>cell_tag i = ''<td><pre id="s'' @ nat_to_string i @ ''" class="mb-0"></pre></td>''\<close>

lemma contains_middle: "contains p s \<Longrightarrow> contains p (a @ s @ b)"
  unfolding contains_iff by (metis append.assoc)

lemma contains_concat: "x \<in> set xs \<Longrightarrow> contains p x \<Longrightarrow> contains p (concat xs)"
proof -
  assume "x \<in> set xs" and p: "contains p x"
  then obtain ys zs where "xs = ys @ x # zs" by (meson split_list)
  with contains_middle [OF p, of "concat ys" "concat zs"] show "contains p (concat xs)" by simp
qed

lemma cell_in_page3: "i < length ss \<Longrightarrow> contains (cell_tag i) (render_console_page3 ss)"
proof -
  assume i: "i < length ss"
  have "contains (cell_tag i) (session_cell3 i)"
    unfolding contains_iff session_cell3_def cell_tag_def
    by (rule exI [of _ "''          ''"], rule exI [of _ "[NL]"]) simp
  then have "contains (cell_tag i) (concat (map session_cell3 [0..<length ss]))"
    using i by (intro contains_concat [of "session_cell3 i"]) auto
  from contains_middle [OF this, of "console_head3 @ concat (map session_head3 ss) @ console_middle3" console_tail3]
  show ?thesis by (simp add: render_console_page3_def)
qed

lemma cell_in_page4: "i < length ss \<Longrightarrow> contains (cell_tag i) (render_console_page4 ss)"
proof -
  assume i: "i < length ss"
  have "contains (cell_tag i) (session_cell4 i)"
    unfolding contains_iff session_cell4_def cell_tag_def
    by (rule exI [of _ "[]"], rule exI [of _ "[]"]) simp
  then have "contains (cell_tag i) (concat (map session_cell4 [0..<length ss]))"
    using i by (intro contains_concat [of "session_cell4 i"]) auto
  from contains_middle [OF this, of "page_head4 @ concat (map session_head4 ss) @
      ''</tr></thead>'' @ [NL] @ ''    <tbody><tr>''"
      "''</tr></tbody>'' @ [NL] @ ''  </table>'' @ [NL] @ ''</body>'' @ [NL] @ ''</html>'' @ [NL]"]
  show ?thesis unfolding render_console_page4_def append.assoc .
qed

text \<open>The head of a session shows its host and port as text.\<close>

lemma session_head_markup:
  "set (html_escape3 t) \<inter> {CHR ''<'', CHR ''>'', CHR 0x22, CHR 0x27} = {}"
  "set (html_escape4 t) \<inter> {CHR ''<'', CHR ''>'', CHR 0x22, CHR 0x27} = {}"
  unfolding html_escape3_def html_escape4_def by (rule html3.no_markup html4.no_markup)+

end
