(* ===== verification/Socks_Protocol.thy ===== *)
theory Socks_Protocol
  imports Prelude
begin

text \<open>
  The SOCKS4 messages of \<open>projects/04-socks-proxy\<close>: the request the server reads
  (\<open>read_socks_request\<close> of \<open>socks_server.cpp\<close>) and the one the console builds
  (\<open>build_socks4a_request\<close> of \<open>console_components.hpp\<close>), the reply, IPv4 addresses in text, and the
  rules of \<open>socks.conf\<close>.

  A socket delivers characters, which are bytes; a byte that is a number is an \<^typ>\<open>8 word\<close>. A read
  beyond the end of the stream throws, which is the value \<open>None\<close>.
\<close>

section \<open>Bytes and addresses\<close>

definition byte_of :: "char \<Rightarrow> 8 word" where
  "byte_of c = of_nat (of_char c)"

definition char_byte :: "8 word \<Rightarrow> char" where
  "char_byte b = char_of (unat b)"

type_synonym ipv4 = "8 word \<times> 8 word \<times> 8 word \<times> 8 word"

definition ip_to_string :: "ipv4 \<Rightarrow> string" where
  "ip_to_string ip =
     (case ip of (a, b, c, d) \<Rightarrow>
        nat_to_string (unat a) @ ''.'' @ nat_to_string (unat b) @ ''.'' @
        nat_to_string (unat c) @ ''.'' @ nat_to_string (unat d))"

definition is_socks4a_ip :: "ipv4 \<Rightarrow> bool" where
  "is_socks4a_ip ip = (case ip of (a, b, c, d) \<Rightarrow> a = 0 \<and> b = 0 \<and> c = 0 \<and> d \<noteq> 0)"

definition parse_ipv4 :: "string \<Rightarrow> ipv4 result" where
  "parse_ipv4 ip =
     (case split ip CHR ''.'' of
        [p0, p1, p2, p3] \<Rightarrow>
          bindR (stoi p0) (\<lambda>a. bindR (stoi p1) (\<lambda>b. bindR (stoi p2) (\<lambda>c. bindR (stoi p3) (\<lambda>d.
            Inr (word_of_int a, word_of_int b, word_of_int c, word_of_int d)))))
      | _ \<Rightarrow> Inr (0, 0, 0, 0))"

section \<open>Requests\<close>

record SocksRequest =
  vn :: "8 word"
  cd :: "8 word"
  dst_port :: "16 word"
  raw_dst_ip :: ipv4
  dst_ip :: string
  user_id :: string
  domain_name :: string

definition NUL :: char where
  "NUL = CHR 0x00"

fun read_null_terminated :: "string \<Rightarrow> (string \<times> string) option" where
  "read_null_terminated [] = None"
| "read_null_terminated (ch # input) =
     (if ch = NUL then Some ([], input)
      else (case read_null_terminated input of
              None \<Rightarrow> None
            | Some (value, rest) \<Rightarrow> Some (ch # value, rest)))"

fun read_header :: "string \<Rightarrow> ((8 word \<times> 8 word \<times> 8 word \<times> 8 word \<times> ipv4) \<times> string) option" where
  "read_header (c0 # c1 # c2 # c3 # c4 # c5 # c6 # c7 # input) =
     Some ((byte_of c0, byte_of c1, byte_of c2, byte_of c3,
            (byte_of c4, byte_of c5, byte_of c6, byte_of c7)), input)"
| "read_header _ = None"

definition port_of :: "8 word \<Rightarrow> 8 word \<Rightarrow> 16 word" where
  "port_of high low = or (push_bit 8 (ucast high)) (ucast low)"

definition read_socks_request :: "string \<Rightarrow> (SocksRequest \<times> string) option" where
  "read_socks_request input =
     (case read_header input of
        None \<Rightarrow> None
      | Some ((h0, h1, h2, h3, ip), rest) \<Rightarrow>
          (case read_null_terminated rest of
             None \<Rightarrow> None
           | Some (user, rest1) \<Rightarrow>
               (let request = \<lparr>vn = h0, cd = h1, dst_port = port_of h2 h3, raw_dst_ip = ip,
                               dst_ip = ip_to_string ip, user_id = user, domain_name = []\<rparr>
                in if is_socks4a_ip ip then
                     (case read_null_terminated rest1 of
                        None \<Rightarrow> None
                      | Some (domain, rest2) \<Rightarrow> Some (request\<lparr>domain_name := domain\<rparr>, rest2))
                   else Some (request, rest1))))"

definition port_high :: "16 word \<Rightarrow> 8 word" where
  "port_high port = ucast (and (drop_bit 8 port) 0xFF)"

definition port_low :: "16 word \<Rightarrow> 8 word" where
  "port_low port = ucast (and port 0xFF)"

definition build_socks4a_request :: "string \<Rightarrow> string \<Rightarrow> string result" where
  "build_socks4a_request host port_text =
     bindR (stoi port_text) (\<lambda>n.
       (let port = word_of_int n
        in Inr ([char_byte 4, char_byte 1, char_byte (port_high port), char_byte (port_low port),
                 char_byte 0, char_byte 0, char_byte 0, char_byte 1, char_byte 0]
                @ host @ [char_byte 0])))"

section \<open>Replies\<close>

abbreviation (input) kSocksVersion :: "8 word" where "kSocksVersion \<equiv> 4"
abbreviation (input) kConnect :: "8 word" where "kConnect \<equiv> 1"
abbreviation (input) kBind :: "8 word" where "kBind \<equiv> 2"
abbreviation (input) kReplyGranted :: "8 word" where "kReplyGranted \<equiv> 90"
abbreviation (input) kReplyRejected :: "8 word" where "kReplyRejected \<equiv> 91"

definition socks_reply :: "8 word \<Rightarrow> 16 word \<Rightarrow> string \<Rightarrow> 8 word list result" where
  "socks_reply reply port ip =
     bindR (parse_ipv4 ip) (\<lambda>(a, b, c, d).
       Inr [0, reply, port_high port, port_low port, a, b, c, d])"

section \<open>Firewall\<close>

record FirewallRule =
  command :: "8 word"
  octets :: "string \<times> string \<times> string \<times> string"

definition permit_all :: "8 word \<Rightarrow> FirewallRule" where
  "permit_all c = \<lparr>command = c, octets = (''*'', ''*'', ''*'', ''*'')\<rparr>"

text \<open>The extraction \<open>iss >> action >> command >> ip_pattern\<close>: a word, a character, a word.\<close>

definition extract_rule :: "string \<Rightarrow> (string \<times> char \<times> string) option" where
  "extract_rule line =
     (let (action, s1) = next_word line
      in if action = [] then None
         else (case dropWhile isspace s1 of
                 [] \<Rightarrow> None
               | c # s2 \<Rightarrow>
                   (let (ip_pattern, _) = next_word s2
                    in if ip_pattern = [] then None else Some (action, c, ip_pattern))))"

definition load_line :: "string \<Rightarrow> FirewallRule list" where
  "load_line line =
     (case extract_rule (takeWhile (\<lambda>c. c \<noteq> CHR ''#'') line) of
        None \<Rightarrow> []
      | Some (action, c, ip_pattern) \<Rightarrow>
          if action \<noteq> ''permit'' then []
          else (case split ip_pattern CHR ''.'' of
                  [o0, o1, o2, o3] \<Rightarrow>
                    (if c = CHR ''c'' then [\<lparr>command = kConnect, octets = (o0, o1, o2, o3)\<rparr>]
                     else if c = CHR ''b'' then [\<lparr>command = kBind, octets = (o0, o1, o2, o3)\<rparr>]
                     else [])
                | _ \<Rightarrow> []))"

text \<open>\<open>None\<close>: there is no file \<open>socks.conf\<close>.\<close>

definition load_firewall_rules :: "string option \<Rightarrow> FirewallRule list" where
  "load_firewall_rules conf =
     (case conf of
        None \<Rightarrow> [permit_all kConnect, permit_all kBind]
      | Some text \<Rightarrow> concat (map load_line (split text NL)))"

definition octet_matches :: "string \<Rightarrow> string \<Rightarrow> bool" where
  "octet_matches pattern octet \<longleftrightarrow> \<not> (pattern \<noteq> ''*'' \<and> pattern \<noteq> octet)"

definition rule_matches :: "FirewallRule \<Rightarrow> 8 word \<Rightarrow> string \<times> string \<times> string \<times> string \<Rightarrow> bool" where
  "rule_matches rule cmd dst =
     (case (octets rule, dst) of ((p0, p1, p2, p3), (d0, d1, d2, d3)) \<Rightarrow>
        command rule = cmd \<and> octet_matches p0 d0 \<and> octet_matches p1 d1 \<and>
        octet_matches p2 d2 \<and> octet_matches p3 d3)"

definition firewall_allows :: "string option \<Rightarrow> 8 word \<Rightarrow> string \<Rightarrow> bool" where
  "firewall_allows conf cmd ip =
     (case split ip CHR ''.'' of
        [d0, d1, d2, d3] \<Rightarrow>
          list_ex (\<lambda>rule. rule_matches rule cmd (d0, d1, d2, d3)) (load_firewall_rules conf)
      | _ \<Rightarrow> False)"

section \<open>Addresses in text\<close>

lemma nat_to_string_no_dot [simp]: "CHR ''.'' \<notin> set (nat_to_string n)"
  using nat_to_string_digits isdigit_neq(1) by blast

lemma split_ip_to_string:
  "split (ip_to_string (a, b, c, d)) CHR ''.'' =
     [nat_to_string (unat a), nat_to_string (unat b), nat_to_string (unat c), nat_to_string (unat d)]"
  by (simp add: ip_to_string_def split_append split_last)

lemma stoi_byte [simp]: "stoi (nat_to_string (unat (b :: 8 word))) = Inr (int (unat b))"
proof -
  have "unat b < 256" using unsigned_less [of b] by simp
  then have "int (unat b) \<le> INT_MAX" by linarith
  then show ?thesis by (rule stoi_nat_to_string)
qed

lemma parse_ip_to_string [simp]: "parse_ipv4 (ip_to_string ip) = Inr ip"
  by (cases ip) (simp add: parse_ipv4_def split_ip_to_string)

section \<open>Ports and bytes\<close>

lemma byte_char [simp]: "byte_of (char_byte b) = b"
proof -
  have "unat b < 256" using unsigned_less [of b] by simp
  then show ?thesis by (simp add: byte_of_def char_byte_def)
qed

lemma char_byte_zero: "char_byte 0 = NUL"
  by (simp add: char_byte_def NUL_def char_of_def)

lemma byte_of_NUL [simp]: "byte_of NUL = 0"
  using byte_char [of 0] by (simp add: char_byte_zero)

lemma port_of_bytes [simp]: "port_of (port_high port) (port_low port) = port"
proof -
  have mask: "(0xFF :: 16 word) = mask 8" by (simp add: mask_eq_exp_minus_1)
  show ?thesis
    unfolding port_of_def port_high_def port_low_def mask
    by (rule bit_word_eqI) (auto simp: bit_simps)
qed

lemma read_null_terminated_append:
  "NUL \<notin> set s \<Longrightarrow> read_null_terminated (s @ NUL # rest) = Some (s, rest)"
  by (induction s) auto

text \<open>What the console asks for is what the server reads.\<close>

lemma read_build_request:
  assumes "stoi port_text = Inr n" and "NUL \<notin> set host"
  obtains packet where "build_socks4a_request host port_text = Inr packet"
    and "read_socks_request (packet @ rest) =
      Some (\<lparr>vn = kSocksVersion, cd = kConnect, dst_port = word_of_int n, raw_dst_ip = (0, 0, 0, 1),
             dst_ip = ''0.0.0.1'', user_id = [], domain_name = host\<rparr>, rest)"
proof -
  define port :: "16 word" where "port = word_of_int n"
  let ?packet = "[char_byte 4, char_byte 1, char_byte (port_high port), char_byte (port_low port),
    char_byte 0, char_byte 0, char_byte 0, char_byte 1, char_byte 0] @ host @ [char_byte 0]"
  have "build_socks4a_request host port_text = Inr ?packet"
    using assms(1) by (simp add: build_socks4a_request_def port_def Let_def)
  moreover have "ip_to_string (0, 0, 0, 1) = ''0.0.0.1''"
    by code_simp
  then have "read_socks_request (?packet @ rest) =
      Some (\<lparr>vn = kSocksVersion, cd = kConnect, dst_port = port, raw_dst_ip = (0, 0, 0, 1),
             dst_ip = ''0.0.0.1'', user_id = [], domain_name = host\<rparr>, rest)"
    using assms(2)
    by (simp add: read_socks_request_def char_byte_zero is_socks4a_ip_def read_null_terminated_append Let_def)
  ultimately show thesis using that by (simp add: port_def)
qed

section \<open>The firewall\<close>

lemma firewall_allows_ip:
  "firewall_allows conf cmd (ip_to_string (a, b, c, d)) \<longleftrightarrow>
     (\<exists>rule \<in> set (load_firewall_rules conf). command rule = cmd \<and>
        (case octets rule of (p0, p1, p2, p3) \<Rightarrow>
           list_all2 (\<lambda>p x. p = ''*'' \<or> p = nat_to_string (unat x)) [p0, p1, p2, p3] [a, b, c, d]))"
  by (auto simp: firewall_allows_def split_ip_to_string list_ex_iff rule_matches_def octet_matches_def
      split: prod.split)

text \<open>A rule as a line of \<open>socks.conf\<close>, with what may follow it: nothing or a comment.\<close>

definition octet_ok :: "string \<Rightarrow> bool" where
  "octet_ok p \<longleftrightarrow> p \<noteq> [] \<and> (\<forall>c \<in> set p. \<not> isspace c \<and> c \<noteq> CHR ''.'' \<and> c \<noteq> CHR ''#'' \<and> c \<noteq> NL)"

definition rule_ok :: "FirewallRule \<Rightarrow> bool" where
  "rule_ok r \<longleftrightarrow> (command r = kConnect \<or> command r = kBind) \<and>
     (case octets r of (p0, p1, p2, p3) \<Rightarrow> octet_ok p0 \<and> octet_ok p1 \<and> octet_ok p2 \<and> octet_ok p3)"

definition print_rule :: "FirewallRule \<Rightarrow> string" where
  "print_rule r =
     (case octets r of (p0, p1, p2, p3) \<Rightarrow>
        ''permit '' @ (if command r = kConnect then ''c'' else ''b'') @ '' '' @
        p0 @ ''.'' @ p1 @ ''.'' @ p2 @ ''.'' @ p3)"

definition comment_ok :: "string \<Rightarrow> bool" where
  "comment_ok s \<longleftrightarrow> (s = [] \<or> hd s = CHR ''#'') \<and> NL \<notin> set s"

lemma takeWhile_comment:
  assumes "CHR ''#'' \<notin> set s" and "comment_ok t"
  shows "takeWhile (\<lambda>c. c \<noteq> CHR ''#'') (s @ t) = s"
proof (cases t)
  case Nil
  then show ?thesis using takeWhile_neq_all [OF assms(1)] by simp
next
  case (Cons a t')
  with assms(2) have "a = CHR ''#''" by (simp add: comment_ok_def)
  with Cons takeWhile_neq_append [OF assms(1)] show ?thesis by simp
qed

lemma octet_okD:
  assumes "octet_ok p"
  shows "p \<noteq> []" and "CHR ''.'' \<notin> set p" and "CHR ''#'' \<notin> set p" and "NL \<notin> set p"
    and "c \<in> set p \<Longrightarrow> \<not> isspace c"
  using assms unfolding octet_ok_def by blast+

lemma load_print_rule:
  assumes ok: "rule_ok r" and t: "comment_ok t"
  shows "load_line (print_rule r @ t) = [r]"
proof -
  obtain p0 p1 p2 p3 where o: "octets r = (p0, p1, p2, p3)" by (cases "octets r")
  let ?c = "if command r = kConnect then CHR ''c'' else CHR ''b''"
  let ?ip = "p0 @ ''.'' @ p1 @ ''.'' @ p2 @ ''.'' @ p3"
  have ps: "octet_ok p0" "octet_ok p1" "octet_ok p2" "octet_ok p3"
    using ok by (simp_all add: rule_ok_def o)
  have print: "print_rule r = ''permit'' @ CHR '' '' # [?c] @ CHR '' '' # ?ip"
    by (simp add: print_rule_def o)
  have "CHR ''#'' \<notin> set (print_rule r)"
    using ps [THEN octet_okD(3)] by (simp add: print)
  then have line: "takeWhile (\<lambda>c. c \<noteq> CHR ''#'') (print_rule r @ t) = print_rule r"
    using t by (rule takeWhile_comment)
  have blank: "isspace CHR '' ''" by (simp add: isspace_def)
  have c: "\<not> isspace ?c" by (simp add: isspace_def)
  have word1: "next_word (print_rule r) = (''permit'', CHR '' '' # [?c] @ CHR '' '' # ?ip)"
    unfolding print by (rule next_word_eq(1)) (simp_all add: isspace_def)
  have "?ip \<noteq> []" "\<forall>c \<in> set ?ip. \<not> isspace c"
    using ps [THEN octet_okD(1)] ps [THEN octet_okD(5)] by (auto simp: isspace_def)
  then have "next_word ?ip = (?ip, [])" by (rule next_word_eq(2))
  moreover have "next_word (CHR '' '' # s) = next_word s" for s
    by (simp add: next_word_def blank)
  ultimately have word2: "next_word (CHR '' '' # ?ip) = (?ip, [])" by simp
  have extr: "extract_rule (print_rule r) = Some (''permit'', ?c, ?ip)"
    unfolding extract_rule_def word1 Let_def prod.case
    using c \<open>?ip \<noteq> []\<close> word2 by (simp add: blank)
  have dots: "CHR ''.'' \<notin> set p0" "CHR ''.'' \<notin> set p1" "CHR ''.'' \<notin> set p2" "CHR ''.'' \<notin> set p3" "p3 \<noteq> []"
    using ps octet_okD by blast+
  then have "split ?ip CHR ''.'' = [p0, p1, p2, p3]"
    by (simp add: split_append split_last)
  moreover have "command r = kConnect \<or> command r = kBind" using ok by (simp add: rule_ok_def)
  moreover have "r = \<lparr>command = command r, octets = (p0, p1, p2, p3)\<rparr>" using o by (cases r) simp
  ultimately show ?thesis
    unfolding load_line_def line extr by auto
qed

definition print_conf :: "(FirewallRule \<times> string) list \<Rightarrow> string" where
  "print_conf rs = concat (map (\<lambda>(r, t). print_rule r @ t @ [NL]) rs)"

lemma load_print_conf:
  "\<forall>(r, t) \<in> set rs. rule_ok r \<and> comment_ok t \<Longrightarrow> load_firewall_rules (Some (print_conf rs)) = map fst rs"
proof (induction rs)
  case Nil
  then show ?case by (simp add: print_conf_def load_firewall_rules_def)
next
  case (Cons rt rs)
  obtain r t where rt: "rt = (r, t)" by fastforce
  with Cons.prems have ok: "rule_ok r" "comment_ok t" by auto
  obtain p0 p1 p2 p3 where o: "octets r = (p0, p1, p2, p3)" by (cases "octets r")
  have "NL \<notin> set (print_rule r @ t)"
    using ok octet_okD(4) by (simp add: print_rule_def rule_ok_def o comment_ok_def)
  from split_append [OF this, of "print_conf rs"]
  have "split (print_conf (rt # rs)) NL = (print_rule r @ t) # split (print_conf rs) NL"
    by (simp add: print_conf_def rt)
  with Cons load_print_rule [OF ok] show ?case
    by (simp add: load_firewall_rules_def rt)
qed

end
