(* ===== verification/Console_Session.thy ===== *)
theory Console_Session
  imports Console_Text Socks_Protocol
begin

text \<open>
  The sessions of the consoles: how a prompt is found in the chunks a socket delivers, and
  \<open>RemoteBatchSession\<close> of \<open>projects/03-http-cgi-console/console_components.cpp\<close> and
  \<open>projects/04-socks-proxy/console_components.hpp\<close> with \<open>SocksBatchSession\<close>, as machines whose steps are
  the completion handlers. A handler is the event of the operation it was started for, with its error
  code; an event that no operation is waiting for changes nothing.
\<close>

section \<open>Prompts\<close>

definition prompt :: string where
  "prompt = ''% ''"

text \<open>\<open>do_read\<close> of the third project: \<open>has_prompt\<close> and the new \<open>last_char_was_percent_\<close>.\<close>

definition detect3 :: "bool \<Rightarrow> string \<Rightarrow> bool \<times> bool" where
  "detect3 last_char_was_percent content =
     (contains prompt content \<or> (last_char_was_percent \<and> content \<noteq> [] \<and> hd content = CHR '' ''),
      content \<noteq> [] \<and> last content = CHR ''%'')"

definition received_prompt :: "string \<Rightarrow> string \<Rightarrow> bool \<times> string" where
  "received_prompt prompt_tail data =
     (let combined = prompt_tail @ data
      in if contains prompt combined then (True, [])
         else (False, if combined = [] then [] else [last combined]))"

text \<open>
  The interface: the state says whether the text so far ends in a percent sign, and a prompt is found
  when it lies in the chunk or across its beginning. Then it does not matter how the text is cut into
  chunks.
\<close>

definition percent_if :: "bool \<Rightarrow> string" where
  "percent_if b = (if b then ''%'' else [])"

locale prompt_detector =
  fixes feed :: "'s \<Rightarrow> string \<Rightarrow> bool \<times> 's" and percent :: "'s \<Rightarrow> bool" and valid :: "'s \<Rightarrow> bool"
  assumes feed_found: "valid st \<Longrightarrow> d \<noteq> [] \<Longrightarrow> fst (feed st d) \<longleftrightarrow> contains prompt (percent_if (percent st) @ d)"
    and feed_percent: "valid st \<Longrightarrow> d \<noteq> [] \<Longrightarrow> \<not> fst (feed st d) \<Longrightarrow> percent (snd (feed st d)) \<longleftrightarrow> last d = CHR ''%''"
    and feed_valid: "valid st \<Longrightarrow> valid (snd (feed st d))"
begin

fun undetected :: "'s \<Rightarrow> string list \<Rightarrow> bool" where
  "undetected st [] = True"
| "undetected st (d # ds) = (\<not> fst (feed st d) \<and> undetected (snd (feed st d)) ds)"

end

lemma contains_prompt_append:
  "contains prompt (s @ t) \<longleftrightarrow>
     contains prompt s \<or> contains prompt (percent_if (s \<noteq> [] \<and> last s = CHR ''%'') @ t)"
proof (induction s)
  case Nil
  then show ?case by (simp add: percent_if_def prompt_def)
next
  case (Cons c s)
  show ?case
  proof (cases s)
    case Nil
    then show ?thesis by (auto simp: percent_if_def prompt_def)
  next
    case (Cons d s')
    then show ?thesis using Cons.IH by (simp add: prompt_def)
  qed
qed

lemma contains_prompt_single [simp]: "\<not> contains prompt (percent_if b)"
  by (simp add: percent_if_def prompt_def)

context prompt_detector
begin

lemma undetected_iff:
  "valid st \<Longrightarrow> \<forall>d \<in> set ds. d \<noteq> [] \<Longrightarrow>
     undetected st ds \<longleftrightarrow> \<not> contains prompt (percent_if (percent st) @ concat ds)"
proof (induction ds arbitrary: st)
  case (Cons d ds)
  let ?p = "percent_if (percent st)"
  have d: "d \<noteq> []" using Cons.prems by simp
  have found: "fst (feed st d) \<longleftrightarrow> contains prompt (?p @ d)"
    using feed_found [OF Cons.prems(1) d] .
  show ?case
  proof (cases "contains prompt (?p @ d)")
    case True
    then have "contains prompt ((?p @ d) @ concat ds)"
      using contains_prompt_append [of "?p @ d"] by blast
    with True found show ?thesis by simp
  next
    case False
    let ?st = "snd (feed st d)"
    have "percent ?st \<longleftrightarrow> last (?p @ d) = CHR ''%''"
      using feed_percent [OF Cons.prems(1) d] False found d by simp
    then have "contains prompt ((?p @ d) @ concat ds) \<longleftrightarrow> contains prompt (percent_if (percent ?st) @ concat ds)"
      using False d contains_prompt_append [of "?p @ d" "concat ds"] by simp
    moreover have "undetected ?st ds \<longleftrightarrow> \<not> contains prompt (percent_if (percent ?st) @ concat ds)"
      using Cons.prems feed_valid by (intro Cons.IH) auto
    ultimately show ?thesis using False found by simp
  qed
qed simp

end

lemma contains_prompt_Cons:
  "contains prompt (c # d) \<longleftrightarrow> (c = CHR ''%'' \<and> d \<noteq> [] \<and> hd d = CHR '' '') \<or> contains prompt d"
  by (cases d) (auto simp: prompt_def)

interpretation detector3: prompt_detector detect3 "\<lambda>b. b" "\<lambda>b. True"
  by unfold_locales (auto simp: detect3_def percent_if_def contains_prompt_Cons simp del: contains.simps(2))

interpretation detector4: prompt_detector received_prompt "\<lambda>t. t = ''%''" "\<lambda>t. length t \<le> 1"
proof
  fix st d :: string assume st: "length st \<le> 1" and d: "d \<noteq> []"
  consider "st = []" | c where "st = [c]" using st by (cases st) auto
  then show found: "fst (received_prompt st d) \<longleftrightarrow> contains prompt (percent_if (st = ''%'') @ d)"
    by cases (auto simp: received_prompt_def Let_def percent_if_def contains_prompt_Cons simp del: contains.simps(2))
  assume "\<not> fst (received_prompt st d)"
  then show "snd (received_prompt st d) = ''%'' \<longleftrightarrow> last d = CHR ''%''"
    using d by (auto simp: received_prompt_def Let_def split: if_splits)
next
  fix st d :: string assume "length st \<le> 1"
  then show "length (snd (received_prompt st d)) \<le> 1"
    by (simp add: received_prompt_def Let_def)
qed

section \<open>The session of the third project\<close>

definition strip_cr :: "string \<Rightarrow> string" where
  "strip_cr line = (if line \<noteq> [] \<and> last line = CR then butlast line else line)"

text \<open>The argument is the content of the file, \<open>None\<close> when it cannot be opened.\<close>

definition load_commands3 :: "string \<Rightarrow> string option \<Rightarrow> string + string list" where
  "load_commands3 file_name content =
     (case content of
        None \<Rightarrow> Inl (''cannot open test_case/'' @ file_name)
      | Some text \<Rightarrow> Inr (map (\<lambda>line. strip_cr line @ [NL]) (split text NL)))"

datatype operation = Resolve | Connect | ReadSome | WriteCommand string | NoOperation

datatype event =
    Resolved "string option"
  | Connected "string option"
  | ReadDone "string option"
  | WriteDone bool

record session =
  session_id :: nat
  commands :: "string list"
  next_command :: nat
  last_char_was_percent :: bool
  finished :: bool
  done_calls :: nat
  console_output :: "string list"
  waiting :: operation

definition emit :: "string \<Rightarrow> bool \<Rightarrow> session \<Rightarrow> session" where
  "emit content cmd s =
     s\<lparr>console_output := console_output s @ [make_console_script (session_id s) content cmd]\<rparr>"

definition finish :: "session \<Rightarrow> session" where
  "finish s =
     (if finished s then s
      else s\<lparr>finished := True, done_calls := done_calls s + 1, waiting := NoOperation\<rparr>)"

definition session_start :: "nat \<Rightarrow> string \<Rightarrow> string option \<Rightarrow> session" where
  "session_start i file_name content =
     (let s = \<lparr>session_id = i, commands = [], next_command = 0, last_char_was_percent = False,
               finished = False, done_calls = 0, console_output = [], waiting = NoOperation\<rparr>
      in case load_commands3 file_name content of
           Inl e \<Rightarrow> finish (emit (e @ [NL]) False s)
         | Inr cs \<Rightarrow> s\<lparr>commands := cs, waiting := Resolve\<rparr>)"

definition send_next_command :: "session \<Rightarrow> session" where
  "send_next_command s =
     (if next_command s \<ge> length (commands s) then finish s
      else
        (let c = commands s ! next_command s;
             s1 = emit c True (s\<lparr>next_command := next_command s + 1\<rparr>)
         in s1\<lparr>waiting := WriteCommand c\<rparr>))"

fun session_event :: "event \<Rightarrow> session \<Rightarrow> session" where
  "session_event (Resolved error) s =
     (if waiting s \<noteq> Resolve then s
      else case error of
             Some message \<Rightarrow> finish (emit (message @ [NL]) False s)
           | None \<Rightarrow> s\<lparr>waiting := Connect\<rparr>)"
| "session_event (Connected error) s =
     (if waiting s \<noteq> Connect then s
      else case error of
             Some message \<Rightarrow> finish (emit (message @ [NL]) False s)
           | None \<Rightarrow> s\<lparr>waiting := ReadSome\<rparr>)"
| "session_event (ReadDone data) s =
     (if waiting s \<noteq> ReadSome then s
      else case data of
             None \<Rightarrow> finish s
           | Some content \<Rightarrow>
               (let s1 = emit content False s;
                    (has_prompt, last') = detect3 (last_char_was_percent s1) content;
                    s2 = s1\<lparr>last_char_was_percent := last'\<rparr>
                in if has_prompt then send_next_command s2 else s2\<lparr>waiting := ReadSome\<rparr>))"
| "session_event (WriteDone ok) s =
     (case waiting s of
        WriteCommand _ \<Rightarrow> if ok then s\<lparr>waiting := ReadSome\<rparr> else finish s
      | _ \<Rightarrow> s)"

definition run_session :: "event list \<Rightarrow> session \<Rightarrow> session" where
  "run_session events s = fold session_event events s"

text \<open>
  The invariant: a session waits for an operation until it is finished, it is finished once, it has
  told its owner so once, and it never goes beyond its commands.
\<close>

definition session_ok :: "session \<Rightarrow> bool" where
  "session_ok s \<longleftrightarrow> (finished s \<longleftrightarrow> waiting s = NoOperation) \<and>
     done_calls s = (if finished s then 1 else 0) \<and> next_command s \<le> length (commands s)"

lemma finish_ok: "session_ok s \<Longrightarrow> session_ok (finish s)"
  by (auto simp: session_ok_def finish_def)

lemma emit_simps [simp]:
  "waiting (emit c b s) = waiting s" "finished (emit c b s) = finished s"
  "done_calls (emit c b s) = done_calls s" "commands (emit c b s) = commands s"
  "next_command (emit c b s) = next_command s" "session_id (emit c b s) = session_id s"
  "last_char_was_percent (emit c b s) = last_char_was_percent s"
  by (simp_all add: emit_def)

lemma emit_ok [simp]: "session_ok (emit c b s) = session_ok s"
  by (simp add: session_ok_def)

lemma send_next_ok: "session_ok s \<Longrightarrow> \<not> finished s \<Longrightarrow> session_ok (send_next_command s)"
  by (auto simp: send_next_command_def Let_def intro: finish_ok) (auto simp: session_ok_def)

lemma session_event_ok: "session_ok s \<Longrightarrow> session_ok (session_event e s)"
proof (induction e s rule: session_event.induct)
  case (3 data s)
  show ?case
  proof (cases "waiting s = ReadSome")
    case True
    then have live: "\<not> finished s" using 3 by (auto simp: session_ok_def)
    have "session_ok (s'\<lparr>last_char_was_percent := b\<rparr>) = session_ok s'" for s' b
      by (simp add: session_ok_def)
    then show ?thesis
      using 3 True live
      by (auto simp: Let_def finish_ok session_ok_def [of "_\<lparr>waiting := _\<rparr>"] split: option.split prod.split
          intro!: send_next_ok) (auto simp: session_ok_def)
  qed (use 3 in simp)
qed (auto simp: session_ok_def finish_def split: option.split operation.split)

lemma session_run_ok: "session_ok s \<Longrightarrow> session_ok (run_session es s)"
  unfolding run_session_def by (induction es arbitrary: s) (simp_all add: session_event_ok)

lemma session_start_ok: "session_ok (session_start i f content)"
  by (cases "load_commands3 f content")
    (simp_all add: session_start_def session_ok_def finish_def emit_def Let_def)

text \<open>A prompt is in a chunk, whatever the state: then the next command goes out.\<close>

definition round_events :: "string \<Rightarrow> event list" where
  "round_events d = [ReadDone (Some d), WriteDone True]"

definition has_prompt :: "string \<Rightarrow> bool" where
  "has_prompt d = contains prompt d"

lemma session_round:
  assumes "waiting s = ReadSome" and "has_prompt d" and "next_command s < length (commands s)"
  shows "waiting (run_session (round_events d) s) = ReadSome \<and>
    next_command (run_session (round_events d) s) = Suc (next_command s) \<and>
    commands (run_session (round_events d) s) = commands s \<and>
    done_calls (run_session (round_events d) s) = done_calls s \<and>
    session_id (run_session (round_events d) s) = session_id s \<and>
    finished (run_session (round_events d) s) = finished s \<and>
    console_output (run_session (round_events d) s) = console_output s @
      [make_console_script (session_id s) d False,
       make_console_script (session_id s) (commands s ! next_command s) True]"
proof -
  have "detect3 (last_char_was_percent s) d = (True, d \<noteq> [] \<and> last d = CHR ''%'')"
    using assms(2) by (simp add: detect3_def has_prompt_def)
  then show ?thesis
    using assms by (auto simp: run_session_def round_events_def Let_def send_next_command_def emit_def split: prod.split)
qed

lemma session_run_append: "run_session (es @ es') s = run_session es' (run_session es s)"
  by (simp add: run_session_def)

lemma session_last:
  assumes "waiting s = ReadSome" and "has_prompt d" and "next_command s = length (commands s)" and "\<not> finished s"
  shows "finished (run_session [ReadDone (Some d)] s) \<and> done_calls (run_session [ReadDone (Some d)] s) = done_calls s + 1 \<and>
    commands (run_session [ReadDone (Some d)] s) = commands s \<and>
    next_command (run_session [ReadDone (Some d)] s) = next_command s \<and>
    console_output (run_session [ReadDone (Some d)] s) =
      console_output s @ [make_console_script (session_id s) d False]"
proof -
  have "detect3 (last_char_was_percent s) d = (True, d \<noteq> [] \<and> last d = CHR ''%'')"
    using assms(2) by (simp add: detect3_def has_prompt_def)
  then show ?thesis
    using assms by (auto simp: run_session_def Let_def send_next_command_def emit_def finish_def split: prod.split)
qed

text \<open>What a user sees of a conversation: answers and commands in turn.\<close>

fun transcript :: "nat \<Rightarrow> string list \<Rightarrow> string list \<Rightarrow> string list" where
  "transcript i (d # ds) (c # cs) =
     make_console_script i d False # make_console_script i c True # transcript i ds cs"
| "transcript i ds [] = map (\<lambda>d. make_console_script i d False) ds"
| "transcript i [] cs = []"

lemma session_conversation:
  assumes "waiting s = ReadSome" and "\<not> finished s" and "\<forall>d \<in> set ds. has_prompt d"
    and "length ds = Suc (length (commands s) - next_command s)" and "next_command s \<le> length (commands s)"
  shows "\<exists>s'. s' = run_session (concat (map round_events (butlast ds)) @ [ReadDone (Some (last ds))]) s \<and>
    finished s' \<and> done_calls s' = done_calls s + 1 \<and> next_command s' = length (commands s) \<and>
    commands s' = commands s \<and>
    console_output s' = console_output s @ transcript (session_id s) ds (drop (next_command s) (commands s))"
  using assms
proof (induction ds arbitrary: s)
  case (Cons d ds)
  show ?case
  proof (cases ds)
    case Nil
    then have "next_command s = length (commands s)" using Cons.prems by simp
    with session_last [OF Cons.prems(1) _ this Cons.prems(2), of d] Cons.prems(3) Nil
    show ?thesis by simp
  next
    case more: (Cons d' ds')
    then have lt: "next_command s < length (commands s)" using Cons.prems(4,5) by simp
    let ?s = "run_session (round_events d) s"
    note r = session_round [OF Cons.prems(1) _ lt, of d]
    have "\<exists>s'. s' = run_session (concat (map round_events (butlast ds)) @ [ReadDone (Some (last ds))]) ?s \<and>
      finished s' \<and> done_calls s' = done_calls ?s + 1 \<and> next_command s' = length (commands ?s) \<and>
      commands s' = commands ?s \<and>
      console_output s' = console_output ?s @ transcript (session_id ?s) ds (drop (next_command ?s) (commands ?s))"
      using Cons.prems r lt by (intro Cons.IH) auto
    moreover have "drop (next_command s) (commands s) =
        commands s ! next_command s # drop (Suc (next_command s)) (commands s)"
      using lt by (simp add: Cons_nth_drop_Suc)
    ultimately show ?thesis using r Cons.prems(3) more by (simp add: session_run_append)
  qed
qed simp

section \<open>The sessions of the fourth project\<close>

definition load_commands4 :: "string option \<Rightarrow> string list" where
  "load_commands4 content =
     (case content of None \<Rightarrow> [] | Some text \<Rightarrow> map (\<lambda>line. line @ [NL]) (split text NL))"

datatype operation4 =
  Resolve4 | Connect4 | SendRequest string | ReadReply | ReadSome4 | WriteCommand4 string | Idle

datatype event4 =
    Resolved4 bool
  | Connected4 bool
  | RequestSent bool
  | ReplyRead "8 word list option"
  | ReadDone4 "string option"
  | WriteDone4 bool

text \<open>\<open>socks\<close>: a \<open>SocksBatchSession\<close>, for which the host and port of the target go into the request.\<close>

record session4 =
  session_id4 :: nat
  config4 :: RemoteSessionConfig
  socks :: bool
  commands4 :: "string list"
  next_command4 :: nat
  prompt_tail :: string
  console_output4 :: "string list"
  waiting4 :: operation4

definition start4 :: "nat \<Rightarrow> RemoteSessionConfig \<Rightarrow> bool \<Rightarrow> string option \<Rightarrow> session4" where
  "start4 i config via_socks content =
     \<lparr>session_id4 = i, config4 = config, socks = via_socks, commands4 = load_commands4 content,
      next_command4 = 0, prompt_tail = [], console_output4 = [], waiting4 = Resolve4\<rparr>"

definition emit4 :: "string \<Rightarrow> bool \<Rightarrow> session4 \<Rightarrow> session4" where
  "emit4 text escape_html s =
     s\<lparr>console_output4 := console_output4 s @ [output_text (session_id4 s) text escape_html]\<rparr>"

definition write_next_command :: "session4 \<Rightarrow> session4" where
  "write_next_command s =
     (if next_command4 s \<ge> length (commands4 s) then s\<lparr>waiting4 := ReadSome4\<rparr>
      else
        (let c = commands4 s ! next_command4 s;
             s1 = emit4 (''<b>'' @ html_escape4 c @ ''</b>'') False (s\<lparr>next_command4 := next_command4 s + 1\<rparr>)
         in s1\<lparr>waiting4 := WriteCommand4 c\<rparr>))"

text \<open>The part of \<open>SocksBatchSession\<close>: the request after the connection, and the reply.\<close>

definition send_socks_request :: "session4 \<Rightarrow> session4 result" where
  "send_socks_request s =
     bindR (build_socks4a_request (host (config4 s)) (port (config4 s)))
       (\<lambda>packet. Inr (s\<lparr>waiting4 := SendRequest packet\<rparr>))"

definition read_socks_reply :: "8 word list \<Rightarrow> session4 \<Rightarrow> session4" where
  "read_socks_reply bytes s = s\<lparr>waiting4 := (if bytes ! 1 = kReplyGranted then ReadSome4 else Idle)\<rparr>"

text \<open>An exception in a handler, from \<open>std::stoi\<close> of the port, leaves \<open>io_context.run()\<close>: \<open>Inl\<close>.\<close>

fun step4 :: "event4 \<Rightarrow> session4 \<Rightarrow> session4 result" where
  "step4 (Resolved4 ok) s =
     (if waiting4 s \<noteq> Resolve4 then Inr s
      else Inr (s\<lparr>waiting4 := (if ok then Connect4 else Idle)\<rparr>))"
| "step4 (Connected4 ok) s =
     (if waiting4 s \<noteq> Connect4 then Inr s
      else if \<not> ok then Inr (s\<lparr>waiting4 := Idle\<rparr>)
      else if socks s then send_socks_request s
      else Inr (s\<lparr>waiting4 := ReadSome4\<rparr>))"
| "step4 (RequestSent ok) s =
     (case waiting4 s of
        SendRequest _ \<Rightarrow> Inr (s\<lparr>waiting4 := (if ok then ReadReply else Idle)\<rparr>)
      | _ \<Rightarrow> Inr s)"
| "step4 (ReplyRead packet) s =
     (if waiting4 s \<noteq> ReadReply then Inr s
      else case packet of
             None \<Rightarrow> Inr (s\<lparr>waiting4 := Idle\<rparr>)
           | Some bytes \<Rightarrow> Inr (read_socks_reply bytes s))"
| "step4 (ReadDone4 data) s =
     (if waiting4 s \<noteq> ReadSome4 then Inr s
      else case data of
             None \<Rightarrow> Inr (s\<lparr>waiting4 := Idle\<rparr>)
           | Some text \<Rightarrow>
               (let s1 = emit4 text True s;
                    (found, tail) = received_prompt (prompt_tail s1) text;
                    s2 = s1\<lparr>prompt_tail := tail\<rparr>
                in Inr (if found then write_next_command s2 else s2\<lparr>waiting4 := ReadSome4\<rparr>)))"
| "step4 (WriteDone4 ok) s =
     (case waiting4 s of
        WriteCommand4 _ \<Rightarrow> Inr (s\<lparr>waiting4 := (if ok then ReadSome4 else Idle)\<rparr>)
      | _ \<Rightarrow> Inr s)"

fun run4 :: "event4 list \<Rightarrow> session4 \<Rightarrow> session4 result" where
  "run4 [] s = Inr s"
| "run4 (e # es) s = bindR (step4 e s) (run4 es)"

text \<open>Before the proxy has granted the request, a session through it has sent no command.\<close>

definition before_grant :: "session4 \<Rightarrow> bool" where
  "before_grant s \<longleftrightarrow> (\<forall>c. waiting4 s \<noteq> WriteCommand4 c) \<and> waiting4 s \<noteq> ReadSome4"

definition grants :: "event4 \<Rightarrow> bool" where
  "grants e \<longleftrightarrow> (\<exists>bytes. e = ReplyRead (Some bytes) \<and> bytes ! 1 = kReplyGranted)"

lemma before_grant_event:
  assumes "socks s" and "before_grant s" and "\<not> grants e" and "step4 e s = Inr s'"
  shows "socks s' \<and> before_grant s' \<and> next_command4 s' = next_command4 s \<and>
    console_output4 s' = console_output4 s \<and> commands4 s' = commands4 s"
  using assms
  by (cases e) (auto simp: before_grant_def grants_def send_socks_request_def read_socks_reply_def split: if_splits option.splits operation4.splits)

lemma before_grant_run:
  "socks s \<Longrightarrow> before_grant s \<Longrightarrow> \<forall>e \<in> set es. \<not> grants e \<Longrightarrow> run4 es s = Inr s' \<Longrightarrow>
     next_command4 s' = next_command4 s \<and> console_output4 s' = console_output4 s"
proof (induction es arbitrary: s)
  case (Cons e es)
  then obtain s1 where s1: "step4 e s = Inr s1" "run4 es s1 = Inr s'" by auto
  from before_grant_event [OF Cons.prems(1,2) _ s1(1)] Cons.prems(3)
  have "socks s1 \<and> before_grant s1 \<and> next_command4 s1 = next_command4 s \<and> console_output4 s1 = console_output4 s"
    by simp
  with Cons.IH [of s1] Cons.prems(3) s1(2) show ?case by simp
qed simp

end
