(* ===== verification/Http_Server.thy ===== *)
theory Http_Server
  imports Console_Pages Console_Session Posix
begin

text \<open>
  The HTTP side of \<open>projects/03-http-cgi-console\<close>: \<open>parse_http_request\<close> of \<open>console_components.cpp\<close>, the
  decisions of \<open>http_server.cpp\<close>, and \<open>CgiHttpSession\<close> of \<open>cgi_server.cpp\<close>, which serves the pages itself
  and sends what its remote sessions produce through a queue with one write in flight.
\<close>

section \<open>Requests\<close>

record HttpRequest =
  http_method :: string
  uri :: string
  target :: string
  path :: string
  query :: string
  protocol :: string
  http_host :: string

definition lower :: "string \<Rightarrow> string" where
  "lower s = map tolower s"

text \<open>One header line, without its carriage return: the value of a \<open>Host\<close> header replaces the old one.\<close>

definition parse_header :: "string \<Rightarrow> string \<Rightarrow> string" where
  "parse_header line h =
     (case dropWhile (\<lambda>c. c \<noteq> CHR '':'') line of
        [] \<Rightarrow> h
      | _ # after_colon \<Rightarrow>
          (let name = takeWhile (\<lambda>c. c \<noteq> CHR '':'') line;
               val = dropWhile (\<lambda>c. c = CHR '' '') after_colon
           in if lower name = ''host'' then val else h))"

text \<open>The loop over the header lines, up to the empty line.\<close>

primrec parse_headers :: "string list \<Rightarrow> string \<Rightarrow> string" where
  "parse_headers [] h = h"
| "parse_headers (line # lines) h =
     (if strip_cr line = [] then h else parse_headers lines (parse_header (strip_cr line) h))"

definition parse_http_request :: "string \<Rightarrow> HttpRequest" where
  "parse_http_request raw_request =
     (let (m, s1) = next_word raw_request;
          (t, s2) = next_word s1;
          (p, s3) = next_word s2;
          query_part = dropWhile (\<lambda>c. c \<noteq> CHR ''?'') t;
          headers = (if p = [] then [] else tl (split s3 NL))
      in \<lparr>http_method = m, uri = t, target = t, path = takeWhile (\<lambda>c. c \<noteq> CHR ''?'') t, query = tl query_part,
          protocol = p, http_host = parse_headers headers []\<rparr>)"

text \<open>A request as a client writes it.\<close>

definition CRLF :: string where
  "CRLF = [CR, NL]"

definition print_request :: "string \<Rightarrow> string \<Rightarrow> string \<Rightarrow> string \<Rightarrow> string" where
  "print_request m t p h =
     m @ '' '' @ t @ '' '' @ p @ CRLF @ ''Host: '' @ h @ CRLF @ CRLF"

definition http_word :: "string \<Rightarrow> bool" where
  "http_word w \<longleftrightarrow> w \<noteq> [] \<and> (\<forall>c \<in> set w. \<not> isspace c)"

lemma next_word_blank: "isspace c \<Longrightarrow> next_word (c # s) = next_word s"
  by (simp add: next_word_def)

lemma next_word_before:
  assumes "http_word w" and "isspace c"
  shows "next_word (w @ c # s) = (w, c # s)"
  using assms
  by (cases w) (auto simp: http_word_def next_word_def Let_def takeWhile_append dropWhile_append takeWhile_all dropWhile_all)

lemma isspace_cases: "isspace CHR '' ''" "isspace CR" "isspace NL"
  by (simp_all add: isspace_def)

lemma parse_print_request:
  assumes "http_word m" and "http_word t" and "http_word p"
    and "NL \<notin> set h" and "h \<noteq> []" and "last h \<noteq> CR" and "hd h \<noteq> CHR '' ''"
  shows "parse_http_request (print_request m t p h) =
     \<lparr>http_method = m, uri = t, target = t, path = takeWhile (\<lambda>c. c \<noteq> CHR ''?'') t,
      query = tl (dropWhile (\<lambda>c. c \<noteq> CHR ''?'') t), protocol = p, http_host = h\<rparr>"
proof -
  let ?rest = "CHR ''H'' # ''ost: '' @ h @ CRLF @ CRLF"
  have w1: "next_word (print_request m t p h) = (m, CHR '' '' # t @ CHR '' '' # p @ CR # NL # ?rest)"
    using next_word_before [OF assms(1) isspace_cases(1), of "t @ CHR '' '' # p @ CR # NL # ?rest"]
    by (simp add: print_request_def CRLF_def)
  have w2: "next_word (CHR '' '' # t @ CHR '' '' # p @ CR # NL # ?rest) = (t, CHR '' '' # p @ CR # NL # ?rest)"
    using next_word_before [OF assms(2) isspace_cases(1), of "p @ CR # NL # ?rest"]
    by (simp add: next_word_blank isspace_cases)
  have w3: "next_word (CHR '' '' # p @ CR # NL # ?rest) = (p, CR # NL # ?rest)"
    using next_word_before [OF assms(3) isspace_cases(2), of "NL # ?rest"]
    by (simp add: next_word_blank isspace_cases)
  have "split (CR # NL # ?rest) NL = [CR] # split ?rest NL"
    using split_append [of NL "[CR]" ?rest] by simp
  moreover have "split ?rest NL = (''Host: '' @ h @ [CR]) # split [CR, NL] NL"
    using split_append [of NL "''Host: '' @ h @ [CR]" "[CR, NL]"] assms(4) by (simp add: CRLF_def)
  moreover have "split [CR, NL] NL = [[CR]]"
    using split_append [of NL "[CR]" "[]"] by simp
  ultimately have lines: "tl (split (CR # NL # ?rest) NL) = [''Host: '' @ h @ [CR], [CR]]" by simp
  have "dropWhile (\<lambda>c. c = CHR '' '') h = h" using assms(5,7) by (cases h) auto
  moreover have "lower ''Host'' = ''host''" by code_simp
  ultimately have headers: "parse_headers [''Host: '' @ h @ [CR], [CR]] [] = h"
    by (simp add: strip_cr_def parse_header_def Let_def butlast_append)
  have "p \<noteq> []" using assms(3) by (simp add: http_word_def)
  then show ?thesis
    unfolding parse_http_request_def w1 Let_def prod.case w2 w3 by (simp only: if_False lines headers)
qed

section \<open>The server with external programs\<close>

definition is_valid_cgi_path :: "string \<Rightarrow> bool" where
  "is_valid_cgi_path p \<longleftrightarrow>
     \<not> (length p < 2 \<or> hd p \<noteq> CHR ''/'') \<and> \<not> contains ''..'' p \<and>
     length p \<ge> 4 \<and> drop (length p - 4) p = ''.cgi''"

definition complete_request :: "string \<Rightarrow> bool" where
  "complete_request data = contains (CRLF @ CRLF) data"

text \<open>The two ends of the connection, as \<open>local_endpoint\<close> and \<open>remote_endpoint\<close> tell them.\<close>

record endpoints =
  server_addr :: string
  server_port :: nat
  remote_addr :: string
  remote_port_number :: nat

text \<open>
  What becomes of the connection: the server reads on, it answers itself, or a child answers with the
  text and then runs a program with an environment (and answers \<open>exec failed\<close> if it cannot).
\<close>

datatype http_action =
    ReadMore
  | Answer string
  | Execute string string "(string \<times> string) list"

definition cgi_variables :: "HttpRequest \<Rightarrow> endpoints \<Rightarrow> (string \<times> string) list" where
  "cgi_variables request ends =
     [(''REQUEST_METHOD'', http_method request), (''REQUEST_URI'', uri request), (''QUERY_STRING'', query request),
      (''SERVER_PROTOCOL'', protocol request), (''HTTP_HOST'', http_host request),
      (''SERVER_ADDR'', server_addr ends), (''SERVER_PORT'', nat_to_string (server_port ends)),
      (''REMOTE_ADDR'', remote_addr ends), (''REMOTE_PORT'', nat_to_string (remote_port_number ends))]"

text \<open>\<open>executable\<close> is the answer of \<open>access\<close>, \<open>environ\<close> the environment of the server.\<close>

definition execute_cgi ::
  "(string \<Rightarrow> bool) \<Rightarrow> (string \<times> string) list \<Rightarrow> endpoints \<Rightarrow> HttpRequest \<Rightarrow> http_action" where
  "execute_cgi executable environ ends request =
     (let program = ''.'' @ path request
      in if \<not> is_valid_cgi_path (path request) \<or> \<not> executable program then
           Answer (''HTTP/1.1 404 Not Found'' @ CRLF @ ''Content-type: text/plain'' @ CRLF @ CRLF @
                   ''Not Found'' @ [NL])
         else
           Execute (''HTTP/1.1 200 OK'' @ CRLF) program
             (fold (\<lambda>(k, v). sys_setenv k v) (cgi_variables request ends) environ))"

definition forbidden_answer :: string where
  "forbidden_answer =
     ''HTTP/1.1 403 Forbidden'' @ CRLF @ ''Content-type: text/plain'' @ CRLF @ CRLF @ ''Forbidden'' @ [NL]"

text \<open>One completed read: \<open>request_data\<close> is what the session holds then.\<close>

definition http_dispatch ::
  "(string \<Rightarrow> bool) \<Rightarrow> (string \<times> string) list \<Rightarrow> endpoints \<Rightarrow> string \<Rightarrow> http_action" where
  "http_dispatch executable environ ends request_data =
     (if \<not> complete_request request_data then ReadMore
      else
        (let request = parse_http_request request_data
         in if path request \<noteq> ''/panel.cgi'' then Answer forbidden_answer
            else execute_cgi executable environ ends request))"

text \<open>Reading goes on until a request is complete.\<close>

fun http_session ::
  "(string \<Rightarrow> bool) \<Rightarrow> (string \<times> string) list \<Rightarrow> endpoints \<Rightarrow> string \<Rightarrow> string list \<Rightarrow> http_action" where
  "http_session executable environ ends request_data [] = ReadMore"
| "http_session executable environ ends request_data (d # ds) =
     (case http_dispatch executable environ ends (request_data @ d) of
        ReadMore \<Rightarrow> http_session executable environ ends (request_data @ d) ds
      | action \<Rightarrow> action)"

lemma cgi_env_names: "\<forall>k \<in> fst ` set (cgi_variables request ends). env_name k"
  by (simp add: cgi_variables_def env_name_def)

lemma cgi_env_distinct: "distinct (map fst (cgi_variables request ends))"
  by (simp add: cgi_variables_def)

lemma getenv_setenv_all:
  "\<forall>k \<in> fst ` set kvs. env_name k \<Longrightarrow> distinct (map fst kvs) \<Longrightarrow> (k, v) \<in> set kvs \<Longrightarrow>
     sys_getenv k (fold (\<lambda>(k, v). sys_setenv k v) kvs e) = Some v"
proof (induction kvs arbitrary: e)
  case (Cons kv kvs)
  have other: "sys_getenv k' (fold (\<lambda>(k, v). sys_setenv k v) ls e) = sys_getenv k' e"
    if "k' \<notin> fst ` set ls" "\<forall>k \<in> fst ` set ls. env_name k" for k' ls and e :: "(string \<times> string) list"
    using that by (induction ls arbitrary: e) (auto simp: getenv_setenv)
  show ?case
  proof (cases "(k, v) \<in> set kvs")
    case False
    then have kv: "kv = (k, v)" using Cons.prems(3) by simp
    then have "k \<notin> fst ` set kvs" using Cons.prems(2) by simp
    with other [of k kvs] Cons.prems(1) show ?thesis by (simp add: kv getenv_setenv)
  qed (use Cons in \<open>simp add: split_beta\<close>)
qed simp

lemma http_dispatch_cases:
  assumes "http_dispatch executable environ ends data = Execute answer prog e"
  shows "complete_request data \<and> path (parse_http_request data) = ''/panel.cgi'' \<and>
     prog = ''./panel.cgi'' \<and> executable prog \<and>
     (\<forall>(k, v) \<in> set (cgi_variables (parse_http_request data) ends). sys_getenv k e = Some v)"
proof -
  have run: "complete_request data" "path (parse_http_request data) = ''/panel.cgi''"
    "prog = ''./panel.cgi''" "executable prog"
    "e = fold (\<lambda>(k, v). sys_setenv k v) (cgi_variables (parse_http_request data) ends) environ"
    using assms by (auto simp: http_dispatch_def execute_cgi_def Let_def split: if_splits)
  from getenv_setenv_all [OF cgi_env_names cgi_env_distinct] run show ?thesis by blast
qed

section \<open>The queue of a browser connection\<close>

record cgi_session =
  pending :: "string list"
  in_flight :: nat
  active_remotes :: nat
  closing :: bool
  socket_open :: bool
  sent_data :: "string list"

definition new_cgi_session :: cgi_session where
  "new_cgi_session =
     \<lparr>pending = [], in_flight = 0, active_remotes = 0, closing = False, socket_open = True,
      sent_data = []\<rparr>"

definition do_write :: "cgi_session \<Rightarrow> cgi_session" where
  "do_write s =
     (if pending s = [] then (if closing s then s\<lparr>socket_open := False\<rparr> else s)
      else s\<lparr>in_flight := in_flight s + 1\<rparr>)"

definition enqueue :: "string \<Rightarrow> cgi_session \<Rightarrow> cgi_session" where
  "enqueue out s =
     (let writing = (pending s \<noteq> []);
          s1 = s\<lparr>pending := pending s @ [out]\<rparr>
      in if \<not> writing then do_write s1 else s1)"

text \<open>The completion of a write; a failed one closes the socket and leaves the queue as it is.\<close>

definition write_done :: "bool \<Rightarrow> cgi_session \<Rightarrow> cgi_session" where
  "write_done ok s =
     (if in_flight s = 0 then s
      else if \<not> ok then s\<lparr>in_flight := in_flight s - 1, socket_open := False\<rparr>
      else do_write (s\<lparr>in_flight := in_flight s - 1, sent_data := sent_data s @ [hd (pending s)],
                      pending := tl (pending s)\<rparr>))"

definition close_when_drained :: "cgi_session \<Rightarrow> cgi_session" where
  "close_when_drained s =
     (let s1 = s\<lparr>closing := True\<rparr> in if pending s1 = [] then do_write s1 else s1)"

definition remote_done :: "cgi_session \<Rightarrow> cgi_session" where
  "remote_done s =
     (let s1 = (if active_remotes s > 0 then s\<lparr>active_remotes := active_remotes s - 1\<rparr> else s)
      in if active_remotes s1 = 0 then close_when_drained s1 else s1)"

definition header_200 :: string where
  "header_200 = ''HTTP/1.1 200 OK'' @ CRLF @ ''Content-type: text/html'' @ CRLF @ CRLF"

definition not_found_page :: string where
  "not_found_page = ''HTTP/1.1 404 Not Found'' @ CRLF @ ''Content-type: text/plain'' @ CRLF @ CRLF @
     ''Not Found'' @ [NL]"

text \<open>\<open>dispatch\<close>: the new session and the remote sessions to start.\<close>

definition cgi_dispatch :: "HttpRequest \<Rightarrow> cgi_session \<Rightarrow> cgi_session \<times> RemoteSessionConfig list" where
  "cgi_dispatch request s =
     (if path request = ''/panel.cgi'' then
        (close_when_drained (enqueue (header_200 @ render_panel_page) s), [])
      else if path request = ''/console.cgi'' then
        (let sessions = parse_remote_sessions3 (query request);
             s1 = enqueue (header_200 @ render_console_page3 sessions) s;
             s2 = s1\<lparr>active_remotes := length sessions\<rparr>
         in (if sessions = [] then close_when_drained s2 else s2, sessions))
      else (close_when_drained (enqueue not_found_page s), []))"

datatype cgi_event = Output string | RemoteDone | Written bool

fun cgi_step :: "cgi_event \<Rightarrow> cgi_session \<Rightarrow> cgi_session" where
  "cgi_step (Output out) s = enqueue out s"
| "cgi_step RemoteDone s = remote_done s"
| "cgi_step (Written ok) s = write_done ok s"

definition cgi_run :: "cgi_event list \<Rightarrow> cgi_session \<Rightarrow> cgi_session" where
  "cgi_run events s = fold cgi_step events s"

text \<open>
  The invariant of a connection without write errors: one write is in flight when something is
  pending, and none otherwise, and the socket is closed only when nothing is.
\<close>

definition cgi_ok :: "cgi_session \<Rightarrow> bool" where
  "cgi_ok s \<longleftrightarrow> in_flight s = (if pending s = [] then 0 else 1) \<and> (\<not> socket_open s \<longrightarrow> closing s) \<and>
     (closing s \<and> pending s = [] \<longrightarrow> \<not> socket_open s)"

definition outputs_of :: "cgi_event list \<Rightarrow> string list" where
  "outputs_of es = concat (map (\<lambda>e. case e of Output out \<Rightarrow> [out] | _ \<Rightarrow> []) es)"

definition queued :: "cgi_session \<Rightarrow> string list" where
  "queued s = sent_data s @ pending s"

lemma cgi_step_ok:
  assumes "cgi_ok s" and "e \<noteq> Written False"
  shows "cgi_ok (cgi_step e s) \<and> queued (cgi_step e s) = queued s @ outputs_of [e]"
proof (cases e)
  case (Output out)
  with assms show ?thesis
    by (auto simp: cgi_ok_def enqueue_def do_write_def queued_def outputs_of_def Let_def)
next
  case RemoteDone
  with assms show ?thesis
    by (auto simp: cgi_ok_def remote_done_def close_when_drained_def do_write_def queued_def outputs_of_def Let_def)
next
  case (Written ok)
  with assms have ok: ok by (cases ok) auto
  show ?thesis
  proof (cases "pending s")
    case Nil
    with assms Written show ?thesis by (simp add: cgi_ok_def write_done_def queued_def outputs_of_def)
  next
    case (Cons p ps)
    with assms Written ok show ?thesis
      by (auto simp: cgi_ok_def write_done_def do_write_def queued_def outputs_of_def)
  qed
qed

lemma cgi_run_ok:
  "cgi_ok s \<Longrightarrow> Written False \<notin> set es \<Longrightarrow>
     cgi_ok (cgi_run es s) \<and> queued (cgi_run es s) = queued s @ outputs_of es"
proof (induction es arbitrary: s)
  case (Cons e es)
  have "e \<noteq> Written False" using Cons.prems by auto
  from cgi_step_ok [OF Cons.prems(1) this] Cons show ?case
    by (auto simp: cgi_run_def outputs_of_def)
qed (simp add: cgi_run_def outputs_of_def)

end
