(* ===== verification/Console_Theorems.thy ===== *)
theory Console_Theorems
  imports Http_Server
begin

text \<open>
  What the consoles of \<open>projects/03-http-cgi-console\<close> and \<open>projects/04-socks-proxy\<close> guarantee: query
  strings, escaping, prompts, the conversation with a remote shell, HTTP requests and the queue of a
  browser connection.
\<close>

section \<open>Query strings\<close>

text \<open>The decoders of the two projects agree on every text, malformed escapes included.\<close>

theorem decoders_agree: "url_decode4 s = url_decode3 s"
  by (rule url_decode_same)



section \<open>Escaping\<close>

text \<open>C18. What a remote host prints cannot leave the string literal of the script it is put into, nor become
  markup: the script evaluates to a text without an opening angle bracket in its source, and the browser
  shows the printed text, without carriage returns.\<close>

theorem script_text_safe:
  "\<exists>v. js_value (js_string_escape3 (html_escape3 t)) = Some v \<and> html_text v = filter (\<lambda>c. c \<noteq> CR) t \<and>
     CHR ''<'' \<notin> set (js_string_escape3 (html_escape3 t)) \<and>
     set (html_escape3 t) \<inter> {CHR ''<'', CHR ''>'', CHR 0x22, CHR 0x27} = {}"
  using escaped_text3 [of t] session_head_markup(1) [of t] by blast

text \<open>The same for the escapes of the fourth project.\<close>

theorem script_text_safe4:
  "js_value (js_escape4 t) = Some (filter (\<lambda>c. c \<noteq> CR) t) \<and> CHR ''<'' \<notin> set (js_escape4 t) \<and>
   html_text (html_escape4 t) = t \<and> set (html_escape4 t) \<inter> {CHR ''<'', CHR ''>'', CHR 0x22, CHR 0x27} = {}"
  using escaped_text4 [of t] session_head_markup(2) [of t] by blast

section \<open>Prompts\<close>

text \<open>Feeding chunks to the two detectors until one is found to hold a prompt.\<close>

primrec scan3 :: "bool \<Rightarrow> string list \<Rightarrow> bool" where
  "scan3 st [] = False"
| "scan3 st (d # ds) = (fst (detect3 st d) \<or> scan3 (snd (detect3 st d)) ds)"

primrec scan4 :: "string \<Rightarrow> string list \<Rightarrow> bool" where
  "scan4 st [] = False"
| "scan4 st (d # ds) = (fst (received_prompt st d) \<or> scan4 (snd (received_prompt st d)) ds)"

lemma scan_undetected: "scan3 b ds = (\<not> detector3.undetected b ds)" "scan4 t ds = (\<not> detector4.undetected t ds)"
  by (induction ds arbitrary: b t) simp_all

text \<open>Both consoles find a prompt in a stream exactly when the stream contains one, however the network
  cuts it into chunks.\<close>

theorem prompt_found_iff:
  assumes "\<forall>d \<in> set ds. d \<noteq> []"
  shows "(scan3 False ds \<longleftrightarrow> contains prompt (concat ds)) \<and> (scan4 [] ds \<longleftrightarrow> contains prompt (concat ds))"
  using detector3.undetected_iff [where st = False and ds = ds]
    detector4.undetected_iff [where st = "[]" and ds = ds] assms
  by (simp_all add: scan_undetected percent_if_def)

lemma prompt_found_iff_instance: "scan3 False [''ls%'', '' '', ''x''] \<and> scan4 [] [''ls%'', '' '', ''x'']"
proof -
  have "contains prompt (concat [''ls%'', '' '', ''x''])" by code_simp
  with prompt_found_iff [of "[''ls%'', '' '', ''x'']"] show ?thesis by simp
qed

section \<open>Sessions\<close>

text \<open>Whatever the network reports, a session waits for one operation until it is finished, finishes
  once, tells its owner exactly once, and never goes beyond its commands.\<close>

theorem session_invariant:
  "session_ok (run_session es (session_start i file_name content))"
  by (rule session_run_ok [OF session_start_ok])



text \<open>A session through the SOCKS server sends no command and shows nothing before the server has
  granted its request.\<close>

theorem silent_before_grant:
  assumes "\<forall>e \<in> set es. \<not> grants e" and "run4 es (start4 i config True content) = Inr s'"
  shows "next_command4 s' = 0 \<and> console_output4 s' = []"
  using before_grant_run [OF _ _ assms] by (simp add: start4_def before_grant_def)

lemma silent_before_grant_instance:
  "\<exists>s'. run4 [Resolved4 True, Connected4 True, RequestSent True, ReplyRead (Some [0, 91, 0, 0, 0, 0, 0, 0]),
         ReadDone4 (Some ''% '')] (start4 0 \<lparr>host = ''www'', port = ''80'', cmdfile = ''t''\<rparr> True (Some ''ls'')) = Inr s' \<and>
     next_command4 s' = 0 \<and> console_output4 s' = []"
proof -
  let ?es = "[Resolved4 True, Connected4 True, RequestSent True, ReplyRead (Some [0, 91, 0, 0, 0, 0, 0, 0]),
         ReadDone4 (Some ''% '')]"
  let ?c = "\<lparr>host = ''www'', port = ''80'', cmdfile = ''t''\<rparr>"
  have "\<not> isl (run4 ?es (start4 0 ?c True (Some ''ls'')))" by code_simp
  then obtain s' where run: "run4 ?es (start4 0 ?c True (Some ''ls'')) = Inr s'"
    by (cases "run4 ?es (start4 0 ?c True (Some ''ls''))") auto
  from silent_before_grant [OF _ run] have "next_command4 s' = 0 \<and> console_output4 s' = []"
    by (simp add: grants_def)
  with run show ?thesis by blast
qed

text \<open>A port that is no number ends the whole console of the fourth project, once the connection to
  the SOCKS server is there: the exception of \<open>std::stoi\<close> leaves the event loop.\<close>

theorem bad_port_uncaught:
  assumes "stoi (port config) = Inl e"
  shows "run4 [Resolved4 True, Connected4 True] (start4 i config True content) = Inl e"
  using assms by (simp add: start4_def send_socks_request_def build_socks4a_request_def)

lemma bad_port_uncaught_instance:
  "run4 [Resolved4 True, Connected4 True] (start4 0 \<lparr>host = ''www'', port = ''http'', cmdfile = ''t''\<rparr> True None) =
     Inl (Uncaught InvalidArgument)"
  by (rule bad_port_uncaught) code_simp

section \<open>HTTP\<close>

text \<open>A request line and a \<open>Host\<close> header as a browser writes them are read back: the method, the target
  with its path and query, the protocol and the host.\<close>

theorem http_request_roundtrip:
  assumes "http_word m" and "http_word t" and "http_word p"
    and "NL \<notin> set h" and "h \<noteq> []" and "last h \<noteq> CR" and "hd h \<noteq> CHR '' ''"
  shows "parse_http_request (print_request m t p h) =
     \<lparr>http_method = m, uri = t, target = t, path = takeWhile (\<lambda>c. c \<noteq> CHR ''?'') t,
      query = tl (dropWhile (\<lambda>c. c \<noteq> CHR ''?'') t), protocol = p, http_host = h\<rparr>"
  by (rule parse_print_request [OF assms])

lemma http_request_roundtrip_instance:
  "parse_http_request (print_request ''GET'' ''/console.cgi?h0=a'' ''HTTP/1.1'' ''localhost:7001'') =
     \<lparr>http_method = ''GET'', uri = ''/console.cgi?h0=a'', target = ''/console.cgi?h0=a'', path = ''/console.cgi'', query = ''h0=a'',
      protocol = ''HTTP/1.1'', http_host = ''localhost:7001''\<rparr>"
  by (subst http_request_roundtrip) (simp_all add: http_word_def isspace_def)



section \<open>The queue of a browser connection\<close>

text \<open>The output of all remote sessions reaches the browser in the order it was produced: what has been
  sent, followed by what is pending, is what was there before and the outputs since; one write is in
  flight while something is pending, never two.\<close>

theorem queue_fifo:
  assumes "cgi_ok s" and "Written False \<notin> set es"
  shows "cgi_ok (cgi_run es s) \<and>
    sent_data (cgi_run es s) @ pending (cgi_run es s) = (sent_data s @ pending s) @ outputs_of es"
  using cgi_run_ok [OF assms] by (simp add: queued_def)

lemma new_cgi_ok: "cgi_ok new_cgi_session"
  by (simp add: cgi_ok_def new_cgi_session_def)

lemma queue_fifo_instance:
  "sent_data (cgi_run [Output ''a'', Output ''b'', Written True, Output ''c'', Written True] new_cgi_session) @
   pending (cgi_run [Output ''a'', Output ''b'', Written True, Output ''c'', Written True] new_cgi_session) =
   [''a'', ''b'', ''c'']"
  using queue_fifo [OF new_cgi_ok, of "[Output ''a'', Output ''b'', Written True, Output ''c'', Written True]"]
  by (simp add: outputs_of_def) (simp add: new_cgi_session_def)

text \<open>Once the last remote session is done, the connection is closed as soon as everything pending has
  been written, and nothing is lost.\<close>

theorem queue_drains:
  assumes "cgi_ok s" and "closing s" and "socket_open s"
  shows "\<exists>s'. s' = cgi_run (replicate (length (pending s)) (Written True)) s \<and>
    sent_data s' = sent_data s @ pending s \<and> pending s' = [] \<and> \<not> socket_open s'"
  using assms
proof (induction "pending s" arbitrary: s)
  case Nil
  then show ?case by (simp add: cgi_ok_def cgi_run_def)
next
  case (Cons p ps)
  let ?s1 = "write_done True s"
  have flight: "in_flight s = 1" using Cons.prems(1) Cons.hyps(2) by (cases "pending s") (simp_all add: cgi_ok_def)
  have s1: "pending ?s1 = ps" "sent_data ?s1 = sent_data s @ [p]" "closing ?s1" "cgi_ok ?s1"
    using flight Cons.hyps(2) [symmetric] Cons.prems
    by (auto simp: write_done_def do_write_def cgi_ok_def)
  have run: "cgi_run (replicate (length (pending s)) (Written True)) s =
      cgi_run (replicate (length ps) (Written True)) ?s1"
    using Cons.hyps(2) [symmetric] by (simp add: cgi_run_def)
  show ?case
  proof (cases "ps = []")
    case True
    then show ?thesis
      using s1 run Cons.hyps(2) [symmetric] by (simp add: cgi_run_def cgi_ok_def)
  next
    case False
    then have "socket_open ?s1"
      using Cons.hyps(2) [symmetric] flight Cons.prems(3) by (simp add: write_done_def do_write_def)
    from Cons.hyps(1) [of ?s1] s1 this run Cons.hyps(2) [symmetric] show ?thesis by simp
  qed
qed

lemma queue_drains_instance:
  "\<not> socket_open (cgi_run (replicate 2 (Written True))
     (cgi_run [Output ''a'', Output ''b'', RemoteDone] (new_cgi_session\<lparr>active_remotes := 1\<rparr>)))"
proof -
  let ?s = "cgi_run [Output ''a'', Output ''b'', RemoteDone] (new_cgi_session\<lparr>active_remotes := 1\<rparr>)"
  have s: "?s = \<lparr>pending = [''a'', ''b''], in_flight = 1, active_remotes = 0, closing = True,
      socket_open = True, sent_data = []\<rparr>" by code_simp
  have "cgi_ok ?s" unfolding s by (simp add: cgi_ok_def)
  from queue_drains [OF this] show ?thesis unfolding s by (simp add: numeral_2_eq_2)
qed

text \<open>Both console pages have, for each session, the cell that the scripts of this session write to.\<close>

theorem page_has_cells:
  assumes "i < length ss"
  shows "contains (cell_tag i) (render_console_page3 ss) \<and> contains (cell_tag i) (render_console_page4 ss)"
  using cell_in_page3 [OF assms] cell_in_page4 [OF assms] by blast

lemma page_has_cells_instance:
  "contains (cell_tag 0) (render_console_page3 [\<lparr>host = ''h'', port = ''1'', cmdfile = ''f''\<rparr>])"
  using page_has_cells [of 0 "[\<lparr>host = ''h'', port = ''1'', cmdfile = ''f''\<rparr>]"] by simp

end
