(* ===== verification/Console_Main.thy ===== *)
theory Console_Main
  imports Console_Theorems
begin

text \<open>
  The console programs: \<open>console.cpp\<close> of \<open>projects/03-http-cgi-console\<close>, and \<open>pj4.cpp\<close> and \<open>console.cpp\<close> of
  \<open>projects/04-socks-proxy\<close>. Each prints a page and then runs its sessions in one \<open>io_context\<close>: the completion
  handlers run one at a time, in an order that the network decides. A schedule is the list of completions, each
  with the number of its session, and an exception in a handler ends the schedule.

  The output is kept as a trace of pieces, each with the number of the session that wrote it. The locale
  \<open>growing_output\<close> is what the programs need of a session: its steps only append to its output. Then what a
  session writes does not depend on the others.
\<close>

section \<open>Handlers in one \<open>io_context\<close>\<close>

record 's running =
  sessions :: "'s list"
  trace :: "(nat \<times> string) list"

definition new_output :: "('s \<Rightarrow> string list) \<Rightarrow> 's \<Rightarrow> 's \<Rightarrow> string list" where
  "new_output out s s' = drop (length (out s)) (out s')"

definition run_handler ::
  "('e \<Rightarrow> 's \<Rightarrow> 's result) \<Rightarrow> ('s \<Rightarrow> string list) \<Rightarrow> nat \<times> 'e \<Rightarrow> 's running \<Rightarrow> 's running result" where
  "run_handler step out ie r =
     (let (i, e) = ie
      in if i < length (sessions r) then
           bindR (step e (sessions r ! i)) (\<lambda>s'.
             Inr \<lparr>sessions = (sessions r)[i := s'],
                  trace = trace r @ map (Pair i) (new_output out (sessions r ! i) s')\<rparr>)
         else Inr r)"

text \<open>\<open>io_context.run()\<close>, with the exception that it throws.\<close>

fun io_run ::
  "('e \<Rightarrow> 's \<Rightarrow> 's result) \<Rightarrow> ('s \<Rightarrow> string list) \<Rightarrow> (nat \<times> 'e) list \<Rightarrow> 's running \<Rightarrow> 's running \<times> failure option" where
  "io_run step out [] r = (r, None)"
| "io_run step out (ie # schedule) r =
     (case run_handler step out ie r of Inl e \<Rightarrow> (r, Some e) | Inr r' \<Rightarrow> io_run step out schedule r')"

text \<open>The sessions before \<open>run\<close>; what \<open>start\<close> has written comes first.\<close>

definition started_sessions :: "('s \<Rightarrow> string list) \<Rightarrow> 's list \<Rightarrow> 's running" where
  "started_sessions out ss =
     \<lparr>sessions = ss, trace = concat (map (\<lambda>i. map (Pair i) (out (ss ! i))) [0..<length ss])\<rparr>"

definition written_by :: "nat \<Rightarrow> (nat \<times> string) list \<Rightarrow> string list" where
  "written_by i tr = map snd (filter (\<lambda>x. fst x = i) tr)"

definition events_for :: "nat \<Rightarrow> (nat \<times> 'e) list \<Rightarrow> 'e list" where
  "events_for i schedule = map snd (filter (\<lambda>x. fst x = i) schedule)"

lemma written_by_simps [simp]:
  "written_by i [] = []"
  "written_by i (x # tr) = (if fst x = i then snd x # written_by i tr else written_by i tr)"
  "written_by i (tr @ tr') = written_by i tr @ written_by i tr'"
  "written_by i (map (Pair j) outs) = (if i = j then outs else [])"
proof -
  show "written_by i (map (Pair j) outs) = (if i = j then outs else [])"
    by (simp add: written_by_def filter_map comp_def)
qed (simp_all add: written_by_def)

lemma events_for_simps [simp]:
  "events_for i [] = []"
  "events_for i (x # es) = (if fst x = i then snd x # events_for i es else events_for i es)"
  by (simp_all add: events_for_def)

fun fold_steps :: "('e \<Rightarrow> 's \<Rightarrow> 's result) \<Rightarrow> 'e list \<Rightarrow> 's \<Rightarrow> 's result" where
  "fold_steps step [] s = Inr s"
| "fold_steps step (e # es) s = bindR (step e s) (fold_steps step es)"

lemma run_handler_cases:
  assumes "run_handler step out (i, e) r = Inr r'"
  obtains "length (sessions r) \<le> i" and "r' = r"
  | s' where "i < length (sessions r)" and "step e (sessions r ! i) = Inr s'"
      and "r' = \<lparr>sessions = (sessions r)[i := s'],
                 trace = trace r @ map (Pair i) (new_output out (sessions r ! i) s')\<rparr>"
  using assms by (auto simp: run_handler_def not_less split: if_splits)

locale growing_output =
  fixes step :: "'e \<Rightarrow> 's \<Rightarrow> 's result" and out :: "'s \<Rightarrow> string list"
  assumes grows: "step e s = Inr s' \<Longrightarrow> \<exists>d. out s' = out s @ d"
begin

lemma new_output_appended: "step e s = Inr s' \<Longrightarrow> out s' = out s @ new_output out s s'"
  using grows [of e s s'] by (auto simp: new_output_def)

definition consistent :: "'s running \<Rightarrow> bool" where
  "consistent r \<longleftrightarrow> (\<forall>i < length (sessions r). written_by i (trace r) = out (sessions r ! i))"

lemma started_consistent: "consistent (started_sessions out ss)"
proof -
  have "written_by i (concat (map (\<lambda>j. map (Pair j) (out (ss ! j))) js)) = (if i \<in> set js then out (ss ! i) else [])"
    if "distinct js" for i js
    using that by (induction js) auto
  from this [of "[0..<length ss]"] show ?thesis
    by (simp add: consistent_def started_sessions_def)
qed

lemma run_handler_consistent:
  assumes "consistent r" and "run_handler step out ie r = Inr r'"
  shows "consistent r' \<and> length (sessions r') = length (sessions r)"
proof -
  obtain i e where ie: "ie = (i, e)" by fastforce
  from assms(2) [unfolded ie] show ?thesis
  proof (cases rule: run_handler_cases)
    case (2 s')
    with assms(1) new_output_appended [OF 2(2)] show ?thesis
      by (auto simp: consistent_def nth_list_update)
  qed (use assms(1) in simp)
qed

lemma run_handler_session:
  assumes "run_handler step out ie r = Inr r'" and "j < length (sessions r)"
  shows "(if fst ie = j then step (snd ie) (sessions r ! j) = Inr (sessions r' ! j)
          else sessions r' ! j = sessions r ! j)"
proof -
  obtain i e where ie: "ie = (i, e)" by fastforce
  from assms(1) [unfolded ie] show ?thesis
    by (cases rule: run_handler_cases) (use assms(2) ie in auto)
qed

text \<open>Without an exception every session ends where its own events lead it.\<close>

lemma io_run_sessions:
  assumes "consistent r" and "io_run step out schedule r = (r', None)"
  shows "consistent r' \<and> length (sessions r') = length (sessions r) \<and>
     (\<forall>i < length (sessions r). fold_steps step (events_for i schedule) (sessions r ! i) = Inr (sessions r' ! i))"
  using assms
proof (induction schedule arbitrary: r)
  case (Cons ie schedule)
  then obtain r1 where r1: "run_handler step out ie r = Inr r1" and rest: "io_run step out schedule r1 = (r', None)"
    by (cases "run_handler step out ie r") auto
  note c = run_handler_consistent [OF Cons.prems(1) r1]
  from Cons.IH [OF _ rest] c have IH: "consistent r'" "length (sessions r') = length (sessions r)"
    "\<And>i. i < length (sessions r) \<Longrightarrow> fold_steps step (events_for i schedule) (sessions r1 ! i) = Inr (sessions r' ! i)"
    by auto
  have "fold_steps step (events_for i (ie # schedule)) (sessions r ! i) = Inr (sessions r' ! i)"
    if "i < length (sessions r)" for i
    using run_handler_session [OF r1 that] IH(3) [OF that] by (cases "fst ie = i") simp_all
  with IH show ?case by blast
qed simp

text \<open>With or without one, the trace holds for each session what that session has written.\<close>

lemma io_run_consistent:
  "consistent r \<Longrightarrow> io_run step out schedule r = (r', f) \<Longrightarrow>
     consistent r' \<and> length (sessions r') = length (sessions r)"
proof (induction schedule arbitrary: r)
  case (Cons ie schedule)
  show ?case
  proof (cases "run_handler step out ie r")
    case (Inr r1)
    with Cons run_handler_consistent [OF Cons.prems(1) Inr] show ?thesis by fastforce
  qed (use Cons.prems in simp)
qed simp

end

section \<open>The sessions of the two projects\<close>

definition step3 :: "event \<Rightarrow> session \<Rightarrow> session result" where
  "step3 e s = Inr (session_event e s)"

lemma emit_output: "console_output (emit c b s) = console_output s @ [make_console_script (session_id s) c b]"
  by (simp add: emit_def)

lemma finish_output [simp]: "console_output (finish s) = console_output s"
  by (simp add: finish_def)

lemma send_next_output: "\<exists>d. console_output (send_next_command s) = console_output s @ d"
  by (simp add: send_next_command_def Let_def emit_output)

interpretation out3: growing_output step3 console_output
proof
  fix e s s' assume "step3 e s = Inr s'"
  then have s': "s' = session_event e s" by (simp add: step3_def)
  show "\<exists>d. console_output s' = console_output s @ d"
  proof (cases e)
    case (ReadDone data)
    then show ?thesis
      using send_next_output [of "(emit c False s)\<lparr>last_char_was_percent := b\<rparr>" for c b] unfolding s'
      by (auto simp: Let_def emit_output split: option.split prod.split)
  qed (auto simp: s' emit_output split: option.split operation.split)
qed

interpretation out4: growing_output step4 console_output4
proof
  fix e s s' assume "step4 e s = Inr s'"
  moreover have "\<exists>d. console_output4 (write_next_command (t\<lparr>console_output4 := a @ b, prompt_tail := c\<rparr>)) = a @ d" for t a b c
    by (simp add: write_next_command_def Let_def emit4_def)
  ultimately show "\<exists>d. console_output4 s' = console_output4 s @ d"
    by (cases e) (auto simp: Let_def emit4_def send_socks_request_def read_socks_reply_def
        split: if_splits option.splits operation4.splits prod.splits)
qed

section \<open>The programs\<close>

definition content_type :: "string \<Rightarrow> string" where
  "content_type kind = ''Content-type: text/'' @ kind @ CRLF @ CRLF"

text \<open>What stands on standard output in the end; \<open>what\<close> is the text of an exception.\<close>

definition console_text :: "(failure \<Rightarrow> string) \<Rightarrow> string \<Rightarrow> 's running \<times> failure option \<Rightarrow> string" where
  "console_text what page r =
     content_type ''html'' @ page @ concat (map snd (trace (fst r))) @
     (case snd r of None \<Rightarrow> [] | Some e \<Rightarrow> content_type ''plain'' @ what e @ [NL])"

definition query_string :: "(string \<times> string) list \<Rightarrow> string" where
  "query_string environ = (case sys_getenv ''QUERY_STRING'' environ of None \<Rightarrow> [] | Some q \<Rightarrow> q)"

text \<open>\<open>files\<close> is the directory \<open>test_case\<close>.\<close>

definition sessions3 :: "(string \<Rightarrow> string option) \<Rightarrow> string \<Rightarrow> session list" where
  "sessions3 files q =
     (let configs = parse_remote_sessions3 q
      in map (\<lambda>i. session_start i (cmdfile (configs ! i)) (files (cmdfile (configs ! i)))) [0..<length configs])"

definition console_main3 ::
  "(failure \<Rightarrow> string) \<Rightarrow> (string \<Rightarrow> string option) \<Rightarrow> (string \<times> string) list \<Rightarrow> (nat \<times> event) list \<Rightarrow> string" where
  "console_main3 what files environ schedule =
     (let q = query_string environ
      in console_text what (render_console_page3 (parse_remote_sessions3 q))
           (io_run step3 console_output schedule (started_sessions console_output (sessions3 files q))))"

definition sessions4 :: "bool \<Rightarrow> (string \<Rightarrow> string option) \<Rightarrow> string \<Rightarrow> session4 list" where
  "sessions4 via_socks files q =
     (let configs = parse_remote_sessions4 q
      in map (\<lambda>i. start4 i (configs ! i) via_socks (files (cmdfile (configs ! i)))) [0..<length configs])"

definition console_main4 ::
  "(failure \<Rightarrow> string) \<Rightarrow> (string \<Rightarrow> string option) \<Rightarrow> (string \<times> string) list \<Rightarrow> (nat \<times> event4) list \<Rightarrow> string" where
  "console_main4 what files environ schedule =
     (let q = query_string environ
      in console_text what (render_console_page4 (parse_remote_sessions4 q))
           (io_run step4 console_output4 schedule (started_sessions console_output4 (sessions4 False files q))))"

text \<open>\<open>pj4\<close> runs no session when the query names no proxy.\<close>

definition pj4_main ::
  "(failure \<Rightarrow> string) \<Rightarrow> (string \<Rightarrow> string option) \<Rightarrow> (string \<times> string) list \<Rightarrow> (nat \<times> event4) list \<Rightarrow> string" where
  "pj4_main what files environ schedule =
     (let q = query_string environ;
          proxy = parse_socks_config q;
          page = render_console_page4 (parse_remote_sessions4 q)
      in if fst proxy = [] \<or> snd proxy = [] then content_type ''html'' @ page
         else console_text what page
                (io_run step4 console_output4 schedule
                   (started_sessions console_output4 (sessions4 True files q))))"

section \<open>Properties\<close>

lemma fold_steps3: "fold_steps step3 es s = Inr (run_session es s)"
  by (induction es arbitrary: s) (simp_all add: step3_def run_session_def)

lemma fold_steps4: "fold_steps step4 es s = run4 es s"
  by (induction es arbitrary: s) (simp_all add: bindR_def split: sum.split)

lemma sessions3_simps [simp]:
  "length (sessions3 files q) = length (parse_remote_sessions3 q)"
  "i < length (parse_remote_sessions3 q) \<Longrightarrow> sessions3 files q ! i =
     session_start i (cmdfile (parse_remote_sessions3 q ! i)) (files (cmdfile (parse_remote_sessions3 q ! i)))"
  by (simp_all add: sessions3_def Let_def)

lemma io_run3_total: "snd (io_run step3 out schedule r) = None"
proof (induction schedule arbitrary: r)
  case (Cons ie schedule)
  obtain i e where "ie = (i, e)" by fastforce
  with Cons show ?case by (simp add: run_handler_def step3_def)
qed simp

text \<open>C24. The console prints its header and page, and then what its sessions write, whatever the order of their
  events. What comes from a session is what that session writes when it runs alone with its own events: no
  session sees another one, or has to wait for it.\<close>

theorem console_sessions_independent:
  "\<exists>tr. console_main3 what files environ schedule =
          content_type ''html'' @ render_console_page3 (parse_remote_sessions3 (query_string environ)) @ concat (map snd tr) \<and>
        (\<forall>i config. i < length (parse_remote_sessions3 (query_string environ)) \<longrightarrow>
           config = parse_remote_sessions3 (query_string environ) ! i \<longrightarrow>
           written_by i tr =
             console_output (run_session (events_for i schedule)
                               (session_start i (cmdfile config) (files (cmdfile config)))))"
proof -
  let ?q = "query_string environ"
  let ?r = "started_sessions console_output (sessions3 files ?q)"
  obtain r' where run: "io_run step3 console_output schedule ?r = (r', None)"
    using io_run3_total [of console_output schedule ?r] by (metis prod.collapse)
  note s = out3.io_run_sessions [OF out3.started_consistent run]
  have "console_main3 what files environ schedule =
      content_type ''html'' @ render_console_page3 (parse_remote_sessions3 ?q) @ concat (map snd (trace r'))"
    by (simp add: console_main3_def Let_def run console_text_def)
  moreover have "written_by i (trace r') = console_output (run_session (events_for i schedule) (sessions3 files ?q ! i))"
    if "i < length (parse_remote_sessions3 ?q)" for i
    using s that by (auto simp: out3.consistent_def started_sessions_def fold_steps3)
  ultimately show ?thesis by (intro exI [of _ "trace r'"]) simp
qed

definition two_sessions :: string where
  "two_sessions = ''h0=a&p0=80&f0=t&h1=b&p1=xx&f1=u&sh=s&sp=9''"

lemma two_sessions_parsed:
  "parse_remote_sessions3 two_sessions =
     [\<lparr>host = ''a'', port = ''80'', cmdfile = ''t''\<rparr>, \<lparr>host = ''b'', port = ''xx'', cmdfile = ''u''\<rparr>]"
  "parse_remote_sessions4 two_sessions =
     [\<lparr>host = ''a'', port = ''80'', cmdfile = ''t''\<rparr>, \<lparr>host = ''b'', port = ''xx'', cmdfile = ''u''\<rparr>]"
  "parse_socks_config two_sessions = (''s'', ''9'')"
  by code_simp+

lemma two_sessions_query: "query_string [(''QUERY_STRING'', two_sessions)] = two_sessions"
  by (simp add: query_string_def sys_getenv_def env_name_def)

text \<open>Session 0 has no file of commands, and session 1 no host to connect to.\<close>

lemma console_sessions_independent_instance:
  "\<exists>tr. console_main3 (\<lambda>e. []) (\<lambda>f. if f = ''t'' then None else Some ''ls'') [(''QUERY_STRING'', two_sessions)]
            [(1, Resolved (Some ''no host'')), (0, Resolved None)] =
          content_type ''html'' @ render_console_page3 (parse_remote_sessions3 two_sessions) @ concat (map snd tr) \<and>
        written_by 0 tr = [make_console_script 0 (''cannot open test_case/t'' @ [NL]) False] \<and>
        written_by 1 tr = [make_console_script 1 (''no host'' @ [NL]) False]"
proof -
  let ?files = "\<lambda>f. if f = ''t'' then None else Some ''ls''"
  let ?es = "[(1, Resolved (Some ''no host'')), (0, Resolved None)]"
  obtain tr where tr: "console_main3 (\<lambda>e. []) ?files [(''QUERY_STRING'', two_sessions)] ?es =
        content_type ''html'' @ render_console_page3 (parse_remote_sessions3 two_sessions) @ concat (map snd tr)"
    and each: "\<And>i config. i < 2 \<Longrightarrow> config = parse_remote_sessions3 two_sessions ! i \<Longrightarrow>
      written_by i tr = console_output (run_session (events_for i ?es)
        (session_start i (cmdfile config) (?files (cmdfile config))))"
    using console_sessions_independent [of "\<lambda>e. []" ?files "[(''QUERY_STRING'', two_sessions)]" ?es]
    by (auto simp: two_sessions_query two_sessions_parsed(1))
  have "written_by 0 tr = [make_console_script 0 (''cannot open test_case/t'' @ [NL]) False]"
    using each [of 0] by (simp add: two_sessions_parsed run_session_def session_start_def load_commands3_def finish_def emit_def)
  moreover have "written_by 1 tr = [make_console_script 1 (''no host'' @ [NL]) False]"
    using each [of 1] by (simp add: two_sessions_parsed run_session_def session_start_def load_commands3_def finish_def emit_def)
  ultimately show ?thesis using tr by blast
qed

lemma io_run_append:
  assumes "io_run step out es r = (r', None)"
  shows "io_run step out (es @ es') r = io_run step out es' r'"
  using assms by (induction es arbitrary: r) (auto split: sum.splits)

lemma sessions4_simps [simp]:
  "length (sessions4 b files q) = length (parse_remote_sessions4 q)"
  "i < length (parse_remote_sessions4 q) \<Longrightarrow> sessions4 b files q ! i =
     start4 i (parse_remote_sessions4 q ! i) b (files (cmdfile (parse_remote_sessions4 q ! i)))"
  by (simp_all add: sessions4_def Let_def)

text \<open>C39. One session of \<open>pj4\<close> whose port is no number ends all: when its connection to the proxy is there, \<open>std::stoi\<close>
  throws, and whatever would happen in the other sessions, the output ends with the text of the exception.\<close>

theorem bad_port_ends_all:
  assumes "q = query_string environ" and "fst (parse_socks_config q) \<noteq> []" and "snd (parse_socks_config q) \<noteq> []"
    and "i < length (parse_remote_sessions4 q)" and "stoi (port (parse_remote_sessions4 q ! i)) = Inl e"
    and "snd (io_run step4 console_output4 before (started_sessions console_output4 (sessions4 True files q))) = None"
    and "events_for i before = [Resolved4 True]"
  shows "pj4_main what files environ (before @ (i, Connected4 True) # after) =
         pj4_main what files environ before @ content_type ''plain'' @ what e @ [NL]"
proof -
  let ?r = "started_sessions console_output4 (sessions4 True files q)"
  obtain r' where run: "io_run step4 console_output4 before ?r = (r', None)"
    using assms(6) by (metis prod.collapse)
  from out4.io_run_sessions [OF out4.started_consistent run] assms(4)
  have len: "i < length (sessions r')"
    and "fold_steps step4 (events_for i before) (sessions4 True files q ! i) = Inr (sessions r' ! i)"
    by (auto simp: started_sessions_def)
  then have s: "sessions r' ! i = (sessions4 True files q ! i)\<lparr>waiting4 := Connect4\<rparr>"
    using assms(4,7) by (simp add: start4_def)
  have "step4 (Connected4 True) (sessions r' ! i) = Inl e"
    using assms(4,5) by (simp add: s start4_def send_socks_request_def build_socks4a_request_def)
  then have "io_run step4 console_output4 ((i, Connected4 True) # after) r' = (r', Some e)"
    using len by (simp add: run_handler_def)
  with io_run_append [OF run] run assms(1-3) show ?thesis
    by (simp add: pj4_main_def console_text_def)
qed

lemma bad_port_ends_all_instance:
  "pj4_main (\<lambda>e. ''stoi'') (\<lambda>f. Some ''ls'') [(''QUERY_STRING'', two_sessions)]
     ([(0, Resolved4 True), (1, Resolved4 True), (0, Connected4 True)] @ (1, Connected4 True) # [(0, RequestSent True)]) =
   pj4_main (\<lambda>e. ''stoi'') (\<lambda>f. Some ''ls'') [(''QUERY_STRING'', two_sessions)]
     [(0, Resolved4 True), (1, Resolved4 True), (0, Connected4 True)] @ content_type ''plain'' @ ''stoi'' @ [NL]"
proof -
  have run: "snd (io_run step4 console_output4 [(0, Resolved4 True), (1, Resolved4 True), (0, Connected4 True)]
      (started_sessions console_output4 (sessions4 True (\<lambda>f. Some ''ls'') two_sessions))) = None"
    by code_simp
  have bad: "stoi ''xx'' = Inl (Uncaught InvalidArgument)" by code_simp
  show ?thesis
    by (rule bad_port_ends_all [OF two_sessions_query [symmetric] _ _ _ _ run])
      (simp_all add: two_sessions_parsed bad)
qed

end
