(* ===== verification/Cgi_Console.thy ===== *)
theory Cgi_Console
  imports Console_Main
begin

text \<open>
  A connection of the CGI server (\<open>cgi_server.cpp\<close> of \<open>projects/03-http-cgi-console\<close>) with the remote sessions it has
  started: every piece of output goes through the queue of the connection, and a session that finishes counts
  itself off. The queue and the session are modelled in \<open>Http_Server\<close> and \<open>Console_Session\<close>; here they are composed as
  \<open>start_remote_sessions\<close> and its callbacks compose them. The trace of the sessions records who wrote what, as in
  \<open>Console_Main\<close>.
\<close>

section \<open>The connection and its sessions\<close>

record browser =
  conn :: cgi_session
  remote :: "session running"

text \<open>The callbacks of a session: its outputs in order, and \<open>remote_done\<close> at its end.\<close>

definition callbacks :: "string list \<Rightarrow> bool \<Rightarrow> cgi_session \<Rightarrow> cgi_session" where
  "callbacks outs done c = (let c1 = fold enqueue outs c in if done then remote_done c1 else c1)"

definition start_remote :: "session \<Rightarrow> cgi_session \<Rightarrow> cgi_session" where
  "start_remote s c = callbacks (console_output s) (done_calls s > 0) c"

definition start_remote_sessions :: "session list \<Rightarrow> cgi_session \<Rightarrow> cgi_session" where
  "start_remote_sessions ss c = fold start_remote ss c"

definition open_browser :: "(string \<Rightarrow> string option) \<Rightarrow> HttpRequest \<Rightarrow> browser" where
  "open_browser files request =
     (let (c, configs) = cgi_dispatch request new_cgi_session;
          ss = map (\<lambda>i. session_start i (cmdfile (configs ! i)) (files (cmdfile (configs ! i)))) [0..<length configs]
      in \<lparr>conn = start_remote_sessions ss c, remote = started_sessions console_output ss\<rparr>)"

datatype browser_event = RemoteEvent nat event | BrowserWrite bool

fun browser_step :: "browser_event \<Rightarrow> browser \<Rightarrow> browser" where
  "browser_step (RemoteEvent i e) b =
     (if i < length (sessions (remote b)) then
        (let s = sessions (remote b) ! i;
             s' = session_event e s;
             outs = new_output console_output s s'
         in \<lparr>conn = callbacks outs (done_calls s' > done_calls s) (conn b),
             remote = \<lparr>sessions = (sessions (remote b))[i := s'], trace = trace (remote b) @ map (Pair i) outs\<rparr>\<rparr>)
      else b)"
| "browser_step (BrowserWrite ok) b = b\<lparr>conn := write_done ok (conn b)\<rparr>"

definition browser_run :: "browser_event list \<Rightarrow> browser \<Rightarrow> browser" where
  "browser_run events b = fold browser_step events b"

section \<open>The queue under the callbacks\<close>

text \<open>A connection that is not closed before everything is sent.\<close>

definition drained_ok :: "cgi_session \<Rightarrow> bool" where
  "drained_ok c \<longleftrightarrow> cgi_ok c \<and> (\<not> socket_open c \<longrightarrow> pending c = [])"

lemma enqueue_all:
  assumes "drained_ok c" and "\<not> closing c"
  shows "drained_ok (fold enqueue outs c) \<and> queued (fold enqueue outs c) = queued c @ outs \<and>
     \<not> closing (fold enqueue outs c) \<and> active_remotes (fold enqueue outs c) = active_remotes c"
  using assms
proof (induction outs arbitrary: c)
  case (Cons out outs)
  have "drained_ok (enqueue out c) \<and> queued (enqueue out c) = queued c @ [out] \<and> \<not> closing (enqueue out c) \<and>
      active_remotes (enqueue out c) = active_remotes c"
    using Cons.prems by (auto simp: drained_ok_def cgi_ok_def enqueue_def do_write_def queued_def Let_def)
  with Cons.IH [of "enqueue out c"] show ?case by simp
qed simp

lemma remote_done_ok:
  assumes "drained_ok c" and "\<not> closing c" and "0 < active_remotes c"
  shows "drained_ok (remote_done c) \<and> queued (remote_done c) = queued c \<and>
     active_remotes (remote_done c) = active_remotes c - 1 \<and> (closing (remote_done c) \<longleftrightarrow> active_remotes c = 1)"
  using assms
  by (auto simp: drained_ok_def cgi_ok_def remote_done_def close_when_drained_def do_write_def queued_def Let_def)

lemma callbacks_ok:
  assumes "drained_ok c" and "\<not> closing c" and "0 < active_remotes c"
  shows "drained_ok (callbacks outs fin c) \<and> queued (callbacks outs fin c) = queued c @ outs \<and>
     active_remotes (callbacks outs fin c) = active_remotes c - (if fin then 1 else 0) \<and>
     (closing (callbacks outs fin c) \<longleftrightarrow> fin \<and> active_remotes c = 1)"
  using enqueue_all [OF assms(1,2), of outs] remote_done_ok [of "fold enqueue outs c"] assms(3)
  by (cases fin) (simp_all add: callbacks_def)

section \<open>The invariant\<close>

definition unfinished :: "session list \<Rightarrow> nat" where
  "unfinished ss = length (filter (\<lambda>s. \<not> finished s) ss)"

lemma unfinished_simps [simp]:
  "unfinished [] = 0"
  "unfinished (s # ss) = (if finished s then 0 else 1) + unfinished ss"
  by (simp_all add: unfinished_def)

lemma unfinished_update:
  "i < length ss \<Longrightarrow>
   unfinished (ss[i := s']) + (if finished (ss ! i) then 0 else 1) = unfinished ss + (if finished s' then 0 else 1)"
proof (induction ss arbitrary: i)
  case (Cons s ss)
  show ?case
  proof (cases i)
    case (Suc k)
    with Cons.prems Cons.IH [of k] show ?thesis by simp
  qed simp
qed simp

lemma unfinished_0: "unfinished ss = 0 \<longleftrightarrow> (\<forall>s \<in> set ss. finished s)"
  by (auto simp: unfinished_def filter_empty_conv)

text \<open>The number of unfinished sessions is \<open>active_remotes\<close>, and the connection closes when it is 0.\<close>

definition browser_ok :: "string \<Rightarrow> browser \<Rightarrow> bool" where
  "browser_ok page b \<longleftrightarrow>
     drained_ok (conn b) \<and> (\<forall>s \<in> set (sessions (remote b)). session_ok s) \<and>
     active_remotes (conn b) = unfinished (sessions (remote b)) \<and>
     (closing (conn b) \<longleftrightarrow> unfinished (sessions (remote b)) = 0) \<and>
     queued (conn b) = page # map snd (trace (remote b)) \<and> out3.consistent (remote b)"

lemma browser_okI:
  assumes "drained_ok c" and "\<forall>s \<in> set (sessions r). session_ok s" and "active_remotes c = unfinished (sessions r)"
    and "closing c \<longleftrightarrow> unfinished (sessions r) = 0" and "queued c = page # map snd (trace r)" and "out3.consistent r"
  shows "browser_ok page \<lparr>conn = c, remote = r\<rparr>"
  unfolding browser_ok_def browser.simps using assms by blast

lemma session_done: "session_ok s \<Longrightarrow> session_ok s' \<Longrightarrow> done_calls s' > done_calls s \<longleftrightarrow> finished s' \<and> \<not> finished s"
  by (simp add: session_ok_def)

lemma finished_stays: "session_ok s \<Longrightarrow> finished s \<Longrightarrow> session_event e s = s"
  by (cases e) (auto simp: session_ok_def)

lemma started_remotes:
  assumes "drained_ok c" and "closing c \<longleftrightarrow> n + length ss = 0" and "active_remotes c = n + length ss"
    and "\<forall>s \<in> set ss. session_ok s"
  shows "drained_ok (start_remote_sessions ss c) \<and>
     queued (start_remote_sessions ss c) = queued c @ concat (map console_output ss) \<and>
     active_remotes (start_remote_sessions ss c) = n + unfinished ss \<and>
     (closing (start_remote_sessions ss c) \<longleftrightarrow> n + unfinished ss = 0)"
  using assms
proof (induction ss arbitrary: c n)
  case (Cons s ss)
  let ?c = "start_remote s c"
  have fin: "done_calls s > 0 \<longleftrightarrow> finished s" using Cons.prems(4) by (simp add: session_ok_def)
  have cb: "drained_ok ?c \<and> queued ?c = queued c @ console_output s \<and>
      active_remotes ?c = n + length (s # ss) - (if finished s then 1 else 0) \<and>
      (closing ?c \<longleftrightarrow> finished s \<and> n + length (s # ss) = 1)"
    using callbacks_ok [of c "console_output s" "finished s"] Cons.prems(1-3) by (simp add: start_remote_def fin)
  let ?n = "if finished s then n else n + 1"
  have "drained_ok (start_remote_sessions ss ?c) \<and>
      queued (start_remote_sessions ss ?c) = queued ?c @ concat (map console_output ss) \<and>
      active_remotes (start_remote_sessions ss ?c) = ?n + unfinished ss \<and>
      (closing (start_remote_sessions ss ?c) \<longleftrightarrow> ?n + unfinished ss = 0)"
    using cb Cons.prems(4) by (intro Cons.IH) auto
  with cb show ?case by (simp add: start_remote_sessions_def)
qed (auto simp: start_remote_sessions_def)

lemma open_browser_ok:
  assumes "path request = ''/console.cgi''"
  shows "browser_ok (header_200 @ render_console_page3 (parse_remote_sessions3 (query request)))
           (open_browser files request)"
proof -
  let ?configs = "parse_remote_sessions3 (query request)"
  let ?page = "header_200 @ render_console_page3 ?configs"
  let ?ss = "map (\<lambda>i. session_start i (cmdfile (?configs ! i)) (files (cmdfile (?configs ! i)))) [0..<length ?configs]"
  let ?c = "fst (cgi_dispatch request new_cgi_session)"
  have c: "drained_ok ?c" "closing ?c \<longleftrightarrow> 0 + length ?ss = 0" "active_remotes ?c = 0 + length ?ss" "queued ?c = [?page]"
    using assms by (auto simp: cgi_dispatch_def Let_def new_cgi_session_def enqueue_def do_write_def close_when_drained_def
        drained_ok_def cgi_ok_def queued_def)
  have "\<forall>s \<in> set ?ss. session_ok s" by (simp add: session_start_ok)
  note start = started_remotes [OF c(1-3) this]
  have b: "open_browser files request =
      \<lparr>conn = start_remote_sessions ?ss ?c, remote = started_sessions console_output ?ss\<rparr>"
    using assms by (simp add: open_browser_def cgi_dispatch_def Let_def)
  let ?r = "started_sessions console_output ?ss"
  have r: "sessions ?r = ?ss" by (simp only: started_sessions_def running.simps)
  from start have S: "drained_ok (start_remote_sessions ?ss ?c)"
    "queued (start_remote_sessions ?ss ?c) = queued ?c @ concat (map console_output ?ss)"
    "active_remotes (start_remote_sessions ?ss ?c) = unfinished ?ss"
    "closing (start_remote_sessions ?ss ?c) \<longleftrightarrow> unfinished ?ss = 0"
    unfolding add_0 by blast+
  have concat_nth: "map snd (concat (map (\<lambda>i. map (Pair i) (f (xs ! i))) [0..<length xs])) = concat (map f xs)"
    for f :: "session \<Rightarrow> string list" and xs
  proof -
    have "map (\<lambda>i. f (xs ! i)) [0..<length xs] = map f xs" by (rule nth_equalityI) simp_all
    then show ?thesis by (simp add: map_concat comp_def)
  qed
  have "map snd (trace ?r) = concat (map console_output ?ss)"
    unfolding started_sessions_def running.simps by (rule concat_nth)
  with S(2) c(4) have q: "queued (start_remote_sessions ?ss ?c) = ?page # map snd (trace ?r)"
    by (simp only: append.simps)
  show ?thesis
    unfolding b by (rule browser_okI, unfold r, fact S(1), simp add: session_start_ok, fact S(3), fact S(4),
        fact q, rule out3.started_consistent)
qed

lemma browser_step_ok:
  assumes ok: "browser_ok page b" and "ev \<noteq> BrowserWrite False"
  shows "browser_ok page (browser_step ev b)"
proof (cases ev)
  case (BrowserWrite w)
  with assms have w: w by (cases w) auto
  have "drained_ok (write_done True c) \<and> queued (write_done True c) = queued c \<and>
      active_remotes (write_done True c) = active_remotes c \<and> closing (write_done True c) = closing c"
    if "drained_ok c" for c
    using that by (cases "pending c") (auto simp: drained_ok_def cgi_ok_def write_done_def do_write_def queued_def)
  with ok show ?thesis by (simp add: BrowserWrite w browser_ok_def)
next
  case (RemoteEvent i e)
  show ?thesis
  proof (cases "i < length (sessions (remote b))")
    case i: True
    let ?ss = "sessions (remote b)"
    let ?s = "?ss ! i"
    let ?s' = "session_event e ?s"
    let ?outs = "new_output console_output ?s ?s'"
    have s: "session_ok ?s" and s': "session_ok ?s'"
      using ok i session_event_ok by (auto simp: browser_ok_def)
    show ?thesis
    proof (cases "finished ?s")
      case True
      then have "?s' = ?s" by (rule finished_stays [OF s])
      then have "browser_step ev b = b"
        using i by (simp add: RemoteEvent Let_def new_output_def callbacks_def)
      with ok show ?thesis by simp
    next
      case False
      then have "0 < unfinished ?ss" using i unfinished_0 [of ?ss] by auto
      with ok have c: "drained_ok (conn b)" "\<not> closing (conn b)" "0 < active_remotes (conn b)"
        by (simp_all add: browser_ok_def)
      note cb = callbacks_ok [OF c, of ?outs "finished ?s'"]
      note count = unfinished_update [OF i, of ?s']
      have handler: "run_handler step3 console_output (i, e) (remote b) =
          Inr \<lparr>sessions = ?ss[i := ?s'], trace = trace (remote b) @ map (Pair i) ?outs\<rparr>"
        using i by (simp add: run_handler_def step3_def)
      let ?r = "\<lparr>sessions = ?ss[i := ?s'], trace = trace (remote b) @ map (Pair i) ?outs\<rparr>"
      have consistent: "out3.consistent ?r"
        using handler out3.run_handler_consistent ok by (auto simp: browser_ok_def)
      have all_ok: "\<forall>t \<in> set (?ss[i := ?s']). session_ok t"
        using ok s' by (auto simp: browser_ok_def dest: set_update_subset_insert [THEN subsetD])
      have step: "browser_step ev b = \<lparr>conn = callbacks ?outs (finished ?s') (conn b), remote = ?r\<rparr>"
        using i False session_done [OF s s'] by (simp add: RemoteEvent Let_def)
      have active: "active_remotes (conn b) = unfinished ?ss"
        and q: "queued (conn b) = page # map snd (trace (remote b))"
        using ok by (simp_all add: browser_ok_def)
      have arith: "a + 1 = u + (if f then 0 else 1) \<Longrightarrow> 0 < u \<Longrightarrow> u - (if f then 1 else 0) = a \<and> (f \<and> u = 1 \<longleftrightarrow> a = 0)"
        for a u :: nat and f by auto
      from count False have "unfinished (?ss[i := ?s']) + 1 = active_remotes (conn b) + (if finished ?s' then 0 else 1)"
        unfolding active by (simp only: if_False)
      note count' = arith [OF this c(3)]
      have "active_remotes (callbacks ?outs (finished ?s') (conn b)) = unfinished (?ss[i := ?s'])"
        and "closing (callbacks ?outs (finished ?s') (conn b)) \<longleftrightarrow> unfinished (?ss[i := ?s']) = 0"
        using cb count' by (simp_all only:)
      moreover have "queued (callbacks ?outs (finished ?s') (conn b)) = page # map snd (trace ?r)"
        using cb q by (simp add: comp_def)
      ultimately show ?thesis
        unfolding step using cb all_ok consistent by (intro browser_okI) simp_all
    qed
  qed (use ok RemoteEvent in simp)
qed

lemma browser_run_ok:
  "browser_ok page b \<Longrightarrow> BrowserWrite False \<notin> set evs \<Longrightarrow> browser_ok page (browser_run evs b)"
proof (induction evs arbitrary: b)
  case (Cons ev evs)
  then have "browser_ok page (browser_step ev b)" by (intro browser_step_ok) auto
  with Cons show ?case by (simp add: browser_run_def)
qed (simp add: browser_run_def)

definition remote_events :: "nat \<Rightarrow> browser_event list \<Rightarrow> event list" where
  "remote_events i evs =
     concat (map (\<lambda>ev. case ev of RemoteEvent j e \<Rightarrow> if j = i then [e] else [] | BrowserWrite ok \<Rightarrow> []) evs)"

lemma browser_run_sessions:
  "length (sessions (remote (browser_run evs b))) = length (sessions (remote b)) \<and>
   (\<forall>i < length (sessions (remote b)).
      sessions (remote (browser_run evs b)) ! i = run_session (remote_events i evs) (sessions (remote b) ! i))"
proof (induction evs arbitrary: b)
  case (Cons ev evs)
  have len: "length (sessions (remote (browser_step ev b))) = length (sessions (remote b))"
    by (cases ev) (simp_all add: Let_def)
  have "sessions (remote (browser_step ev b)) ! i = run_session (remote_events i [ev]) (sessions (remote b) ! i)"
    if "i < length (sessions (remote b))" for i
    using that by (cases ev) (auto simp: Let_def remote_events_def run_session_def)
  moreover have "remote_events i (ev # evs) = remote_events i [ev] @ remote_events i evs" for i
    by (simp add: remote_events_def)
  ultimately show ?case
    using Cons.IH [of "browser_step ev b"] len by (simp add: browser_run_def session_run_append)
qed (simp add: browser_run_def remote_events_def run_session_def)

section \<open>Properties\<close>

text \<open>C14. A browser that asks for the console gets, as long as its connection stands, the page and then every piece of
  output of every remote session: nothing is lost, repeated or reordered within a session, however the events
  interleave with the writes. The server closes the connection exactly when all sessions have finished and
  everything has been sent.\<close>

theorem browser_gets_everything:
  assumes "path request = ''/console.cgi''" and "BrowserWrite False \<notin> set evs"
    and "configs = parse_remote_sessions3 (query request)" and "b = browser_run evs (open_browser files request)"
    and "alone = (\<lambda>i. run_session (remote_events i evs)
                    (session_start i (cmdfile (configs ! i)) (files (cmdfile (configs ! i)))))"
  shows "(\<exists>tr. sent_data (conn b) @ pending (conn b) = (header_200 @ render_console_page3 configs) # map snd tr \<and>
            (\<forall>i < length configs. written_by i tr = console_output (alone i))) \<and>
         (\<not> socket_open (conn b) \<longleftrightarrow> pending (conn b) = [] \<and> (\<forall>i < length configs. finished (alone i)))"
proof -
  let ?b0 = "open_browser files request"
  have "browser_ok (header_200 @ render_console_page3 configs) b"
    using browser_run_ok [OF open_browser_ok [OF assms(1)] assms(2), of files] assms(3,4) by simp
  then have ok: "drained_ok (conn b)" "closing (conn b) \<longleftrightarrow> (\<forall>s \<in> set (sessions (remote b)). finished s)"
    "queued (conn b) = (header_200 @ render_console_page3 configs) # map snd (trace (remote b))"
    "out3.consistent (remote b)"
    using unfinished_0 by (auto simp: browser_ok_def)
  have start: "sessions (remote ?b0) = map (\<lambda>i. session_start i (cmdfile (configs ! i)) (files (cmdfile (configs ! i)))) [0..<length configs]"
    using assms(1,3) by (simp add: open_browser_def cgi_dispatch_def Let_def started_sessions_def)
  then have len: "length (sessions (remote b)) = length configs"
    using browser_run_sessions [of evs ?b0] assms(4) by simp
  have sess: "sessions (remote b) ! i = alone i" if "i < length configs" for i
    using browser_run_sessions [of evs ?b0] that start assms(4,5) by simp
  have fin: "(\<forall>s \<in> set (sessions (remote b)). finished s) \<longleftrightarrow> (\<forall>i < length configs. finished (alone i))"
    using sess len by (auto simp: all_set_conv_all_nth)
  have "\<not> socket_open (conn b) \<longleftrightarrow> pending (conn b) = [] \<and> closing (conn b)"
    using ok(1) unfolding drained_ok_def cgi_ok_def by blast
  then have "\<not> socket_open (conn b) \<longleftrightarrow> pending (conn b) = [] \<and> (\<forall>i < length configs. finished (alone i))"
    unfolding ok(2) fin .
  moreover have "\<forall>i < length configs. written_by i (trace (remote b)) = console_output (alone i)"
    using ok(4) sess len by (simp add: out3.consistent_def)
  ultimately show ?thesis using ok(3) unfolding queued_def by blast
qed

definition console_request :: HttpRequest where
  "console_request = parse_http_request (''GET /console.cgi?'' @ two_sessions @ '' HTTP/1.1'' @ CRLF @ CRLF)"

lemma console_request_parsed: "path console_request = ''/console.cgi''" "query console_request = two_sessions"
  by code_simp+

lemma browser_gets_everything_instance:
  "let b = browser_run [RemoteEvent 1 (Resolved (Some ''no host'')), BrowserWrite True, BrowserWrite True, BrowserWrite True]
             (open_browser (\<lambda>f. if f = ''t'' then None else Some ''ls'') console_request)
   in \<not> socket_open (conn b) \<and> length (sent_data (conn b)) = 3"
proof -
  let ?files = "\<lambda>f. if f = ''t'' then None else Some ''ls''"
  let ?evs = "[RemoteEvent 1 (Resolved (Some ''no host'')), BrowserWrite True, BrowserWrite True, BrowserWrite True]"
  let ?b = "browser_run ?evs (open_browser ?files console_request)"
  have "pending (conn ?b) = [] \<and> length (sent_data (conn ?b)) = 3" by code_simp
  then have sent: "pending (conn ?b) = []" "length (sent_data (conn ?b)) = 3" by blast+
  let ?configs = "parse_remote_sessions3 (query console_request)"
  let ?alone = "\<lambda>i. run_session (remote_events i ?evs)
      (session_start i (cmdfile (?configs ! i)) (?files (cmdfile (?configs ! i))))"
  have both: "finished (?alone 0)" "finished (?alone 1)"
    by (simp_all add: console_request_parsed two_sessions_parsed remote_events_def run_session_def session_start_def
        load_commands3_def finish_def emit_def)
  have fin: "\<forall>i < length ?configs. finished (?alone i)"
  proof (intro allI impI)
    fix i assume "i < length ?configs"
    then have "i < 2" by (simp add: console_request_parsed two_sessions_parsed)
    then have "i = 0 \<or> i = 1" by (simp add: less_2_cases_iff)
    then show "finished (?alone i)" using both by (elim disjE) (simp_all only:)
  qed
  have ok: "BrowserWrite False \<notin> set ?evs" by simp
  have "\<not> socket_open (conn ?b)"
    by (rule browser_gets_everything [OF console_request_parsed(1) ok refl refl refl, THEN conjunct2, THEN iffD2,
          OF conjI [OF sent(1) fin]])
  then show ?thesis unfolding Let_def by (rule conjI [OF _ sent(2)])
qed

end
