(* ===== verification/Socks_Server.thy ===== *)
theory Socks_Server
  imports Socks_Protocol "HOL-Library.AList"
begin

text \<open>
  \<open>projects/04-socks-proxy/socks_server.cpp\<close>: the twenty seconds a client address has, the resolution
  of the destination, \<open>handle_connect\<close>, \<open>handle_bind\<close>, \<open>handle_client\<close> and the relay of one direction.

  What the process sees of the network and the clock is a record of answers (\<open>network\<close>); what it does
  is collected in a record of effects (\<open>served\<close>). An operation that may throw returns, with the new
  effects, whether it returned normally. The lemmas say that a grant is only sent, and a relay only
  started, for a destination that the firewall permits and within the time limit.
\<close>

section \<open>State\<close>

text \<open>
  \<open>connected\<close>: the client is there, so that operations on its socket succeed. \<open>resolved\<close> is the
  resolver of Boost.Asio (\<open>None\<close> when it throws, otherwise the addresses, each with whether it is
  IPv4), \<open>reachable\<close> tells which connections succeed, \<open>bind_port\<close> is the port of a new acceptor and
  \<open>accepted\<close> the peer that connects to it. \<open>clock n\<close> is the reading number \<open>n\<close> of the clock in seconds.
\<close>

record network =
  connected :: bool
  remote_ip :: string
  remote_port :: "16 word"
  local_ip :: string
  resolved :: "string \<Rightarrow> string \<Rightarrow> (bool \<times> string) list option"
  reachable :: "string \<Rightarrow> 16 word \<Rightarrow> bool"
  bind_port :: "16 word option"
  accepted :: "(string \<times> 16 word) option"
  socks_conf :: "string option"
  clock :: "nat \<Rightarrow> 64 word"

record served =
  readings :: nat
  files :: "(string \<times> string) list"
  sent :: "8 word list list"
  printed :: "string list"
  relayed :: "(string \<times> 64 word) list"

record Destination =
  endpoint_ip :: string
  endpoint_port :: "16 word"
  ip :: string

section \<open>The time limit\<close>

definition now :: "network \<Rightarrow> served \<Rightarrow> 64 word \<times> served" where
  "now net sv = (clock net (readings sv), sv\<lparr>readings := Suc (readings sv)\<rparr>)"

definition time_exceeded :: "64 word \<Rightarrow> 64 word \<Rightarrow> bool" where
  "time_exceeded start_time t \<longleftrightarrow> t < start_time \<or> t - start_time > 20"

definition is_time_limit_exceeded :: "network \<Rightarrow> 64 word \<Rightarrow> served \<Rightarrow> bool \<times> served" where
  "is_time_limit_exceeded net start_time sv =
     (let (t, sv1) = now net sv in (time_exceeded start_time t, sv1))"

text \<open>
  The extraction of an unsigned number from a file: white space, an optional sign, digits; it fails
  on no digit and on a value of 64 bits or more. A negative number wraps around.
\<close>

definition read_uint64 :: "string \<Rightarrow> 64 word option" where
  "read_uint64 s =
     (let s1 = dropWhile isspace s;
          neg = (s1 \<noteq> [] \<and> hd s1 = CHR ''-'');
          s2 = (if s1 \<noteq> [] \<and> (hd s1 = CHR ''-'' \<or> hd s1 = CHR ''+'') then tl s1 else s1);
          ds = takeWhile isdigit s2
      in if ds = [] \<or> digits_value ds \<ge> 2 ^ 64 then None
         else Some (if neg then - of_nat (digits_value ds) else of_nat (digits_value ds)))"

definition get_or_create_ip_start_time :: "network \<Rightarrow> string \<Rightarrow> served \<Rightarrow> 64 word \<times> served" where
  "get_or_create_ip_start_time net client_ip sv =
     (let filename = ''socks_session_'' @ client_ip
      in case Option.bind (map_of (files sv) filename) read_uint64 of
           Some start_time \<Rightarrow> (start_time, sv)
         | None \<Rightarrow>
             (let (t, sv1) = now net sv
              in (t, sv1\<lparr>files := AList.update filename (nat_to_string (unat t)) (files sv1)\<rparr>)))"

section \<open>Output\<close>

text \<open>\<open>f ;; g\<close> in the code, where \<open>f\<close> may throw.\<close>

definition andThen :: "bool \<times> served \<Rightarrow> (served \<Rightarrow> bool \<times> served) \<Rightarrow> bool \<times> served" where
  "andThen r f = (case r of (ok, sv) \<Rightarrow> if ok then f sv else (False, sv))"

definition write_socks_reply ::
  "network \<Rightarrow> 8 word \<Rightarrow> 16 word \<Rightarrow> string \<Rightarrow> served \<Rightarrow> bool \<times> served" where
  "write_socks_reply net reply port reply_ip sv =
     (case socks_reply reply port reply_ip of
        Inl _ \<Rightarrow> (False, sv)
      | Inr packet \<Rightarrow>
          if connected net then (True, sv\<lparr>sent := sent sv @ [packet]\<rparr>) else (False, sv))"

definition command_name :: "8 word \<Rightarrow> string" where
  "command_name c =
     (if c = kConnect then ''CONNECT'' else if c = kBind then ''BIND'' else ''UNKNOWN'')"

definition port_text :: "16 word \<Rightarrow> string" where
  "port_text p = nat_to_string (unat p)"

definition print_server_message ::
  "network \<Rightarrow> SocksRequest \<Rightarrow> string \<Rightarrow> string \<Rightarrow> served \<Rightarrow> bool \<times> served" where
  "print_server_message net request dest reply sv =
     (if connected net then
        (True, sv\<lparr>printed := printed sv @
           [''<S_IP>: '' @ remote_ip net @ [NL] @
            ''<S_PORT>: '' @ port_text (remote_port net) @ [NL] @
            ''<D_IP>: '' @ dest @ [NL] @
            ''<D_PORT>: '' @ port_text (dst_port request) @ [NL] @
            ''<Command>: '' @ command_name (cd request) @ [NL] @
            ''<Reply>: '' @ reply @ [NL]]\<rparr>)
      else (False, sv))"

section \<open>Handlers\<close>

definition resolve_destination :: "network \<Rightarrow> SocksRequest \<Rightarrow> Destination option" where
  "resolve_destination net request =
     (if domain_name request \<noteq> [] then
        (case resolved net (domain_name request) (port_text (dst_port request)) of
           None \<Rightarrow> None
         | Some entries \<Rightarrow>
             (case filter fst entries of
                [] \<Rightarrow> None
              | (_, address) # _ \<Rightarrow>
                  Some \<lparr>endpoint_ip = address, endpoint_port = dst_port request, ip = address\<rparr>))
      else Some \<lparr>endpoint_ip = dst_ip request, endpoint_port = dst_port request, ip = dst_ip request\<rparr>)"

definition reject :: "network \<Rightarrow> SocksRequest \<Rightarrow> Destination \<Rightarrow> 16 word \<Rightarrow> string \<Rightarrow> served \<Rightarrow> bool \<times> served" where
  "reject net request dest port reply_ip sv =
     andThen (write_socks_reply net kReplyRejected port reply_ip sv)
       (print_server_message net request (ip dest) ''Reject'')"

definition no_ip :: string where
  "no_ip = ''0.0.0.0''"

text \<open>The relay itself is below; here it is recorded with the peer and the start time.\<close>

definition relay_bidirectional :: "string \<Rightarrow> 64 word \<Rightarrow> served \<Rightarrow> bool \<times> served" where
  "relay_bidirectional peer start_time sv = (True, sv\<lparr>relayed := relayed sv @ [(peer, start_time)]\<rparr>)"

definition handle_connect ::
  "network \<Rightarrow> SocksRequest \<Rightarrow> Destination \<Rightarrow> 64 word \<Rightarrow> served \<Rightarrow> bool \<times> served" where
  "handle_connect net request dest start_time sv =
     (let (late, sv1) = is_time_limit_exceeded net start_time sv
      in if late then reject net request dest 0 no_ip sv1
         else if \<not> firewall_allows (socks_conf net) (cd request) (ip dest) then
           reject net request dest 0 no_ip sv1
         else if \<not> reachable net (endpoint_ip dest) (endpoint_port dest) then
           reject net request dest 0 no_ip sv1
         else
           andThen (write_socks_reply net kReplyGranted 0 no_ip sv1) (\<lambda>sv2.
           andThen (print_server_message net request (ip dest) ''Accept'' sv2)
             (relay_bidirectional (endpoint_ip dest) start_time)))"

text \<open>The body of the \<open>try\<close> block of \<open>handle_bind\<close>.\<close>

definition bind_block ::
  "network \<Rightarrow> SocksRequest \<Rightarrow> Destination \<Rightarrow> 64 word \<Rightarrow> served \<Rightarrow> bool \<times> served" where
  "bind_block net request dest start_time sv =
     (case bind_port net of
        None \<Rightarrow> (False, sv)
      | Some port \<Rightarrow>
          if \<not> connected net then (False, sv)
          else andThen (write_socks_reply net kReplyGranted port (local_ip net) sv) (\<lambda>sv1.
            (case accepted net of
               None \<Rightarrow> (False, sv1)
             | Some (peer_ip, peer_port) \<Rightarrow>
                 (let (late, sv2) = is_time_limit_exceeded net start_time sv1
                  in if late then reject net request dest peer_port peer_ip sv2
                     else if peer_ip \<noteq> ip dest then reject net request dest peer_port peer_ip sv2
                     else
                       andThen (write_socks_reply net kReplyGranted peer_port peer_ip sv2) (\<lambda>sv3.
                       andThen (print_server_message net request (ip dest) ''Accept'' sv3)
                         (relay_bidirectional peer_ip start_time))))))"

definition handle_bind ::
  "network \<Rightarrow> SocksRequest \<Rightarrow> Destination \<Rightarrow> 64 word \<Rightarrow> served \<Rightarrow> bool \<times> served" where
  "handle_bind net request dest start_time sv =
     (let (late, sv1) = is_time_limit_exceeded net start_time sv
      in if late then reject net request dest 0 no_ip sv1
         else if \<not> firewall_allows (socks_conf net) (cd request) (ip dest) then
           reject net request dest 0 no_ip sv1
         else
           (case bind_block net request dest start_time sv1 of
              (True, sv2) \<Rightarrow> (True, sv2)
            | (False, sv2) \<Rightarrow> reject net request dest 0 no_ip sv2))"

text \<open>Every exception ends the handler.\<close>

definition handle_client :: "network \<Rightarrow> string \<Rightarrow> served \<Rightarrow> served" where
  "handle_client net input sv =
     (if \<not> connected net then sv
      else
        (let (start_time, sv1) = get_or_create_ip_start_time net (remote_ip net) sv
         in case read_socks_request input of
              None \<Rightarrow> sv1
            | Some (request, _) \<Rightarrow>
                if vn request \<noteq> kSocksVersion \<or> (cd request \<noteq> kConnect \<and> cd request \<noteq> kBind) then
                  snd (write_socks_reply net kReplyRejected 0 no_ip sv1)
                else
                  (case resolve_destination net request of
                     None \<Rightarrow> sv1
                   | Some dest \<Rightarrow>
                       if cd request = kConnect
                       then snd (handle_connect net request dest start_time sv1)
                       else snd (handle_bind net request dest start_time sv1))))"

section \<open>One direction of the relay\<close>

text \<open>
  \<open>n\<close> is the number of the next clock reading, the list holds what the reads return until one fails,
  and \<open>writes\<close> is the number of writes that succeed. The result is what the output socket receives.
\<close>

fun relay_stream :: "(nat \<Rightarrow> 64 word) \<Rightarrow> 64 word \<Rightarrow> nat \<Rightarrow> nat \<Rightarrow> string list \<Rightarrow> string list" where
  "relay_stream clk start_time n writes [] = []"
| "relay_stream clk start_time n writes (data # rest) =
     (if time_exceeded start_time (clk n) then []
      else if time_exceeded start_time (clk (n + 1)) then []
      else (case writes of
              0 \<Rightarrow> []
            | Suc writes' \<Rightarrow> data # relay_stream clk start_time (n + 2) writes' rest))"

section \<open>The time limit\<close>

lemma time_exceeded_iff:
  "time_exceeded start t \<longleftrightarrow> unat t < unat start \<or> unat start + 20 < unat t"
proof (cases "t < start")
  case True
  then show ?thesis by (simp add: time_exceeded_def word_less_nat_alt)
next
  case False
  then have "start \<le> t" by simp
  then have "unat (t - start) = unat t - unat start" and "unat start \<le> unat t"
    by (simp_all add: unat_sub word_le_nat_alt)
  with False show ?thesis
    by (auto simp: time_exceeded_def word_less_nat_alt)
qed

lemma read_uint64_written [simp]: "read_uint64 (nat_to_string (unat (t :: 64 word))) = Some t"
proof -
  let ?s = "nat_to_string (unat t)"
  have digits: "\<forall>c \<in> set ?s. isdigit c" by (rule nat_to_string_digits)
  obtain c s' where s: "?s = c # s'" using nat_to_string_nonempty [of "unat t"] by (cases ?s) auto
  then have c: "isdigit c" using digits by simp
  have "dropWhile isspace ?s = ?s" using c s by (simp add: isdigit_not_isspace)
  moreover have "hd ?s \<noteq> CHR ''-''" "hd ?s \<noteq> CHR ''+''" using c s isdigit_neq by auto
  moreover have "takeWhile isdigit ?s = ?s" using digits by (rule takeWhile_all)
  moreover have "unat t < 2 ^ 64" using unsigned_less [of t] by simp
  ultimately show ?thesis by (simp add: read_uint64_def Let_def del: takeWhile_eq_all_conv)
qed

lemma start_time_kept:
  assumes "get_or_create_ip_start_time net cip sv = (t, sv')"
    and "map_of (files sv'') (''socks_session_'' @ cip) = map_of (files sv') (''socks_session_'' @ cip)"
  shows "get_or_create_ip_start_time net' cip sv'' = (t, sv'')"
proof (cases "Option.bind (map_of (files sv) (''socks_session_'' @ cip)) read_uint64")
  case None
  then have "map_of (files sv') (''socks_session_'' @ cip) = Some (nat_to_string (unat t))"
    using assms(1)
    by (auto simp: get_or_create_ip_start_time_def now_def update_conv')
  with assms(2) show ?thesis by (simp add: get_or_create_ip_start_time_def)
next
  case (Some s)
  with assms show ?thesis by (simp add: get_or_create_ip_start_time_def)
qed

section \<open>What is sent and relayed\<close>

text \<open>
  \<open>allowed\<close> is what a grant needs. \<open>effects_ok\<close> compares the effects before and after: at most the
  replies of one request, every grant allowed, and a relay only to a peer that was allowed.
\<close>

definition allowed :: "network \<Rightarrow> SocksRequest \<Rightarrow> Destination \<Rightarrow> bool" where
  "allowed net request dest \<longleftrightarrow> firewall_allows (socks_conf net) (cd request) (ip dest)"

lemma granted_reply:
  "write_socks_reply net r port rip sv = (ok, sv') \<Longrightarrow>
     relayed sv' = relayed sv \<and> files sv' = files sv \<and> readings sv' = readings sv \<and> printed sv' = printed sv \<and>
     (if ok then \<exists>packet. socks_reply r port rip = Inr packet \<and> sent sv' = sent sv @ [packet]
      else sent sv' = sent sv)"
  by (auto simp: write_socks_reply_def split: sum.splits if_splits)

lemma socks_reply_code: "socks_reply r port rip = Inr packet \<Longrightarrow> packet ! 1 = r \<and> length packet = 8"
  by (auto simp: socks_reply_def)

lemma print_keeps [simp]:
  "print_server_message net request dest reply sv = (ok, sv') \<Longrightarrow>
     sent sv' = sent sv \<and> relayed sv' = relayed sv \<and> files sv' = files sv \<and> ok = connected net"
  by (auto simp: print_server_message_def split: if_splits)

text \<open>The codes of the replies sent from one state to another.\<close>

definition replies :: "served \<Rightarrow> served \<Rightarrow> 8 word list" where
  "replies sv sv' = map (\<lambda>p. p ! 1) (drop (length (sent sv)) (sent sv'))"

lemma reject_effects:
  assumes "reject net request dest port rip sv = (ok, sv')"
  shows "relayed sv' = relayed sv \<and> (\<exists>ps. sent sv' = sent sv @ ps \<and> set (map (\<lambda>p. p ! 1) ps) \<subseteq> {kReplyRejected})"
proof -
  obtain ok1 sv1 where w: "write_socks_reply net kReplyRejected port rip sv = (ok1, sv1)" by fastforce
  have sv': "sent sv' = sent sv1 \<and> relayed sv' = relayed sv1"
    using assms w print_keeps by (cases ok1) (auto simp: reject_def andThen_def)
  show ?thesis
  proof (cases ok1)
    case True
    then obtain packet where p: "socks_reply kReplyRejected port rip = Inr packet" "sent sv1 = sent sv @ [packet]"
      using granted_reply [OF w] by auto
    from socks_reply_code [OF p(1)] p(2) sv' granted_reply [OF w] show ?thesis
      by (intro conjI exI [of _ "[packet]"]) auto
  next
    case False
    with granted_reply [OF w] sv' show ?thesis by (intro conjI exI [of _ "[]"]) auto
  qed
qed

text \<open>
  The common form of the effects: new replies, no grant among them unless \<open>G\<close>, and at most one relay,
  to the destination and only if \<open>G\<close>.
\<close>

definition effects :: "bool \<Rightarrow> string \<Rightarrow> 64 word \<Rightarrow> served \<Rightarrow> served \<Rightarrow> bool" where
  "effects G peer start sv sv' \<longleftrightarrow>
     (relayed sv' = relayed sv \<or> G \<and> relayed sv' = relayed sv @ [(peer, start)]) \<and>
     (\<exists>ps. sent sv' = sent sv @ ps \<and> (kReplyGranted \<in> set (map (\<lambda>p. p ! 1) ps) \<longrightarrow> G))"

lemma effects_refl [simp]: "effects G peer start sv sv"
  by (auto simp: effects_def)

lemma effects_append:
  assumes "effects G peer start sv sv1" and "relayed sv' = relayed sv1" and "sent sv' = sent sv1 @ qs"
    and "kReplyGranted \<in> set (map (\<lambda>p. p ! 1) qs) \<longrightarrow> G"
  shows "effects G peer start sv sv'"
proof -
  from assms(1) obtain ps where "sent sv1 = sent sv @ ps"
    and "kReplyGranted \<in> set (map (\<lambda>p. p ! 1) ps) \<longrightarrow> G"
    and "relayed sv1 = relayed sv \<or> G \<and> relayed sv1 = relayed sv @ [(peer, start)]"
    by (auto simp: effects_def)
  with assms(2-4) have "sent sv' = sent sv @ ps @ qs"
    and "kReplyGranted \<in> set (map (\<lambda>p. p ! 1) (ps @ qs)) \<longrightarrow> G"
    and "relayed sv' = relayed sv \<or> G \<and> relayed sv' = relayed sv @ [(peer, start)]" by auto
  then show ?thesis unfolding effects_def by blast
qed

lemma effects_reject:
  assumes "reject net request dest port rip sv1 = (ok, sv')" and "effects G peer start sv sv1"
  shows "effects G peer start sv sv'"
proof -
  from reject_effects [OF assms(1)] obtain ps where "relayed sv' = relayed sv1" "sent sv' = sent sv1 @ ps"
    and "set (map (\<lambda>p. p ! 1) ps) \<subseteq> {kReplyRejected}" by blast
  with assms(2) show ?thesis by (intro effects_append [of G peer start sv sv1 sv' ps]) auto
qed

lemma effects_write:
  assumes w: "write_socks_reply net r port rip sv1 = (ok, sv')" and e: "effects G peer start sv sv1"
    and G: "r = kReplyGranted \<Longrightarrow> G"
  shows "effects G peer start sv sv'"
proof (cases ok)
  case True
  then obtain packet where p: "socks_reply r port rip = Inr packet" "sent sv' = sent sv1 @ [packet]"
    using granted_reply [OF w] by auto
  with socks_reply_code [OF p(1)] G granted_reply [OF w] show ?thesis
    by (intro effects_append [OF e _ p(2)]) auto
next
  case False
  with granted_reply [OF w] show ?thesis by (intro effects_append [OF e, of sv' "[]"]) simp_all
qed

lemma effects_print:
  assumes "print_server_message net request d reply sv1 = (ok, sv')" and "effects G peer start sv sv1"
  shows "effects G peer start sv sv'"
  using print_keeps [OF assms(1)] by (intro effects_append [OF assms(2), of sv' "[]"]) simp_all

lemma effects_readings [simp]:
  "effects G peer start (sv\<lparr>readings := n\<rparr>) sv' = effects G peer start sv sv'"
  "effects G peer start sv (sv1\<lparr>readings := n\<rparr>) = effects G peer start sv sv1"
  by (simp_all add: effects_def)

lemma time_check:
  "is_time_limit_exceeded net start sv =
     (time_exceeded start (clock net (readings sv)), sv\<lparr>readings := Suc (readings sv)\<rparr>)"
  by (simp add: is_time_limit_exceeded_def now_def)

lemma andThen_cases:
  assumes "andThen r f = (ok, sv')"
  obtains sv1 where "r = (True, sv1)" and "f sv1 = (ok, sv')" | "r = (False, sv')" and "\<not> ok"
  using assms by (cases r) (auto simp: andThen_def split: if_splits)

lemma relay_effects:
  assumes start: "effects G peer start sv sv1" and no: "relayed sv1 = relayed sv" and G: G
    and r: "andThen (print_server_message net request d reply sv1) (relay_bidirectional peer start) = (ok, sv')"
  shows "effects G peer start sv sv'"
  using r
proof (cases rule: andThen_cases)
  case (1 sv2)
  from effects_print [OF 1(1) start] print_keeps [OF 1(1)] 1(2) no G show ?thesis
    by (auto simp: effects_def relay_bidirectional_def)
next
  case 2
  from effects_print [OF 2(1) start] show ?thesis .
qed

lemma handle_connect_effects:
  assumes "handle_connect net request dest start sv = (ok, sv')"
  shows "effects (allowed net request dest \<and> \<not> time_exceeded start (clock net (readings sv)))
           (endpoint_ip dest) start sv sv'"
    (is "effects ?G _ _ _ _")
proof -
  let ?sv1 = "sv\<lparr>readings := Suc (readings sv)\<rparr>"
  have one: "effects ?G (endpoint_ip dest) start sv ?sv1" by simp
  show ?thesis
  proof (cases "?G \<and> reachable net (endpoint_ip dest) (endpoint_port dest)")
    case False
    then have "reject net request dest 0 no_ip ?sv1 = (ok, sv')"
      using assms by (auto simp: handle_connect_def time_check allowed_def split: if_splits)
    from effects_reject [OF this one] show ?thesis .
  next
    case True
    then have r: "andThen (write_socks_reply net kReplyGranted 0 no_ip ?sv1) (\<lambda>sv2.
           andThen (print_server_message net request (ip dest) ''Accept'' sv2)
             (relay_bidirectional (endpoint_ip dest) start)) = (ok, sv')"
      using assms by (simp add: handle_connect_def time_check allowed_def)
    from True have G: ?G by blast
    from r show ?thesis
    proof (cases rule: andThen_cases)
      case (1 sv2)
      have "effects ?G (endpoint_ip dest) start sv sv2" using effects_write [OF 1(1) one] G by blast
      moreover have "relayed sv2 = relayed sv" using granted_reply [OF 1(1)] by simp
      ultimately show ?thesis using G 1(2) by (rule relay_effects)
    next
      case 2
      from effects_write [OF 2(1) one] G show ?thesis by blast
    qed
  qed
qed

lemma bind_block_effects:
  assumes b: "bind_block net request dest start sv1 = (ok, sv')" and G: G
    and one: "effects G (ip dest) start sv sv1" and no: "relayed sv1 = relayed sv"
  shows "effects G (ip dest) start sv sv' \<and> (\<not> ok \<longrightarrow> relayed sv' = relayed sv)"
proof (cases "bind_port net = None \<or> \<not> connected net")
  case True
  with b one no show ?thesis by (auto simp: bind_block_def split: option.splits)
next
  case False
  then obtain port where port: "bind_port net = Some port" "connected net" by auto
  define rest where "rest sv1 = (case accepted net of
               None \<Rightarrow> (False, sv1)
             | Some (peer_ip, peer_port) \<Rightarrow>
                 (let (late, sv2) = is_time_limit_exceeded net start sv1
                  in if late then reject net request dest peer_port peer_ip sv2
                     else if peer_ip \<noteq> ip dest then reject net request dest peer_port peer_ip sv2
                     else
                       andThen (write_socks_reply net kReplyGranted peer_port peer_ip sv2) (\<lambda>sv3.
                       andThen (print_server_message net request (ip dest) ''Accept'' sv3)
                         (relay_bidirectional peer_ip start))))" for sv1
  have "andThen (write_socks_reply net kReplyGranted port (local_ip net) sv1) rest = (ok, sv')"
    using b port unfolding bind_block_def rest_def by simp
  then show ?thesis
  proof (cases rule: andThen_cases)
    case 2
    from effects_write [OF 2(1) one] G no granted_reply [OF 2(1)] show ?thesis by auto
  next
    case (1 sv2)
    have two: "effects G (ip dest) start sv sv2" using effects_write [OF 1(1) one] G by blast
    have no2: "relayed sv2 = relayed sv" using granted_reply [OF 1(1)] no by simp
    let ?sv3 = "sv2\<lparr>readings := Suc (readings sv2)\<rparr>"
    have three: "effects G (ip dest) start sv ?sv3" "relayed ?sv3 = relayed sv" using two no2 by simp_all
    show ?thesis
    proof (cases "accepted net")
      case None
      with 1(2) two no2 show ?thesis by (simp add: rest_def)
    next
      case (Some peer)
      obtain peer_ip peer_port where peer: "peer = (peer_ip, peer_port)" by fastforce
      show ?thesis
      proof (cases "time_exceeded start (clock net (readings sv2)) \<or> peer_ip \<noteq> ip dest")
        case True
        then have r: "reject net request dest peer_port peer_ip ?sv3 = (ok, sv')"
          using 1(2) Some peer by (auto simp: rest_def time_check split: if_splits)
        from effects_reject [OF this three(1)] reject_effects [OF r] three(2) show ?thesis by simp
      next
        case False
        then have r: "andThen (write_socks_reply net kReplyGranted peer_port peer_ip ?sv3) (\<lambda>sv3.
                       andThen (print_server_message net request (ip dest) ''Accept'' sv3)
                         (relay_bidirectional (ip dest) start)) = (ok, sv')"
          using 1(2) Some peer by (simp add: rest_def time_check)
        from r show ?thesis
        proof (cases rule: andThen_cases)
          case w: (1 sv4)
          have four: "effects G (ip dest) start sv sv4" "relayed sv4 = relayed sv"
            using effects_write [OF w(1) three(1)] G granted_reply [OF w(1)] three(2) by auto
          have "\<not> ok \<longrightarrow> relayed sv' = relayed sv"
            using w(2) four(2) print_keeps
            by (auto simp: andThen_def relay_bidirectional_def split: prod.splits if_splits)
          with relay_effects [OF four G w(2)] show ?thesis by blast
        next
          case w: 2
          from effects_write [OF w(1) three(1)] G granted_reply [OF w(1)] three(2) show ?thesis by auto
        qed
      qed
    qed
  qed
qed

lemma handle_bind_effects:
  assumes "handle_bind net request dest start sv = (ok, sv')"
  shows "effects (allowed net request dest \<and> \<not> time_exceeded start (clock net (readings sv)))
           (ip dest) start sv sv'"
    (is "effects ?G _ _ _ _")
proof -
  let ?sv1 = "sv\<lparr>readings := Suc (readings sv)\<rparr>"
  have one: "effects ?G (ip dest) start sv ?sv1" "relayed ?sv1 = relayed sv" by simp_all
  show ?thesis
  proof (cases ?G)
    case False
    then have "reject net request dest 0 no_ip ?sv1 = (ok, sv')"
      using assms by (auto simp: handle_bind_def time_check allowed_def split: if_splits)
    from effects_reject [OF this one(1)] show ?thesis .
  next
    case True
    obtain b sv2 where b: "bind_block net request dest start ?sv1 = (b, sv2)" by fastforce
    note block = bind_block_effects [OF b True one]
    show ?thesis
    proof (cases b)
      case t: True
      with assms True b block show ?thesis by (simp add: handle_bind_def time_check allowed_def)
    next
      case False
      then have "reject net request dest 0 no_ip sv2 = (ok, sv')"
        using assms True b by (simp add: handle_bind_def time_check allowed_def)
      from effects_reject [OF this] block show ?thesis by blast
    qed
  qed
qed

lemma resolve_endpoint:
  "resolve_destination net request = Some dest \<Longrightarrow>
     endpoint_ip dest = ip dest \<and> endpoint_port dest = dst_port request"
  by (auto simp: resolve_destination_def split: if_splits option.splits list.splits)

lemma start_time_effects:
  assumes "get_or_create_ip_start_time net cip sv = (t, sv')"
  shows "effects G peer start sv sv' \<and> relayed sv' = relayed sv \<and> sent sv' = sent sv"
  using assms
  by (auto simp: get_or_create_ip_start_time_def now_def Let_def effects_def split: option.splits)

text \<open>A session of the client handler: the request it served and the start time it used.\<close>

lemma handle_client_effects:
  assumes "get_or_create_ip_start_time net (remote_ip net) sv = (start, sv1)"
  shows "effects (\<exists>request rest dest. read_socks_request input = Some (request, rest) \<and>
             vn request = kSocksVersion \<and> (cd request = kConnect \<or> cd request = kBind) \<and>
             resolve_destination net request = Some dest \<and> ip dest = peer \<and>
             allowed net request dest \<and> \<not> time_exceeded start (clock net (readings sv1)))
           peer start sv (handle_client net input sv) \<or>
         (\<exists>request rest dest. read_socks_request input = Some (request, rest) \<and>
             resolve_destination net request = Some dest \<and> ip dest \<noteq> peer)"
    (is "effects ?G peer start sv ?sv' \<or> ?other")
proof (cases "?other")
  case False
  have one: "effects ?G peer start sv sv1" using start_time_effects [OF assms] by blast
  have "effects ?G peer start sv ?sv'"
  proof (cases "\<not> connected net \<or> read_socks_request input = None")
    case True
    then show ?thesis using one assms by (auto simp: handle_client_def)
  next
    case go: False
    then obtain request rest where r: "connected net" "read_socks_request input = Some (request, rest)"
      by auto
    show ?thesis
    proof (cases "vn request = kSocksVersion \<and> (cd request = kConnect \<or> cd request = kBind)")
      case False
      then have "?sv' = snd (write_socks_reply net kReplyRejected 0 no_ip sv1)"
        using r assms by (auto simp: handle_client_def)
      then show ?thesis
        using effects_write [OF _ one, of net kReplyRejected 0 no_ip "fst (write_socks_reply net kReplyRejected 0 no_ip sv1)"]
        by simp
    next
      case valid: True
      show ?thesis
      proof (cases "resolve_destination net request")
        case None
        then have "?sv' = sv1" using r assms valid by (auto simp: handle_client_def)
        with one show ?thesis by simp
      next
        case (Some dest)
        with False r have peer: "ip dest = peer" by blast
        let ?A = "allowed net request dest \<and> \<not> time_exceeded start (clock net (readings sv1))"
        have G: "?A \<Longrightarrow> ?G" using r valid Some peer by blast
        obtain ok where h: "(if cd request = kConnect then handle_connect net request dest start sv1
            else handle_bind net request dest start sv1) = (ok, ?sv')"
          using r assms valid Some by (cases "cd request = kConnect") (auto simp: handle_client_def prod_eq_iff)
        have "effects ?A peer start sv1 ?sv'"
          using h handle_connect_effects handle_bind_effects peer resolve_endpoint [OF Some]
          by (cases "cd request = kConnect") fastforce+
        then have "effects ?G peer start sv1 ?sv'"
          using G unfolding effects_def by blast
        with start_time_effects [OF assms] show ?thesis by (simp add: effects_def)
      qed
    qed
  qed
  then show ?thesis ..
qed simp

section \<open>The relay\<close>

lemma relay_stream_take:
  "\<exists>k \<le> min writes (length reads). relay_stream clk start n writes reads = take k reads \<and>
     (\<forall>i < k. \<not> time_exceeded start (clk (n + 2 * i)) \<and> \<not> time_exceeded start (clk (n + 2 * i + 1))) \<and>
     (k < min writes (length reads) \<longrightarrow>
        time_exceeded start (clk (n + 2 * k)) \<or> time_exceeded start (clk (n + 2 * k + 1)))"
proof (induction clk start n writes reads rule: relay_stream.induct)
  case (2 clk start n writes c cs)
  show ?case
  proof (cases "time_exceeded start (clk n) \<or> time_exceeded start (clk (n + 1)) \<or> writes = 0")
    case True
    then show ?thesis by (intro exI [of _ 0]) (auto split: nat.split)
  next
    case False
    then obtain w where w: "writes = Suc w" by (cases writes) auto
    from "2.IH" [OF _ _ w] False obtain k where k: "k \<le> min w (length cs)"
      "relay_stream clk start (n + 2) w cs = take k cs"
      "\<forall>i < k. \<not> time_exceeded start (clk (n + 2 + 2 * i)) \<and> \<not> time_exceeded start (clk (n + 2 + 2 * i + 1))"
      "k < min w (length cs) \<longrightarrow>
         time_exceeded start (clk (n + 2 + 2 * k)) \<or> time_exceeded start (clk (n + 2 + 2 * k + 1))"
      by blast
    have "\<not> time_exceeded start (clk (n + 2 * i)) \<and> \<not> time_exceeded start (clk (n + 2 * i + 1))"
      if "i < Suc k" for i
      using that False k(3) by (cases i) (auto simp: algebra_simps)
    with False w k show ?thesis by (intro exI [of _ "Suc k"]) (auto simp: algebra_simps)
  qed
qed simp

end
