(* ===== verification/Socks_Theorems.thy ===== *)
theory Socks_Theorems
  imports Socks_Server
begin

text \<open>
  What the SOCKS server and the request builder of \<open>projects/04-socks-proxy\<close> guarantee: requests and
  replies on the wire, the rules of \<open>socks.conf\<close>, the twenty seconds of a client address, and the
  conditions of a grant and of a relay.
\<close>

section \<open>Messages\<close>

text \<open>The request that the console builds for a host and a port is read back by the server as a SOCKS4a
  CONNECT request for this host and port, and the bytes after it are left in the stream.\<close>

theorem request_roundtrip:
  assumes "stoi ptext = Inr n" and "NUL \<notin> set host"
  shows "\<exists>packet. build_socks4a_request host ptext = Inr packet \<and>
    read_socks_request (packet @ rest) =
      Some (\<lparr>vn = kSocksVersion, cd = kConnect, dst_port = word_of_int n, raw_dst_ip = (0, 0, 0, 1),
             dst_ip = ''0.0.0.1'', user_id = [], domain_name = host\<rparr>, rest)"
  using read_build_request [OF assms] by metis

lemma request_roundtrip_instance:
  "\<exists>packet. build_socks4a_request ''nycu.edu'' ''8080'' = Inr packet \<and>
    read_socks_request (packet @ ''ls'') =
      Some (\<lparr>vn = 4, cd = 1, dst_port = 8080, raw_dst_ip = (0, 0, 0, 1),
             dst_ip = ''0.0.0.1'', user_id = [], domain_name = ''nycu.edu''\<rparr>, ''ls'')"
proof -
  have "stoi ''8080'' = Inr 8080" by code_simp
  moreover have "NUL \<notin> set ''nycu.edu''" by (simp add: NUL_def)
  ultimately show ?thesis using request_roundtrip [of "''8080''" 8080 "''nycu.edu''" "''ls''"] by simp
qed

text \<open>A reply holds eight bytes: a zero, the code, the port in network order and the address; port and
  address are recovered from the bytes.\<close>

theorem reply_roundtrip:
  "\<exists>hi lo. socks_reply code port (ip_to_string (a, b, c, d)) = Inr [0, code, hi, lo, a, b, c, d] \<and>
     port_of hi lo = port \<and> parse_ipv4 (ip_to_string (a, b, c, d)) = Inr (a, b, c, d)"
  by (simp add: socks_reply_def)

section \<open>The firewall\<close>


text \<open>A configuration written as lines \<open>permit c|b a.b.c.d\<close>, each with an optional comment, is read
  as exactly these rules in this order.\<close>

theorem conf_roundtrip:
  assumes "\<forall>(r, t) \<in> set rs. rule_ok r \<and> comment_ok t"
  shows "load_firewall_rules (Some (print_conf rs)) = map fst rs"
  by (rule load_print_conf [OF assms])

lemma conf_roundtrip_instance:
  "load_firewall_rules (Some (print_conf
     [(\<lparr>command = 1, octets = (''140'', ''113'', ''*'', ''*'')\<rparr>, ''# campus''), (permit_all 2, [])])) =
   [\<lparr>command = 1, octets = (''140'', ''113'', ''*'', ''*'')\<rparr>, permit_all 2]"
  by (subst conf_roundtrip)
    (simp_all add: rule_ok_def octet_ok_def comment_ok_def permit_all_def isspace_def)

section \<open>The time limit\<close>

text \<open>On the 64-bit clock the limit is exceeded exactly when the clock has gone back behind the start
  or more than 20 seconds have passed; the subtraction never wraps around.\<close>

theorem time_limit_exact: "time_exceeded start t \<longleftrightarrow> unat t < unat start \<or> unat start + 20 < unat t"
  by (rule time_exceeded_iff)

text \<open>A client address keeps its start time: once it has one, every later session of this address
  reads the same one, whatever the clock says, and changes nothing, as long as its file is kept.\<close>

theorem start_time_stable:
  assumes "get_or_create_ip_start_time net cip sv = (t, sv')"
    and "map_of (files sv'') (''socks_session_'' @ cip) = map_of (files sv') (''socks_session_'' @ cip)"
  shows "get_or_create_ip_start_time net' cip sv'' = (t, sv'')"
  by (rule start_time_kept [OF assms])

definition demo_net :: network where
  "demo_net =
     \<lparr>connected = True, remote_ip = ''10.0.0.1'', remote_port = 4000, local_ip = ''10.0.0.9'',
      resolved = (\<lambda>name port. if name = ''www'' then Some [(False, ''fe80''), (True, ''1.2.3.4'')] else None),
      reachable = (\<lambda>ip port. ip = ''1.2.3.4''), bind_port = Some 5000, accepted = Some (''1.2.3.4'', 21),
      socks_conf = Some ''permit c 1.2.*.*'', clock = (\<lambda>n. 100 + of_nat n)\<rparr>"

definition nothing_served :: served where
  "nothing_served = \<lparr>readings = 0, files = [], sent = [], printed = [], relayed = []\<rparr>"

lemma start_time_stable_instance:
  "get_or_create_ip_start_time demo_net ''10.0.0.1''
     (nothing_served\<lparr>readings := 7, files := [(''socks_session_10.0.0.1'', ''100'')]\<rparr>) =
   (100, nothing_served\<lparr>readings := 7, files := [(''socks_session_10.0.0.1'', ''100'')]\<rparr>)"
proof -
  have "get_or_create_ip_start_time demo_net ''10.0.0.1'' nothing_served =
      (100, nothing_served\<lparr>readings := 1, files := [(''socks_session_10.0.0.1'', ''100'')]\<rparr>)"
    by (simp add: get_or_create_ip_start_time_def now_def nothing_served_def demo_net_def) code_simp
  from start_time_stable [OF this] show ?thesis by simp
qed

section \<open>Grants and relays\<close>



text \<open>C21. From the console to the grant: the request that the console builds for a host is granted and
  relayed to the first IPv4 address of the host, if the firewall permits this address, it can be reached
  and the client's time is not over.\<close>

theorem console_request_granted:
  assumes "connected net" and "build_socks4a_request host port = Inr packet" and "stoi port = Inr n"
    and "NUL \<notin> set host" and "host \<noteq> []"
    and "resolved net host (port_text (word_of_int n)) = Some entries"
    and "filter fst entries = (family, address) # others"
    and "firewall_allows (socks_conf net) kConnect address" and "reachable net address (word_of_int n)"
    and "get_or_create_ip_start_time net (remote_ip net) sv = (start, sv1)"
    and "\<not> time_exceeded start (clock net (readings sv1))"
  shows "sent (handle_client net (packet @ rest) sv) = sent sv @ [[0, kReplyGranted, 0, 0, 0, 0, 0, 0]] \<and>
    relayed (handle_client net (packet @ rest) sv) = relayed sv @ [(address, start)]"
proof -
  let ?request = "\<lparr>vn = kSocksVersion, cd = kConnect, dst_port = word_of_int n, raw_dst_ip = (0, 0, 0, 1),
             dst_ip = ''0.0.0.1'', user_id = [], domain_name = host\<rparr>"
  let ?dest = "\<lparr>endpoint_ip = address, endpoint_port = word_of_int n, ip = address\<rparr>"
  have read: "read_socks_request (packet @ rest) = Some (?request, rest)"
    using read_build_request [OF assms(3,4)] assms(2) by (metis sum.inject(2))
  have dest: "resolve_destination net ?request = Some ?dest"
    using assms(5-7) by (simp add: resolve_destination_def)
  have "parse_ipv4 no_ip = Inr (0, 0, 0, 0)" by code_simp
  then have reply: "socks_reply kReplyGranted 0 no_ip = Inr [0, kReplyGranted, 0, 0, 0, 0, 0, 0]"
    by (simp add: socks_reply_def port_high_def port_low_def)
  have same: "sent sv1 = sent sv" "relayed sv1 = relayed sv"
    using start_time_effects [OF assms(10)] by auto
  let ?sv2 = "sv1\<lparr>readings := Suc (readings sv1)\<rparr>"
  have granted: "write_socks_reply net kReplyGranted 0 no_ip ?sv2 =
      (True, ?sv2\<lparr>sent := sent ?sv2 @ [[0, kReplyGranted, 0, 0, 0, 0, 0, 0]]\<rparr>)"
    unfolding write_socks_reply_def reply using assms(1) by simp
  obtain sv3 where prints: "print_server_message net ?request address ''Accept''
      (?sv2\<lparr>sent := sent ?sv2 @ [[0, kReplyGranted, 0, 0, 0, 0, 0, 0]]\<rparr>) = (True, sv3)"
    using assms(1) by (simp only: print_server_message_def if_True prod.inject)
  have connect: "handle_connect net ?request ?dest start sv1 = relay_bidirectional address start sv3"
    unfolding handle_connect_def time_check Let_def prod.case andThen_def Destination.simps SocksRequest.simps
    using assms(8,9,11) granted prints by simp
  have "handle_client net (packet @ rest) sv = snd (relay_bidirectional address start sv3)"
    unfolding handle_client_def assms(10) read Let_def prod.case option.case dest connect [symmetric]
    using assms(1) by simp
  then show ?thesis
    using print_keeps [OF prints] same by (simp add: relay_bidirectional_def)
qed

lemma console_request_granted_instance:
  "\<exists>packet. build_socks4a_request ''www'' ''80'' = Inr packet \<and>
     sent (handle_client demo_net (packet @ ''hello'') nothing_served) = [[0, 90, 0, 0, 0, 0, 0, 0]] \<and>
     relayed (handle_client demo_net (packet @ ''hello'') nothing_served) = [(''1.2.3.4'', 100)]"
proof -
  have port: "stoi ''80'' = Inr 80" by code_simp
  obtain packet where packet: "build_socks4a_request ''www'' ''80'' = Inr packet"
    using read_build_request [OF port, of "''www''"] by (auto simp: NUL_def)
  have "firewall_allows (socks_conf demo_net) kConnect ''1.2.3.4''" by code_simp
  moreover have "get_or_create_ip_start_time demo_net (remote_ip demo_net) nothing_served =
      (100, nothing_served\<lparr>readings := 1, files := [(''socks_session_10.0.0.1'', ''100'')]\<rparr>)"
    by (simp add: get_or_create_ip_start_time_def now_def nothing_served_def demo_net_def) code_simp
  moreover have "\<not> time_exceeded 100 (clock demo_net
      (readings (nothing_served\<lparr>readings := 1, files := [(''socks_session_10.0.0.1'', ''100'')]\<rparr>)))" by code_simp
  ultimately have "sent (handle_client demo_net (packet @ ''hello'') nothing_served) =
      sent nothing_served @ [[0, kReplyGranted, 0, 0, 0, 0, 0, 0]] \<and>
    relayed (handle_client demo_net (packet @ ''hello'') nothing_served) = relayed nothing_served @ [(''1.2.3.4'', 100)]"
    by (intro console_request_granted [OF _ packet port, where family = True and others = "[]" and
          entries = "[(False, ''fe80''), (True, ''1.2.3.4'')]"])
      (assumption | simp add: demo_net_def NUL_def)+
  with packet show ?thesis by (simp add: nothing_served_def)
qed


section \<open>The relay\<close>

text \<open>One direction of the relay delivers a prefix of what it reads, unchanged and in order; it stops
  early only when the time is over at one of its two checks, and never delivers after such a check.\<close>

theorem relay_prefix:
  "\<exists>k \<le> min writes (length reads). relay_stream clk start n writes reads = take k reads \<and>
     (\<forall>i < k. \<not> time_exceeded start (clk (n + 2 * i)) \<and> \<not> time_exceeded start (clk (n + 2 * i + 1))) \<and>
     (k < min writes (length reads) \<longrightarrow>
        time_exceeded start (clk (n + 2 * k)) \<or> time_exceeded start (clk (n + 2 * k + 1)))"
  by (rule relay_stream_take)

lemma relay_prefix_instance:
  "\<exists>k \<le> 2. relay_stream (\<lambda>n. if n < 2 then 100 else 121) 100 0 5 [''a'', ''b''] = take k [''a'', ''b''] \<and> k < 2"
proof -
  have stream: "relay_stream (\<lambda>n. if n < 2 then 100 else 121) 100 0 5 [''a'', ''b''] = [''a'']"
    by (simp add: time_exceeded_def)
  obtain k where "k \<le> min 5 (length [''a'', ''b''])"
    and "relay_stream (\<lambda>n. if n < 2 then 100 else 121) 100 0 5 [''a'', ''b''] = take k [''a'', ''b'']"
    using relay_prefix [of 5 "[''a'', ''b'']" "\<lambda>n. if n < 2 then 100 else 121" 100 0] by blast
  then have k: "k \<le> 2" "take k [''a'', ''b''] = [''a'']" unfolding stream by simp_all
  then have "k = 1" by (cases k; cases "k - 1") simp_all
  with stream show ?thesis by (intro exI [of _ 1]) simp
qed

end
