(* ===== verification/Socks_Main.thy ===== *)
theory Socks_Main
  imports Socks_Theorems Listen
begin

text \<open>
  \<open>main\<close> of \<open>projects/04-socks-proxy/socks_server.cpp\<close>: a process for every connection. The processes share the
  directory with the files that hold the start times of the client addresses; each starts from the files that the
  ones before it have left. The model takes the processes one after the other: they meet only in these files, which a
  process writes at its beginning.
\<close>

section \<open>Ports from the command line\<close>

text \<open>\<open>atoi\<close> is 0 on a text that is no number; beyond the range of \<open>int\<close> its behaviour is undefined.\<close>

definition atoi :: "string \<Rightarrow> int result" where
  "atoi s =
     (case stoi s of
        Inr n \<Rightarrow> Inr n
      | Inl e \<Rightarrow> if e = Uncaught InvalidArgument then Inr 0 else Inl SignedOverflow)"

text \<open>The acceptor of a Boost server: a port that cannot be bound is an exception, and \<open>main\<close> returns 1.\<close>

definition boost_acceptor :: "tcp_network \<Rightarrow> string list \<Rightarrow> nat result" where
  "boost_acceptor tcp args =
     (if length args \<noteq> 2 then Inl (ExitProcess 1)
      else bindR (atoi (args ! 1)) (\<lambda>n.
        case bound_port tcp (port_cast n) of None \<Rightarrow> Inl (ExitProcess 1) | Some p \<Rightarrow> Inr p))"

lemma boost_port:
  assumes "binds_ports tcp" and "boost_acceptor tcp [name, a] = Inr p" and "stoi a = Inr n"
  shows "n mod 65536 \<noteq> 0 \<longrightarrow> int p = n mod 65536"
proof -
  from assms(2,3) have "bound_port tcp (port_cast n) = Some p"
    by (auto simp: boost_acceptor_def atoi_def split: option.splits)
  with assms(1) have "port_cast n \<noteq> 0 \<longrightarrow> p = port_cast n" by (auto simp: binds_ports_def)
  with port_cast(1) [of n] show ?thesis by auto
qed

section \<open>The server\<close>







section \<open>The start time of an address\<close>


lemma files_write [simp]: "files (snd (write_socks_reply net r port rip sv)) = files sv"
  by (simp add: write_socks_reply_def split: sum.split)

lemma files_print [simp]: "files (snd (print_server_message net request d reply sv)) = files sv"
  using print_keeps [OF prod.collapse [symmetric]] by blast

lemma files_andThen:
  assumes "files (snd r) = fs" and "\<And>sv. files sv = fs \<Longrightarrow> files (snd (f sv)) = fs"
  shows "files (snd (andThen r f)) = fs"
  using assms by (cases r) (simp add: andThen_def)

lemma files_reject [simp]: "files (snd (reject net request dest port rip sv)) = files sv"
  unfolding reject_def by (rule files_andThen) simp_all













section \<open>Properties\<close>





end
