(* ===== verification/Web_Servers.thy ===== *)
theory Web_Servers
  imports Cgi_Console Socks_Main
begin

text \<open>
  \<open>main\<close> and the accept loops of \<open>http_server.cpp\<close> and \<open>cgi_server.cpp\<close> of \<open>projects/03-http-cgi-console\<close>: the port, and a
  session for every connection. A connection is what its reads deliver; for the CGI server the events that follow
  come with it.
\<close>

text \<open>\<open>fork\<close> may fail: then the connection is closed without an answer.\<close>

definition http_connection ::
  "(string \<Rightarrow> bool) \<Rightarrow> (string \<times> string) list \<Rightarrow> bool \<Rightarrow> endpoints \<Rightarrow> string list \<Rightarrow> http_action option" where
  "http_connection executable environ forked ends chunks =
     (case http_session executable environ ends [] chunks of
        ReadMore \<Rightarrow> None
      | Answer text \<Rightarrow> if text = forbidden_answer \<or> forked then Some (Answer text) else None
      | Execute text program e \<Rightarrow> if forked then Some (Execute text program e) else None)"

definition http_main ::
  "tcp_network \<Rightarrow> string list \<Rightarrow> (string \<Rightarrow> bool) \<Rightarrow> (string \<times> string) list \<Rightarrow>
   (bool \<times> endpoints \<times> string list) list \<Rightarrow> (nat \<times> http_action option list) result" where
  "http_main tcp args executable environ conns =
     bindR (boost_acceptor tcp args) (\<lambda>p.
       Inr (p, map (\<lambda>(forked, ends, chunks). http_connection executable environ forked ends chunks) conns))"

text \<open>\<open>do_read\<close> of the CGI server: reading goes on until the empty line.\<close>

fun cgi_read :: "string \<Rightarrow> string list \<Rightarrow> HttpRequest option" where
  "cgi_read request_data [] = None"
| "cgi_read request_data (d # ds) =
     (if complete_request (request_data @ d) then Some (parse_http_request (request_data @ d))
      else cgi_read (request_data @ d) ds)"

definition cgi_connection :: "(string \<Rightarrow> string option) \<Rightarrow> string list \<Rightarrow> browser_event list \<Rightarrow> browser option" where
  "cgi_connection documents chunks events =
     map_option (\<lambda>request. browser_run events (open_browser documents request)) (cgi_read [] chunks)"

definition cgi_main ::
  "tcp_network \<Rightarrow> string list \<Rightarrow> (string \<Rightarrow> string option) \<Rightarrow> (string list \<times> browser_event list) list \<Rightarrow>
   (nat \<times> browser option list) result" where
  "cgi_main tcp args documents conns =
     bindR (boost_acceptor tcp args) (\<lambda>p.
       Inr (p, map (\<lambda>(chunks, events). cgi_connection documents chunks events) conns))"

text \<open>Both servers read the same request from the same bytes.\<close>

lemma http_session_reads:
  "http_session executable environ ends data chunks =
     (case cgi_read data chunks of
        None \<Rightarrow> ReadMore
      | Some request \<Rightarrow>
          if path request \<noteq> ''/panel.cgi'' then Answer forbidden_answer
          else execute_cgi executable environ ends request)"
proof (induction chunks arbitrary: data)
  case (Cons d ds)
  have "execute_cgi executable environ ends request \<noteq> ReadMore" for request
    by (simp add: execute_cgi_def Let_def)
  then show ?case
    using Cons.IH [of "data @ d"]
    by (cases "complete_request (data @ d)")
      (auto simp: http_dispatch_def Let_def split: http_action.split)
qed simp

section \<open>How a request is cut into reads\<close>

lemma cgi_read_pieces:
  assumes "complete_request (data @ concat chunks)"
    and "\<And>n. n < length (data @ concat chunks) \<Longrightarrow> \<not> complete_request (take n (data @ concat chunks))"
    and "\<not> complete_request data"
  shows "cgi_read data chunks = Some (parse_http_request (data @ concat chunks))"
  using assms
proof (induction chunks arbitrary: data)
  case (Cons d ds)
  have split: "data @ concat (d # ds) = (data @ d) @ concat ds" by simp
  show ?case
  proof (cases "complete_request (data @ d)")
    case True
    have "concat ds = []"
    proof (rule ccontr)
      assume "concat ds \<noteq> []"
      then have "length (data @ d) < length (data @ concat (d # ds))" unfolding split length_append by simp
      from Cons.prems(2) [OF this] True show False unfolding split by simp
    qed
    then have "(data @ d) @ concat ds = data @ d" by (simp only: append_Nil2)
    with True show ?thesis unfolding split by (simp only: cgi_read.simps if_True)
  next
    case False
    have "cgi_read (data @ d) ds = Some (parse_http_request ((data @ d) @ concat ds))"
      using Cons.prems False unfolding split by (intro Cons.IH) blast+
    with False show ?thesis unfolding split by simp
  qed
qed simp

text \<open>C25. It does not matter to the two web servers how a request arrives: if it ends with its first empty line, every
  way to cut it into reads leads to the answer that the request in one piece gets.\<close>

theorem request_in_pieces:
  assumes "complete_request request"
    and "\<And>n. n < length request \<Longrightarrow> \<not> complete_request (take n request)"
    and "concat chunks = request"
  shows "http_session executable environ ends [] chunks = http_session executable environ ends [] [request] \<and>
         cgi_connection documents chunks events = cgi_connection documents [request] events"
proof -
  have "\<not> complete_request []" by (simp add: complete_request_def CRLF_def)
  then have read: "cgi_read [] chunks = Some (parse_http_request request)"
    using cgi_read_pieces [of "[]" chunks] assms by simp
  moreover have "cgi_read [] [request] = Some (parse_http_request request)"
    using assms(1) by simp
  ultimately show ?thesis
    unfolding http_session_reads cgi_connection_def by simp
qed

definition panel_request :: string where
  "panel_request = ''GET /panel.cgi HTTP/1.1'' @ CRLF @ CRLF"

lemma request_in_pieces_instance:
  "cgi_connection (\<lambda>f. None) [''GET /pan'', ''el.cgi HTTP/1.1'' @ [CR], [NL, CR], [NL]] [] =
   cgi_connection (\<lambda>f. None) [panel_request] []"
proof -
  have all: "list_all (\<lambda>n. \<not> complete_request (take n panel_request)) [0..<length panel_request]" by code_simp
  have "\<not> complete_request (take n panel_request)" if "n < length panel_request" for n
  proof -
    have "n \<in> set [0..<length panel_request]" using that by simp
    with all show ?thesis unfolding list_all_iff by blast
  qed
  moreover have "complete_request panel_request" by code_simp
  moreover have "concat [''GET /pan'', ''el.cgi HTTP/1.1'' @ [CR], [NL, CR], [NL]] = panel_request"
    by (simp add: CRLF_def panel_request_def)
  ultimately show ?thesis by (intro request_in_pieces [THEN conjunct2])
qed

end
